(* ===== verification/Prelude.thy ===== *)
theory Prelude
  imports Main "HOL-Library.Word" "HOL-Library.Monad_Syntax"
begin

text \<open>
  Shared vocabulary of the development: the fixed-width integers the sources use,
  the pieces of the C++ standard library they call (\<open>std::string\<close> searching and
  slicing, \<open>std::find_if\<close>), and the generic list facts that several components need.
  Two collections of rewrite rules are filled by the components:
  \<open>byte_simps\<close> for byte-level layout and \<open>state_simps\<close> for projections of updated
  states.
\<close>

unbundle bit_operations_syntax

named_theorems byte_simps "layout of bytes in buffers"
named_theorems state_simps "field reads of updated component states"

type_synonym byte = "8 word"
type_synonym u16 = "16 word"
type_synonym u32 = "32 word"
type_synonym u64 = "64 word"

section \<open>Strings of the C++ standard library\<close>

text \<open>
  \<open>std::string::find\<close> from the first position: the least position where the needle
  is a prefix of what is left, \<open>None\<close> for \<open>npos\<close>. The empty needle is found at once.
\<close>

fun is_prefix :: "'a list \<Rightarrow> 'a list \<Rightarrow> bool" where
  "is_prefix [] ys = True"
| "is_prefix (x # xs) [] = False"
| "is_prefix (x # xs) (y # ys) = (x = y \<and> is_prefix xs ys)"

fun str_find :: "'a list \<Rightarrow> 'a list \<Rightarrow> nat option" where
  "str_find [] needle = (if needle = [] then Some 0 else None)"
| "str_find (c # cs) needle =
     (if is_prefix needle (c # cs) then Some 0 else map_option Suc (str_find cs needle))"

text \<open>\<open>find(needle, pos)\<close> starts the search at \<open>pos\<close>.\<close>

definition str_find_from :: "'a list \<Rightarrow> 'a list \<Rightarrow> nat \<Rightarrow> nat option" where
  "str_find_from s needle pos =
     (if length s < pos then None else map_option ((+) pos) (str_find (drop pos s) needle))"

text \<open>\<open>find_last_of\<close> for one character: the greatest position that holds it.\<close>

fun str_find_last :: "'a list \<Rightarrow> 'a \<Rightarrow> nat option" where
  "str_find_last [] ch = None"
| "str_find_last (c # cs) ch =
     (case str_find_last cs ch of
        Some i \<Rightarrow> Some (Suc i)
      | None \<Rightarrow> (if c = ch then Some 0 else None))"

text \<open>\<open>substr(pos, count)\<close>; every use below has \<open>pos\<close> within the string.\<close>

definition substr :: "'a list \<Rightarrow> nat \<Rightarrow> nat \<Rightarrow> 'a list" where
  "substr s pos count = take count (drop pos s)"

definition substr_from :: "'a list \<Rightarrow> nat \<Rightarrow> 'a list" where
  "substr_from s pos = drop pos s"

lemma is_prefix_append [simp]: "is_prefix xs (xs @ ys)"
  by (induction xs) auto

lemma is_prefix_iff: "is_prefix xs ys \<longleftrightarrow> (\<exists>zs. ys = xs @ zs)"
  by (induction xs ys rule: is_prefix.induct) auto

lemma is_prefix_take: "is_prefix xs ys \<longleftrightarrow> take (length xs) ys = xs"
  by (induction xs ys rule: is_prefix.induct) auto

lemma str_find_prefix [simp]: "is_prefix needle s \<Longrightarrow> str_find s needle = Some 0"
  by (cases s; cases needle) auto

lemma str_find_Some:
  "str_find s needle = Some i \<Longrightarrow> i \<le> length s \<and> is_prefix needle (drop i s)"
  by (induction s arbitrary: i) (auto split: if_splits)

lemma str_find_bound: "str_find s needle = Some i \<Longrightarrow> i + length needle \<le> length s"
  using str_find_Some [of s needle i] by (auto simp: is_prefix_iff dest: arg_cong [of _ _ length])

lemma str_find_single_None [simp]: "str_find s [c] = None \<longleftrightarrow> c \<notin> set s"
  by (induction s) auto

lemma str_find_single_append:
  "c \<notin> set s \<Longrightarrow> str_find (s @ c # t) [c] = Some (length s)"
  by (induction s) auto

lemma str_find_None_not_infix:
  "str_find s needle = None \<Longrightarrow> s \<noteq> a @ needle @ b"
proof (induction s arbitrary: a)
  case Nil
  then show ?case by (auto split: if_splits)
next
  case (Cons c cs)
  then show ?case
    by (cases a) (auto split: if_splits simp: is_prefix_iff)
qed

lemma str_find_last_None [simp]: "str_find_last s c = None \<longleftrightarrow> c \<notin> set s"
  by (induction s) (auto split: option.splits)

lemma str_find_last_append:
  "c \<notin> set t \<Longrightarrow> str_find_last (s @ c # t) c = Some (length s)"
proof (induction s)
  case Nil
  then show ?case by (simp del: str_find_last_None add: str_find_last_None [THEN iffD2])
qed simp

lemma str_find_last_Some:
  "str_find_last s c = Some i \<Longrightarrow> i < length s \<and> s ! i = c \<and> c \<notin> set (drop (Suc i) s)"
  by (induction s arbitrary: i) (auto split: option.splits if_splits)

section \<open>First match in a vector\<close>

text \<open>\<open>std::find_if\<close>: the position of the first element that satisfies the predicate.\<close>

fun find_idx :: "('a \<Rightarrow> bool) \<Rightarrow> 'a list \<Rightarrow> nat option" where
  "find_idx P [] = None"
| "find_idx P (x # xs) = (if P x then Some 0 else map_option Suc (find_idx P xs))"

text \<open>\<open>erase(it)\<close> of a vector or list at the position an iterator designates.\<close>

definition erase_at :: "nat \<Rightarrow> 'a list \<Rightarrow> 'a list" where
  "erase_at i xs = take i xs @ drop (Suc i) xs"

text \<open>The two together: drop the first element that satisfies the predicate.\<close>

fun erase_first :: "('a \<Rightarrow> bool) \<Rightarrow> 'a list \<Rightarrow> 'a list" where
  "erase_first P [] = []"
| "erase_first P (x # xs) = (if P x then xs else x # erase_first P xs)"

lemma erase_at_find_idx:
  "(case find_idx P xs of None \<Rightarrow> xs | Some i \<Rightarrow> erase_at i xs) = erase_first P xs"
  by (induction xs) (auto simp: erase_at_def split: option.splits)

lemma find_idx_None [simp]: "find_idx P xs = None \<longleftrightarrow> (\<forall>x \<in> set xs. \<not> P x)"
  by (induction xs) auto

lemma find_idx_Some:
  "find_idx P xs = Some i \<Longrightarrow> i < length xs \<and> P (xs ! i) \<and> (\<forall>j < i. \<not> P (xs ! j))"
proof (induction xs arbitrary: i)
  case (Cons x xs)
  then show ?case
    by (auto split: if_splits simp: nth_Cons split: nat.splits)
qed simp

lemma find_eq_find_idx: "find P xs = map_option ((!) xs) (find_idx P xs)"
  by (induction xs) (auto simp: option.map_comp comp_def)

lemma set_erase_first: "set (erase_first P xs) \<subseteq> set xs"
  by (induction xs) auto

lemma erase_first_id: "(\<And>x. x \<in> set xs \<Longrightarrow> \<not> P x) \<Longrightarrow> erase_first P xs = xs"
  by (induction xs) auto

lemma erase_first_distinct_map:
  "distinct (map f xs) \<Longrightarrow> erase_first (\<lambda>x. f x = k) xs = filter (\<lambda>x. f x \<noteq> k) xs"
proof (induction xs)
  case (Cons x xs)
  show ?case
  proof (cases "f x = k")
    case True
    with Cons.prems have "filter (\<lambda>x. f x \<noteq> k) xs = xs"
      by (force simp: filter_id_conv image_iff)
    with True show ?thesis by simp
  next
    case False
    with Cons show ?thesis by simp
  qed
qed simp

lemma erase_first_distinct:
  "distinct xs \<Longrightarrow> erase_first (\<lambda>x. x = k) xs = filter (\<lambda>x. x \<noteq> k) xs"
  using erase_first_distinct_map [of "\<lambda>x. x" xs k] by simp

section \<open>Bytes of a word\<close>

lemma bit_byte_high [simp]: "8 \<le> n \<Longrightarrow> \<not> bit (b :: byte) n"
  by (auto dest: bit_imp_le_length)

lemma ucast_and_FF [simp]: "ucast (x AND 0xFF) = (ucast x :: byte)" for x :: u32
proof -
  have ff: "(0xFF :: u32) = mask 8" by (simp add: mask_eq_exp_minus_1)
  show ?thesis unfolding ff by (rule bit_word_eqI) (auto simp: bit_simps)
qed

lemma ucast_and_FFFFFFFF [simp]: "ucast (x AND 0xFFFFFFFF) = (ucast x :: u32)" for x :: u64
proof -
  have ff: "(0xFFFFFFFF :: u64) = mask 32" by (simp add: mask_eq_exp_minus_1)
  show ?thesis unfolding ff by (rule bit_word_eqI) (auto simp: bit_simps)
qed

section \<open>Lists and slices\<close>

lemma take_drop_split: "i + n \<le> length xs \<Longrightarrow> xs = take i xs @ take n (drop i xs) @ drop (i + n) xs"
  by (metis add.commute append_take_drop_id drop_drop)

lemma list4_of_length:
  "length xs = 4 \<Longrightarrow> xs = [xs ! 0, xs ! 1, xs ! 2, xs ! 3]"
  by (rule nth_equalityI) (auto simp: nth_Cons less_Suc_eq numeral_eq_Suc split: nat.splits)

lemma list_update4:
  assumes "off + 4 \<le> length xs"
  shows "xs[off := a, off + 1 := b, off + 2 := c, off + 3 := d] =
           take off xs @ [a, b, c, d] @ drop (off + 4) xs"
proof -
  define ys zs where "ys = take off xs" and "zs = drop (off + 4) xs"
  have len: "length ys = off" using assms by (simp add: ys_def)
  have "length (take 4 (drop off xs)) = 4" using assms by simp
  then obtain p q r s where "take 4 (drop off xs) = [p, q, r, s]"
    using list4_of_length by blast
  with take_drop_split [OF assms] have xs: "xs = ys @ [p, q, r, s] @ zs"
    by (simp add: ys_def zs_def)
  show ?thesis unfolding ys_def [symmetric] zs_def [symmetric]
    unfolding xs len [symmetric] by (simp add: list_update_append)
qed

lemma unat_word_of_nat: "n < 2 ^ LENGTH('a) \<Longrightarrow> unat (word_of_nat n :: 'a::len word) = n"
  by (simp add: unat_of_nat)

section \<open>Exchanging objects\<close>

text \<open>
  \<open>std::swap\<close> for a class with a move constructor (the new object, and what is left of the source) and
  a move assignment (the target and the source afterwards).
\<close>

definition std_swap :: "('a \<Rightarrow> 'a \<times> 'a) \<Rightarrow> ('a \<Rightarrow> 'a \<Rightarrow> 'a \<times> 'a) \<Rightarrow> 'a \<Rightarrow> 'a \<Rightarrow> 'a \<times> 'a" where
  "std_swap move assign a b =
     (let (tmp, a) = move a; (a, b) = assign a b; (b, tmp) = assign b tmp in (a, b))"

text \<open>The objects of a program in the order of their construction; a destroyed one leaves a gap.\<close>

definition alive :: "nat \<Rightarrow> 'a option list \<Rightarrow> 'a option" where
  "alive i objs = (if i < length objs then objs ! i else None)"

lemma alive_update: "alive i objs = Some obj \<Longrightarrow> alive j (objs[i := new]) = (if i = j then new else alive j objs)"
  by (auto simp: alive_def split: if_splits)

end
