(* ===== verification/MD5_Hash.thy ===== *)
theory MD5_Hash
  imports Prelude
begin

text \<open>
  The class \<open>MD5\<close> (MLCommon/inc/Tools/MD5.h, MLCommon/src/Tools/MD5.cpp). Words are 32 bits
  wide and every addition wraps, as in the code. Arrays are byte lists, and a \<open>memcpy\<close> or a
  block read that would leave its array is \<open>None\<close>; so is a loop that never returns.
  The theorems about it are in \<open>MD5_Correct\<close>.
\<close>

section \<open>Bit-level operations\<close>

definition F :: "u32 \<Rightarrow> u32 \<Rightarrow> u32 \<Rightarrow> u32" where
  "F x y z = (x AND y) OR (NOT x AND z)"

definition G :: "u32 \<Rightarrow> u32 \<Rightarrow> u32 \<Rightarrow> u32" where
  "G x y z = (x AND z) OR (y AND NOT z)"

definition H :: "u32 \<Rightarrow> u32 \<Rightarrow> u32 \<Rightarrow> u32" where
  "H x y z = x XOR y XOR z"

definition I :: "u32 \<Rightarrow> u32 \<Rightarrow> u32 \<Rightarrow> u32" where
  "I x y z = y XOR (x OR NOT z)"

definition rotate_left :: "u32 \<Rightarrow> nat \<Rightarrow> u32" where
  "rotate_left x n = push_bit n x OR drop_bit (32 - n) x"

definition FF :: "u32 \<Rightarrow> u32 \<Rightarrow> u32 \<Rightarrow> u32 \<Rightarrow> u32 \<Rightarrow> nat \<Rightarrow> u32 \<Rightarrow> u32" where
  "FF a b c d x s ac = rotate_left (a + F b c d + x + ac) s + b"

definition GG :: "u32 \<Rightarrow> u32 \<Rightarrow> u32 \<Rightarrow> u32 \<Rightarrow> u32 \<Rightarrow> nat \<Rightarrow> u32 \<Rightarrow> u32" where
  "GG a b c d x s ac = rotate_left (a + G b c d + x + ac) s + b"

definition HH :: "u32 \<Rightarrow> u32 \<Rightarrow> u32 \<Rightarrow> u32 \<Rightarrow> u32 \<Rightarrow> nat \<Rightarrow> u32 \<Rightarrow> u32" where
  "HH a b c d x s ac = rotate_left (a + H b c d + x + ac) s + b"

definition II :: "u32 \<Rightarrow> u32 \<Rightarrow> u32 \<Rightarrow> u32 \<Rightarrow> u32 \<Rightarrow> nat \<Rightarrow> u32 \<Rightarrow> u32" where
  "II a b c d x s ac = rotate_left (a + I b c d + x + ac) s + b"

text \<open>The shift amounts \<open>#define\<close>d at the top of the file.\<close>

definition S11 :: nat where "S11 = 7"
definition S12 :: nat where "S12 = 12"
definition S13 :: nat where "S13 = 17"
definition S14 :: nat where "S14 = 22"
definition S21 :: nat where "S21 = 5"
definition S22 :: nat where "S22 = 9"
definition S23 :: nat where "S23 = 14"
definition S24 :: nat where "S24 = 20"
definition S31 :: nat where "S31 = 4"
definition S32 :: nat where "S32 = 11"
definition S33 :: nat where "S33 = 16"
definition S34 :: nat where "S34 = 23"
definition S41 :: nat where "S41 = 6"
definition S42 :: nat where "S42 = 10"
definition S43 :: nat where "S43 = 15"
definition S44 :: nat where "S44 = 21"

lemmas S_defs = S11_def S12_def S13_def S14_def S21_def S22_def S23_def S24_def
  S31_def S32_def S33_def S34_def S41_def S42_def S43_def S44_def

section \<open>Words and bytes\<close>

fun MD5_decode :: "byte list \<Rightarrow> u32 list" where
  "MD5_decode (b0 # b1 # b2 # b3 # rest) =
     (ucast b0 OR push_bit 8 (ucast b1) OR push_bit 16 (ucast b2) OR push_bit 24 (ucast b3))
       # MD5_decode rest"
| "MD5_decode _ = []"

fun MD5_encode :: "u32 list \<Rightarrow> byte list" where
  "MD5_encode [] = []"
| "MD5_encode (w # ws) =
     [ucast (w AND 0xFF), ucast (drop_bit 8 w AND 0xFF),
      ucast (drop_bit 16 w AND 0xFF), ucast (drop_bit 24 w AND 0xFF)] @ MD5_encode ws"

section \<open>The object and the block transformation\<close>

type_synonym md5_state = "u32 \<times> u32 \<times> u32 \<times> u32"

record MD5 =
  finalized :: bool
  buffer :: "byte list"
  count_lo :: u32
  count_hi :: u32
  state :: md5_state
  digest :: "byte list"

definition MD5_init :: "MD5 \<Rightarrow> MD5" where
  "MD5_init m = m\<lparr>finalized := False, count_lo := 0, count_hi := 0,
     state := (0x67452301, 0xefcdab89, 0x98badcfe, 0x10325476)\<rparr>"

text \<open>
  The 64 assignments of \<open>transform\<close>, in the order of the source; each rebinds the variable
  that the C++ call updates through its reference parameter.
\<close>

definition MD5_rounds :: "u32 list \<Rightarrow> md5_state \<Rightarrow> md5_state" where
  "MD5_rounds x st = (case st of (a, b, c, d) \<Rightarrow>
    let
     a = FF a b c d (x ! 0) S11 0xd76aa478;
     d = FF d a b c (x ! 1) S12 0xe8c7b756;
     c = FF c d a b (x ! 2) S13 0x242070db;
     b = FF b c d a (x ! 3) S14 0xc1bdceee;
     a = FF a b c d (x ! 4) S11 0xf57c0faf;
     d = FF d a b c (x ! 5) S12 0x4787c62a;
     c = FF c d a b (x ! 6) S13 0xa8304613;
     b = FF b c d a (x ! 7) S14 0xfd469501;
     a = FF a b c d (x ! 8) S11 0x698098d8;
     d = FF d a b c (x ! 9) S12 0x8b44f7af;
     c = FF c d a b (x ! 10) S13 0xffff5bb1;
     b = FF b c d a (x ! 11) S14 0x895cd7be;
     a = FF a b c d (x ! 12) S11 0x6b901122;
     d = FF d a b c (x ! 13) S12 0xfd987193;
     c = FF c d a b (x ! 14) S13 0xa679438e;
     b = FF b c d a (x ! 15) S14 0x49b40821;
     a = GG a b c d (x ! 1) S21 0xf61e2562;
     d = GG d a b c (x ! 6) S22 0xc040b340;
     c = GG c d a b (x ! 11) S23 0x265e5a51;
     b = GG b c d a (x ! 0) S24 0xe9b6c7aa;
     a = GG a b c d (x ! 5) S21 0xd62f105d;
     d = GG d a b c (x ! 10) S22 0x2441453;
     c = GG c d a b (x ! 15) S23 0xd8a1e681;
     b = GG b c d a (x ! 4) S24 0xe7d3fbc8;
     a = GG a b c d (x ! 9) S21 0x21e1cde6;
     d = GG d a b c (x ! 14) S22 0xc33707d6;
     c = GG c d a b (x ! 3) S23 0xf4d50d87;
     b = GG b c d a (x ! 8) S24 0x455a14ed;
     a = GG a b c d (x ! 13) S21 0xa9e3e905;
     d = GG d a b c (x ! 2) S22 0xfcefa3f8;
     c = GG c d a b (x ! 7) S23 0x676f02d9;
     b = GG b c d a (x ! 12) S24 0x8d2a4c8a;
     a = HH a b c d (x ! 5) S31 0xfffa3942;
     d = HH d a b c (x ! 8) S32 0x8771f681;
     c = HH c d a b (x ! 11) S33 0x6d9d6122;
     b = HH b c d a (x ! 14) S34 0xfde5380c;
     a = HH a b c d (x ! 1) S31 0xa4beea44;
     d = HH d a b c (x ! 4) S32 0x4bdecfa9;
     c = HH c d a b (x ! 7) S33 0xf6bb4b60;
     b = HH b c d a (x ! 10) S34 0xbebfbc70;
     a = HH a b c d (x ! 13) S31 0x289b7ec6;
     d = HH d a b c (x ! 0) S32 0xeaa127fa;
     c = HH c d a b (x ! 3) S33 0xd4ef3085;
     b = HH b c d a (x ! 6) S34 0x4881d05;
     a = HH a b c d (x ! 9) S31 0xd9d4d039;
     d = HH d a b c (x ! 12) S32 0xe6db99e5;
     c = HH c d a b (x ! 15) S33 0x1fa27cf8;
     b = HH b c d a (x ! 2) S34 0xc4ac5665;
     a = II a b c d (x ! 0) S41 0xf4292244;
     d = II d a b c (x ! 7) S42 0x432aff97;
     c = II c d a b (x ! 14) S43 0xab9423a7;
     b = II b c d a (x ! 5) S44 0xfc93a039;
     a = II a b c d (x ! 12) S41 0x655b59c3;
     d = II d a b c (x ! 3) S42 0x8f0ccc92;
     c = II c d a b (x ! 10) S43 0xffeff47d;
     b = II b c d a (x ! 1) S44 0x85845dd1;
     a = II a b c d (x ! 8) S41 0x6fa87e4f;
     d = II d a b c (x ! 15) S42 0xfe2ce6e0;
     c = II c d a b (x ! 6) S43 0xa3014314;
     b = II b c d a (x ! 13) S44 0x4e0811a1;
     a = II a b c d (x ! 4) S41 0xf7537e82;
     d = II d a b c (x ! 11) S42 0xbd3af235;
     c = II c d a b (x ! 2) S43 0x2ad7d2bb;
     b = II b c d a (x ! 9) S44 0xeb86d391
    in (a, b, c, d))"

definition MD5_transform_state :: "md5_state \<Rightarrow> byte list \<Rightarrow> md5_state" where
  "MD5_transform_state st block =
     (case st of (s0, s1, s2, s3) \<Rightarrow>
      case MD5_rounds (MD5_decode block) st of (a, b, c, d) \<Rightarrow>
        (s0 + a, s1 + b, s2 + c, s3 + d))"

definition MD5_transform :: "MD5 \<Rightarrow> byte list \<Rightarrow> MD5" where
  "MD5_transform m block = m\<lparr>state := MD5_transform_state (state m) block\<rparr>"

section \<open>Update, finalize and the digest\<close>

definition memcpy :: "byte list \<Rightarrow> nat \<Rightarrow> byte list \<Rightarrow> nat \<Rightarrow> nat \<Rightarrow> byte list option" where
  "memcpy dst di src si n =
     (if di + n \<le> length dst \<and> si + n \<le> length src
      then Some (take di dst @ take n (drop si src) @ drop (di + n) dst)
      else None)"

text \<open>
  The loop over whole blocks. The guard is the code's: \<open>i + blocksize\<close> is computed in 32 bits.
\<close>

partial_function (option) MD5_update_loop ::
  "MD5 \<Rightarrow> byte list \<Rightarrow> u32 \<Rightarrow> u32 \<Rightarrow> (MD5 \<times> u32) option" where
  "MD5_update_loop m input len i =
     (if i + 64 \<le> len then
        (if unat i + 64 \<le> length input
         then MD5_update_loop (MD5_transform m (take 64 (drop (unat i) input))) input len (i + 64)
         else None)
      else Some (m, i))"

declare MD5_update_loop.simps [code]

definition MD5_count :: "MD5 \<Rightarrow> u32 \<Rightarrow> MD5" where
  "MD5_count m len =
     (let lo = count_lo m + push_bit 3 len;
          hi = (if lo < push_bit 3 len then count_hi m + 1 else count_hi m)
      in m\<lparr>count_lo := lo, count_hi := hi + drop_bit 29 len\<rparr>)"

definition MD5_update :: "MD5 \<Rightarrow> byte list \<Rightarrow> u32 \<Rightarrow> MD5 option" where
  "MD5_update m0 input len = do {
     let index = count_lo m0 div 8 mod 64;
     let m = MD5_count m0 len;
     let firstpart = 64 - index;
     (m, i, index) \<leftarrow>
       (if firstpart \<le> len then do {
          buf \<leftarrow> memcpy (buffer m) (unat index) input 0 (unat firstpart);
          let m = m\<lparr>buffer := buf\<rparr>;
          let m = MD5_transform m buf;
          (m, i) \<leftarrow> MD5_update_loop m input len firstpart;
          Some (m, i, 0)
        } else Some (m, 0, index));
     buf \<leftarrow> memcpy (buffer m) (unat index) input (unat i) (unat (len - i));
     Some (m\<lparr>buffer := buf\<rparr>)
   }"

definition padding :: "byte list" where
  "padding = 0x80 # replicate 63 0"

definition MD5_finalize :: "MD5 \<Rightarrow> MD5 option" where
  "MD5_finalize m =
     (if finalized m then Some m
      else do {
        let bits = MD5_encode [count_lo m, count_hi m];
        let index = count_lo m div 8 mod 64;
        let padLen = (if index < 56 then 56 - index else 120 - index);
        m \<leftarrow> MD5_update m padding padLen;
        m \<leftarrow> MD5_update m bits 8;
        (case state m of (s0, s1, s2, s3) \<Rightarrow>
          Some (m\<lparr>digest := MD5_encode [s0, s1, s2, s3], buffer := replicate 64 0,
                  count_lo := 0, count_hi := 0, finalized := True\<rparr>))
      })"

text \<open>One byte through \<open>sprintf "%02x"\<close>: two hexadecimal digits in lower case.\<close>

definition hex_digit :: "byte \<Rightarrow> char" where
  "hex_digit n = ''0123456789abcdef'' ! unat n"

definition MD5_hexdigest :: "MD5 \<Rightarrow> string" where
  "MD5_hexdigest m =
     (if \<not> finalized m then []
      else concat (map (\<lambda>b. [hex_digit (drop_bit 4 b), hex_digit (b AND 0xF)]) (digest m)))"

text \<open>
  The string constructor converts the 64-bit length of the string to \<open>size_type\<close>, which keeps
  its low 32 bits. An object not yet initialised holds indeterminate bytes: any object will do.
\<close>

definition MD5_of_string :: "MD5 \<Rightarrow> byte list \<Rightarrow> MD5 option" where
  "MD5_of_string raw text = do {
     m \<leftarrow> MD5_update (MD5_init raw) text (word_of_nat (length text));
     MD5_finalize m
   }"

definition md5 :: "MD5 \<Rightarrow> byte list \<Rightarrow> string option" where
  "md5 raw str = map_option MD5_hexdigest (MD5_of_string raw str)"

end
