(* ===== verification/MD5_Correct.thy ===== *)
theory MD5_Correct
  imports MD5_Hash
begin

text \<open>
  What the class \<open>MD5\<close> promises. The specification is RFC 1321 written as a function of the
  whole message: the table-driven round function, the padding rule and the fold over 64-byte
  blocks. An object that was fed any sequence of pieces ends with the digest of their
  concatenation (\<open>MD5_update_holds\<close>, \<open>MD5_finalize_spec\<close>).
\<close>

section \<open>The block function as a table\<close>

definition rfc_T :: "u32 list" where
  "rfc_T = [
     0xd76aa478, 0xe8c7b756, 0x242070db, 0xc1bdceee, 0xf57c0faf, 0x4787c62a,
     0xa8304613, 0xfd469501, 0x698098d8, 0x8b44f7af, 0xffff5bb1, 0x895cd7be,
     0x6b901122, 0xfd987193, 0xa679438e, 0x49b40821, 0xf61e2562, 0xc040b340,
     0x265e5a51, 0xe9b6c7aa, 0xd62f105d, 0x2441453, 0xd8a1e681, 0xe7d3fbc8,
     0x21e1cde6, 0xc33707d6, 0xf4d50d87, 0x455a14ed, 0xa9e3e905, 0xfcefa3f8,
     0x676f02d9, 0x8d2a4c8a, 0xfffa3942, 0x8771f681, 0x6d9d6122, 0xfde5380c,
     0xa4beea44, 0x4bdecfa9, 0xf6bb4b60, 0xbebfbc70, 0x289b7ec6, 0xeaa127fa,
     0xd4ef3085, 0x4881d05, 0xd9d4d039, 0xe6db99e5, 0x1fa27cf8, 0xc4ac5665,
     0xf4292244, 0x432aff97, 0xab9423a7, 0xfc93a039, 0x655b59c3, 0x8f0ccc92,
     0xffeff47d, 0x85845dd1, 0x6fa87e4f, 0xfe2ce6e0, 0xa3014314, 0x4e0811a1,
     0xf7537e82, 0xbd3af235, 0x2ad7d2bb, 0xeb86d391]"

definition rfc_fun :: "nat \<Rightarrow> u32 \<Rightarrow> u32 \<Rightarrow> u32 \<Rightarrow> u32" where
  "rfc_fun i = (if i < 16 then F else if i < 32 then G else if i < 48 then H else I)"

definition rfc_index :: "nat \<Rightarrow> nat" where
  "rfc_index i =
     (if i < 16 then i else if i < 32 then (5 * i + 1) mod 16
      else if i < 48 then (3 * i + 5) mod 16 else (7 * i) mod 16)"

definition rfc_shift :: "nat \<Rightarrow> nat" where
  "rfc_shift i = [[7, 12, 17, 22], [5, 9, 14, 20], [4, 11, 16, 23], [6, 10, 15, 21]]
                   ! (i div 16) ! (i mod 4)"

type_synonym rfc_row = "(u32 \<Rightarrow> u32 \<Rightarrow> u32 \<Rightarrow> u32) \<times> nat \<times> nat \<times> u32"

definition rfc_table :: "rfc_row list" where
  "rfc_table = map (\<lambda>i. (rfc_fun i, rfc_index i, rfc_shift i, rfc_T ! i)) [0..<64]"

fun rfc_run :: "u32 list \<Rightarrow> rfc_row list \<Rightarrow> md5_state \<Rightarrow> md5_state" where
  "rfc_run x [] st = st"
| "rfc_run x ((f, k, s, t) # rows) (a, b, c, d) =
     (let v = rotate_left (a + f b c d + x ! k + t) s + b in rfc_run x rows (d, v, b, c))"

lemma upt_64: "[0..<64] =
  [0, 1, 2, 3, 4, 5, 6, 7, 8, 9, 10, 11, 12, 13, 14, 15, 16, 17, 18, 19, 20, 21, 22, 23, 24, 25,
   26, 27, 28, 29, 30, 31, 32, 33, 34, 35, 36, 37, 38, 39, 40, 41, 42, 43, 44, 45, 46, 47, 48, 49,
   50, 51, 52, 53, 54, 55, 56, 57, 58, 59, 60, 61, 62, 63]"
  by (simp add: upt_rec)

lemma rfc_table_rows: "rfc_table =
  [(F, 0, 7, 0xd76aa478), (F, 1, 12, 0xe8c7b756), (F, 2, 17, 0x242070db), (F, 3, 22,
   0xc1bdceee), (F, 4, 7, 0xf57c0faf), (F, 5, 12, 0x4787c62a), (F, 6, 17, 0xa8304613), (F,
   7, 22, 0xfd469501), (F, 8, 7, 0x698098d8), (F, 9, 12, 0x8b44f7af), (F, 10, 17,
   0xffff5bb1), (F, 11, 22, 0x895cd7be), (F, 12, 7, 0x6b901122), (F, 13, 12, 0xfd987193),
   (F, 14, 17, 0xa679438e), (F, 15, 22, 0x49b40821), (G, 1, 5, 0xf61e2562), (G, 6, 9,
   0xc040b340), (G, 11, 14, 0x265e5a51), (G, 0, 20, 0xe9b6c7aa), (G, 5, 5, 0xd62f105d),
   (G, 10, 9, 0x2441453), (G, 15, 14, 0xd8a1e681), (G, 4, 20, 0xe7d3fbc8), (G, 9, 5,
   0x21e1cde6), (G, 14, 9, 0xc33707d6), (G, 3, 14, 0xf4d50d87), (G, 8, 20, 0x455a14ed),
   (G, 13, 5, 0xa9e3e905), (G, 2, 9, 0xfcefa3f8), (G, 7, 14, 0x676f02d9), (G, 12, 20,
   0x8d2a4c8a), (H, 5, 4, 0xfffa3942), (H, 8, 11, 0x8771f681), (H, 11, 16, 0x6d9d6122),
   (H, 14, 23, 0xfde5380c), (H, 1, 4, 0xa4beea44), (H, 4, 11, 0x4bdecfa9), (H, 7, 16,
   0xf6bb4b60), (H, 10, 23, 0xbebfbc70), (H, 13, 4, 0x289b7ec6), (H, 0, 11, 0xeaa127fa),
   (H, 3, 16, 0xd4ef3085), (H, 6, 23, 0x4881d05), (H, 9, 4, 0xd9d4d039), (H, 12, 11,
   0xe6db99e5), (H, 15, 16, 0x1fa27cf8), (H, 2, 23, 0xc4ac5665), (I, 0, 6, 0xf4292244),
   (I, 7, 10, 0x432aff97), (I, 14, 15, 0xab9423a7), (I, 5, 21, 0xfc93a039), (I, 12, 6,
   0x655b59c3), (I, 3, 10, 0x8f0ccc92), (I, 10, 15, 0xffeff47d), (I, 1, 21, 0x85845dd1),
   (I, 8, 6, 0x6fa87e4f), (I, 15, 10, 0xfe2ce6e0), (I, 6, 15, 0xa3014314), (I, 13, 21,
   0x4e0811a1), (I, 4, 6, 0xf7537e82), (I, 11, 10, 0xbd3af235), (I, 2, 15, 0x2ad7d2bb),
   (I, 9, 21, 0xeb86d391)]"
  unfolding rfc_table_def upt_64 rfc_T_def rfc_fun_def rfc_index_def rfc_shift_def
  by simp

text \<open>
  C24. The 64 hand-scheduled calls of \<open>transform\<close> are the 64 rows of the table of RFC 1321: the
  right function, message word, shift and sine constant in each, with the roles of the four
  registers rotated after every row.
\<close>

theorem MD5_rounds_rfc: "MD5_rounds x st = rfc_run x rfc_table st"
proof (cases st)
  case (fields a b c d)
  show ?thesis
    unfolding fields MD5_rounds_def rfc_table_rows
    by (simp only: prod.case rfc_run.simps FF_def GG_def HH_def II_def S_defs cong del: let_weak_cong)
qed

section \<open>Folding over blocks\<close>

function compress_all :: "md5_state \<Rightarrow> byte list \<Rightarrow> md5_state" where
  "compress_all st bs =
     (if length bs < 64 then st
      else compress_all (MD5_transform_state st (take 64 bs)) (drop 64 bs))"
  by pat_completeness auto
termination
  by (relation "measure (\<lambda>(st, bs). length bs)") auto

declare compress_all.simps [simp del]

lemma compress_all_short [simp]: "length bs < 64 \<Longrightarrow> compress_all st bs = st"
  by (simp add: compress_all.simps)

lemma compress_all_block:
  "length b = 64 \<Longrightarrow> compress_all st (b @ bs) = compress_all (MD5_transform_state st b) bs"
  by (subst compress_all.simps) simp

lemma compress_all_append:
  "64 dvd length a \<Longrightarrow> compress_all st (a @ b) = compress_all (compress_all st a) b"
proof (induction st a rule: compress_all.induct)
  case (1 st a)
  show ?case
  proof (cases "length a < 64")
    case True
    with "1.prems" have "a = []" by (auto dest: dvd_imp_le)
    then show ?thesis by simp
  next
    case False
    with "1.prems" have "64 dvd length (drop 64 a)" by (simp add: dvd_diff_nat)
    with "1.IH" False show ?thesis
      by (simp add: compress_all.simps [of st "a @ b"] compress_all.simps [of st a])
  qed
qed

text \<open>The bytes that wait for a whole block, and the bytes already folded in.\<close>

definition whole :: "byte list \<Rightarrow> byte list" where
  "whole M = take (64 * (length M div 64)) M"

definition rest :: "byte list \<Rightarrow> byte list" where
  "rest M = drop (64 * (length M div 64)) M"

lemma whole_rest [simp]: "whole M @ rest M = M"
  by (simp add: whole_def rest_def)

lemma length_whole [simp]: "length (whole M) = 64 * (length M div 64)"
  by (simp add: whole_def min_absorb2)

lemma length_rest [simp]: "length (rest M) = length M mod 64"
  by (simp add: rest_def modulo_nat_def mult.commute)

lemma compress_all_whole: "compress_all st M = compress_all st (whole M)"
proof -
  have "compress_all st (whole M @ rest M) = compress_all (compress_all st (whole M)) (rest M)"
    by (rule compress_all_append) simp
  then show ?thesis by simp
qed

lemma whole_rest_unique:
  assumes "M = a @ b" and "64 dvd length a" and "length b < 64"
  shows "whole M = a \<and> rest M = b"
proof -
  from assms have "64 * (length M div 64) = length a" by auto
  with assms show ?thesis by (simp add: whole_def rest_def)
qed

section \<open>What an object has absorbed\<close>

text \<open>
  \<open>md5_holds m M\<close>: the object has been fed the bytes \<open>M\<close>, in whatever pieces. The 64-bit
  counter is the number of bits modulo \<open>2 ^ 64\<close>; bytes of the buffer past the waiting ones
  are stale and say nothing.
\<close>

definition md5_iv :: md5_state where
  "md5_iv = (0x67452301, 0xefcdab89, 0x98badcfe, 0x10325476)"

definition md5_holds :: "MD5 \<Rightarrow> byte list \<Rightarrow> bool" where
  "md5_holds m M \<longleftrightarrow>
     length (buffer m) = 64 \<and>
     state m = compress_all md5_iv M \<and>
     take (length M mod 64) (buffer m) = rest M \<and>
     count_lo m = word_of_nat (8 * length M) \<and>
     count_hi m = word_of_nat (8 * length M div 2 ^ 32)"

lemma MD5_init_holds: "length (buffer raw) = 64 \<Longrightarrow> md5_holds (MD5_init raw) []"
  by (simp add: md5_holds_def MD5_init_def md5_iv_def rest_def)

lemma count_index: "unat (word_of_nat (8 * L) div 8 mod 64 :: u32) = L mod 64"
proof -
  have "(8 * L) mod 4294967296 = 8 * (L mod (536870912 :: nat))"
    using mult_mod_right [of 8 L 536870912] by simp
  then have "(8 * L) mod 4294967296 div 8 = L mod (536870912 :: nat)"
    by simp
  moreover have "L mod 536870912 mod 64 = L mod (64 :: nat)"
    by (rule mod_mod_cancel) simp
  ultimately show ?thesis
    by (simp add: unat_div unat_mod unat_of_nat del: of_nat_mult)
qed

lemma shl3_word: "push_bit 3 (word_of_nat n :: u32) = word_of_nat (8 * n)"
  by (simp add: push_bit_eq_mult)

lemma shr29_word: "n < 2 ^ 32 \<Longrightarrow> drop_bit 29 (word_of_nat n :: u32) = word_of_nat (8 * n div 2 ^ 32)"
  by (rule word_unat_eq_iff [THEN iffD2])
     (simp add: drop_bit_eq_div unat_div unat_of_nat)

text \<open>Adding with a carry: the low words wrap exactly when the sum reaches the modulus.\<close>

lemma add_carry:
  fixes p q W :: nat
  assumes "0 < W"
  shows "(p + q) mod W < q mod W \<longleftrightarrow> W \<le> p mod W + q mod W"
    and "(p + q) div W = p div W + q div W + (if W \<le> p mod W + q mod W then 1 else 0)"
proof -
  define a b where "a = p mod W" and "b = q mod W"
  have ab: "a < W" "b < W" using assms by (simp_all add: a_def b_def)
  have m: "(p + q) mod W = (if W \<le> a + b then a + b - W else a + b)"
  proof -
    have "(p + q) mod W = (a + b) mod W" by (simp add: a_def b_def mod_simps)
    also have "\<dots> = (if W \<le> a + b then a + b - W else a + b)" using ab by (auto simp: le_mod_geq)
    finally show ?thesis .
  qed
  have "(a + b) div W = (if W \<le> a + b then 1 else 0)"
    using ab by (auto simp: div_if [of "a + b"] div_if [of "a + b - W"])
  then show "(p + q) div W = p div W + q div W + (if W \<le> p mod W + q mod W then 1 else 0)"
    unfolding a_def b_def by (subst div_add1_eq) simp
  show "(p + q) mod W < q mod W \<longleftrightarrow> W \<le> p mod W + q mod W"
    using m ab by (auto simp: a_def [symmetric] b_def [symmetric])
qed

lemma MD5_count_word:
  assumes n: "n < 2 ^ 32"
    and lo: "count_lo m = word_of_nat (8 * L)" and hi: "count_hi m = word_of_nat (8 * L div 2 ^ 32)"
  shows "MD5_count m (word_of_nat n) =
           m\<lparr>count_lo := word_of_nat (8 * (L + n)), count_hi := word_of_nat (8 * (L + n) div 2 ^ 32)\<rparr>"
proof -
  define p q where "p = 8 * L" and "q = 8 * n"
  have lo': "word_of_nat p + word_of_nat q = (word_of_nat (p + q) :: u32)" by simp
  have carry: "(word_of_nat (p + q) :: u32) < word_of_nat q \<longleftrightarrow> 2 ^ 32 \<le> p mod 2 ^ 32 + q mod 2 ^ 32"
    using add_carry(1) [of "2 ^ 32" p q] by (simp add: word_less_nat_alt unat_of_nat del: of_nat_add)
  have "(p + q) div 2 ^ 32 =
          p div 2 ^ 32 + q div 2 ^ 32 + (if 2 ^ 32 \<le> p mod 2 ^ 32 + q mod 2 ^ 32 then 1 else (0::nat))"
    by (rule add_carry) simp
  then have "(word_of_nat ((p + q) div 2 ^ 32) :: u32) =
     (if 2 ^ 32 \<le> p mod 2 ^ 32 + q mod 2 ^ 32 then word_of_nat (p div 2 ^ 32) + 1
      else word_of_nat (p div 2 ^ 32)) + word_of_nat (q div 2 ^ 32)"
    by simp
  moreover have "8 * (L + n) = p + q" by (simp add: p_def q_def)
  ultimately show ?thesis
    unfolding MD5_count_def Let_def lo hi shl3_word shr29_word [OF n]
    by (simp only: p_def [symmetric] q_def [symmetric] lo' carry)
qed

section \<open>One call of update\<close>

lemma word_of_nat_le:
  "a < 2 ^ 32 \<Longrightarrow> b < 2 ^ 32 \<Longrightarrow> (word_of_nat a :: u32) \<le> word_of_nat b \<longleftrightarrow> a \<le> b"
  by (simp add: word_le_nat_alt unat_of_nat)

lemma MD5_update_loop_spec:
  assumes "length input + 64 < 2 ^ 32" and "k \<le> length input"
  shows "MD5_update_loop m input (word_of_nat (length input)) (word_of_nat k) =
           Some (m\<lparr>state := compress_all (state m) (drop k input)\<rparr>,
                 word_of_nat (k + 64 * ((length input - k) div 64)))"
  using assms(2)
proof (induction "length input - k" arbitrary: k m rule: less_induct)
  case less
  have wk: "word_of_nat k + 64 = (word_of_nat (k + 64) :: u32)" by simp
  have uk: "unat (word_of_nat k :: u32) = k"
    using assms(1) less.prems by (simp add: unat_of_nat)
  have guard: "(word_of_nat (k + 64) :: u32) \<le> word_of_nat (length input) \<longleftrightarrow> k + 64 \<le> length input"
    using assms(1) less.prems by (intro word_of_nat_le) auto
  show ?case
  proof (cases "k + 64 \<le> length input")
    case False
    then show ?thesis
      by (subst MD5_update_loop.simps) (simp only: wk guard, simp)
  next
    case True
    let ?m = "MD5_transform m (take 64 (drop k input))"
    have "compress_all (state m) (drop k input) = compress_all (state ?m) (drop (k + 64) input)"
      using compress_all_block [of "take 64 (drop k input)" "state m" "drop (k + 64) input"] True
      by (simp add: MD5_transform_def add.commute) (metis add.commute append_take_drop_id drop_drop)
    moreover have "k + 64 + 64 * ((length input - (k + 64)) div 64) = k + 64 * ((length input - k) div 64)"
      using True by (simp add: le_div_geq [of 64 "length input - k"])
    moreover have "?m\<lparr>state := s\<rparr> = m\<lparr>state := s\<rparr>" for s
      by (simp add: MD5_transform_def)
    ultimately show ?thesis
      using less.hyps [of "k + 64" ?m] True
      by (subst MD5_update_loop.simps) (simp only: wk guard uk, simp)
  qed
qed

lemma rest_append_small:
  "length M mod 64 + length input < 64 \<Longrightarrow> whole (M @ input) = whole M \<and> rest (M @ input) = rest M @ input"
  by (rule whole_rest_unique) (simp_all flip: append_assoc)

lemma compress_all_append_small:
  "length M mod 64 + length input < 64 \<Longrightarrow> compress_all st (M @ input) = compress_all st M"
  by (metis compress_all_whole rest_append_small)

lemma compress_all_append_big:
  assumes "64 - length M mod 64 \<le> length input"
  shows "compress_all st (M @ input) =
           compress_all (MD5_transform_state (compress_all st M) (rest M @ take (64 - length M mod 64) input))
             (drop (64 - length M mod 64) input)"
proof -
  let ?k = "64 - length M mod 64"
  have "M @ input = whole M @ (rest M @ take ?k input) @ drop ?k input"
    by (metis append.assoc append_take_drop_id whole_rest)
  then have "compress_all st (M @ input) =
      compress_all (compress_all st (whole M)) ((rest M @ take ?k input) @ drop ?k input)"
    by (simp only: compress_all_append length_whole dvd_triv_left)
  also have "\<dots> = compress_all (MD5_transform_state (compress_all st (whole M)) (rest M @ take ?k input))
      (drop ?k input)"
    by (rule compress_all_block) (use assms in simp)
  finally show ?thesis by (simp flip: compress_all_whole)
qed

lemma rest_append_big:
  assumes "64 - length M mod 64 \<le> length input"
    and i: "i = 64 - length M mod 64 + 64 * ((length input - (64 - length M mod 64)) div 64)"
  shows "rest (M @ input) = drop i input" and "i \<le> length input" and "length input - i < 64"
proof -
  define r q k s t where "r = length M mod 64" and "q = length M div 64" and "k = 64 - r"
    and "s = (length input - k) div 64" and "t = (length input - k) mod 64"
  have r: "r < 64" "length M = 64 * q + r" by (simp_all add: r_def q_def)
  have t: "t < 64" "length input - k = 64 * s + t" by (simp_all add: s_def t_def)
  have "k \<le> length input" using assms(1) by (simp add: k_def r_def)
  moreover have ik: "i = k + 64 * s" by (simp add: i s_def k_def r_def)
  ultimately have len: "length input = i + t" using t by linarith
  then show le: "i \<le> length input" and lt: "length input - i < 64" using t by simp_all
  have "length (M @ take i input) = 64 * (q + 1 + s)"
    using le r by (simp add: ik k_def)
  then have "64 dvd length (M @ take i input)" by simp
  with lt show "rest (M @ input) = drop i input"
    using whole_rest_unique [of "M @ input" "M @ take i input" "drop i input"] by simp
qed

lemma index_word:
  assumes "count_lo m = word_of_nat (8 * L)"
  shows "count_lo m div 8 mod 64 = word_of_nat (L mod 64)"
  unfolding assms
  by (rule word_unat_eq_iff [THEN iffD2]) (simp only: count_index, simp add: unat_of_nat)

lemma word_of_nat_diff: "a \<le> b \<Longrightarrow> (word_of_nat b - word_of_nat a :: u32) = word_of_nat (b - a)"
  by (simp add: of_nat_diff)

text \<open>The two paths of \<open>update\<close>: the input fits in the buffer, or it completes a block.\<close>

lemma MD5_update_small:
  assumes h: "md5_holds m M" and n: "length M mod 64 + length input < 64"
  shows "MD5_update m input (word_of_nat (length input)) =
    Some (m\<lparr>count_lo := word_of_nat (8 * (length M + length input)),
            count_hi := word_of_nat (8 * (length M + length input) div 2 ^ 32),
            buffer := rest M @ input @ drop (length M mod 64 + length input) (buffer m)\<rparr>)"
proof -
  let ?r = "length M mod 64" and ?n = "length input"
  have idx: "count_lo m div 8 mod 64 = word_of_nat ?r"
    using h by (intro index_word) (simp add: md5_holds_def)
  have cnt: "MD5_count m (word_of_nat ?n) = m\<lparr>count_lo := word_of_nat (8 * (length M + ?n)),
      count_hi := word_of_nat (8 * (length M + ?n) div 2 ^ 32)\<rparr>"
    using h n by (intro MD5_count_word) (auto simp: md5_holds_def)
  have fp: "64 - word_of_nat ?r = (word_of_nat (64 - ?r) :: u32)"
    using word_of_nat_diff [of ?r 64] by simp
  have "\<not> word_of_nat (64 - ?r) \<le> (word_of_nat ?n :: u32)"
    using n by (subst word_of_nat_le) auto
  moreover have "memcpy (buffer m) ?r input 0 ?n = Some (rest M @ input @ drop (?r + ?n) (buffer m))"
    using h n by (auto simp: memcpy_def md5_holds_def)
  moreover have "unat (word_of_nat ?r :: u32) = ?r" "unat (word_of_nat ?n :: u32) = ?n"
    using n by (simp_all add: unat_of_nat)
  ultimately show ?thesis
    unfolding MD5_update_def Let_def idx cnt fp by simp
qed

lemma MD5_update_big:
  assumes h: "md5_holds m M" and n: "64 - length M mod 64 \<le> length input" "length input + 64 < 2 ^ 32"
  shows "\<exists>b. length b = 64 \<and> take (length (M @ input) mod 64) b = rest (M @ input) \<and>
    MD5_update m input (word_of_nat (length input)) =
    Some (m\<lparr>count_lo := word_of_nat (8 * (length M + length input)),
            count_hi := word_of_nat (8 * (length M + length input) div 2 ^ 32),
            state := compress_all (state m) (rest M @ input),
            buffer := b\<rparr>)"
proof -
  let ?r = "length M mod 64" and ?n = "length input"
  let ?k = "64 - ?r"
  define i where i: "i = ?k + 64 * ((?n - ?k) div 64)"
  note tail = rest_append_big [OF n(1) i]
  have r: "?r < 64" by simp
  have idx: "count_lo m div 8 mod 64 = word_of_nat ?r"
    using h by (intro index_word) (simp add: md5_holds_def)
  have cnt: "MD5_count m (word_of_nat ?n) = m\<lparr>count_lo := word_of_nat (8 * (length M + ?n)),
      count_hi := word_of_nat (8 * (length M + ?n) div 2 ^ 32)\<rparr>"
    using h n by (intro MD5_count_word) (auto simp: md5_holds_def)
  have fp: "64 - word_of_nat ?r = (word_of_nat ?k :: u32)"
    using word_of_nat_diff [of ?r 64] by simp
  have guard: "word_of_nat ?k \<le> (word_of_nat ?n :: u32)"
    using n by (subst word_of_nat_le) auto
  have un: "unat (word_of_nat ?r :: u32) = ?r" "unat (word_of_nat ?k :: u32) = ?k"
    "unat (word_of_nat i :: u32) = i" "unat (word_of_nat ?n - word_of_nat i :: u32) = ?n - i"
    using n tail by (simp_all add: word_of_nat_diff unat_of_nat del: of_nat_diff)
  let ?b1 = "rest M @ take ?k input"
  have cp1: "memcpy (buffer m) ?r input 0 ?k = Some ?b1"
    using h n by (auto simp: memcpy_def md5_holds_def)
  have loop: "MD5_update_loop mm input (word_of_nat ?n) (word_of_nat ?k) =
      Some (mm\<lparr>state := compress_all (state mm) (drop ?k input)\<rparr>, word_of_nat i)" for mm
    unfolding i using n by (intro MD5_update_loop_spec) auto
  let ?b2 = "drop i input @ drop (?n - i) ?b1"
  have cp2: "memcpy ?b1 0 input i (?n - i) = Some ?b2"
    using n tail by (auto simp: memcpy_def)
  have st: "compress_all (MD5_transform_state (state m) ?b1) (drop ?k input) = compress_all (state m) (rest M @ input)"
    using compress_all_block [of ?b1 "state m" "drop ?k input"] n by simp
  have mod: "(length M + ?n) mod 64 = ?n - i"
    using arg_cong [OF tail(1), of length] by simp
  have "MD5_update m input (word_of_nat ?n) =
      Some (m\<lparr>count_lo := word_of_nat (8 * (length M + ?n)),
              count_hi := word_of_nat (8 * (length M + ?n) div 2 ^ 32),
              state := compress_all (state m) (rest M @ input), buffer := ?b2\<rparr>)"
    unfolding MD5_update_def Let_def idx cnt fp
    by (simp add: guard un cp1 loop cp2 st [symmetric] MD5_transform_def del: of_nat_diff)
  moreover have "length ?b2 = 64" "take (length (M @ input) mod 64) ?b2 = rest (M @ input)"
    using n tail by (auto simp: mod)
  ultimately show ?thesis by blast
qed

text \<open>
  One call of \<open>update\<close> absorbs its input: after it the object holds the old message followed
  by the new bytes, whatever the pieces before were and however the bytes straddle blocks.
\<close>

lemma MD5_update_absorbs:
  assumes h: "md5_holds m M" and n: "length input + 64 < 2 ^ 32"
  obtains m' where "MD5_update m input (word_of_nat (length input)) = Some m'"
    and "md5_holds m' (M @ input)" and "finalized m' = finalized m" and "digest m' = digest m"
proof (cases "length M mod 64 + length input < 64")
  case True
  have "(length M + length input) mod 64 = length M mod 64 + length input"
    using True by (metis mod_add_left_eq mod_less)
  then have "md5_holds (m\<lparr>count_lo := word_of_nat (8 * (length M + length input)),
            count_hi := word_of_nat (8 * (length M + length input) div 2 ^ 32),
            buffer := rest M @ input @ drop (length M mod 64 + length input) (buffer m)\<rparr>) (M @ input)"
    using h True rest_append_small [OF True] compress_all_append_small [OF True]
    by (simp add: md5_holds_def)
  then show ?thesis by (rule that [OF MD5_update_small [OF h True]]) simp_all
next
  case False
  then have big: "64 - length M mod 64 \<le> length input" by simp
  from MD5_update_big [OF h big n] obtain b where b: "length b = 64"
    "take (length (M @ input) mod 64) b = rest (M @ input)"
    and upd: "MD5_update m input (word_of_nat (length input)) =
    Some (m\<lparr>count_lo := word_of_nat (8 * (length M + length input)),
            count_hi := word_of_nat (8 * (length M + length input) div 2 ^ 32),
            state := compress_all (state m) (rest M @ input), buffer := b\<rparr>)" by blast
  have "compress_all md5_iv (M @ input) = compress_all (compress_all md5_iv M) (rest M @ input)"
    by (metis append.assoc compress_all_append compress_all_whole dvd_triv_left length_whole whole_rest)
  with h b have "md5_holds (m\<lparr>count_lo := word_of_nat (8 * (length M + length input)),
            count_hi := word_of_nat (8 * (length M + length input) div 2 ^ 32),
            state := compress_all (state m) (rest M @ input), buffer := b\<rparr>) (M @ input)"
    by (simp add: md5_holds_def)
  then show ?thesis by (rule that [OF upd]) simp_all
qed

text \<open>Bytes behind the given length are not looked at.\<close>

lemma MD5_update_loop_extend:
  assumes "MD5_update_loop m input len i = Some r"
  shows "MD5_update_loop m (input @ zs) len i = Some r"
proof (rule MD5_update_loop.raw_induct
    [where P = "\<lambda>m input len i r. MD5_update_loop m (input @ zs) len i = Some r", OF _ assms])
  fix f m input len i r
  assume IH: "\<And>m input len i r. f m input len i = Some r \<Longrightarrow>
      MD5_update_loop m (input @ zs) len i = Some r"
    and eq: "(if i + 64 \<le> len then
        (if unat i + 64 \<le> length input
         then f (MD5_transform m (take 64 (drop (unat i) input))) input len (i + 64) else None)
      else Some (m, i)) = Some r"
  show "MD5_update_loop m (input @ zs) len i = Some r"
  proof (cases "i + 64 \<le> len")
    case True
    with eq have "unat i + 64 \<le> length input"
      and "f (MD5_transform m (take 64 (drop (unat i) input))) input len (i + 64) = Some r"
      by (auto split: if_splits)
    then show ?thesis using True IH by (subst MD5_update_loop.simps) simp
  next
    case False
    with eq show ?thesis by (subst MD5_update_loop.simps) simp
  qed
qed

lemma memcpy_extend: "memcpy d di s si n = Some d' \<Longrightarrow> memcpy d di (s @ zs) si n = Some d'"
  by (auto simp: memcpy_def split: if_splits)

lemma MD5_update_extend:
  "MD5_update m input len = Some m' \<Longrightarrow> MD5_update m (input @ zs) len = Some m'"
  unfolding MD5_update_def Let_def
  by (auto simp: bind_eq_Some_conv MD5_update_loop_extend memcpy_extend split: if_splits)

section \<open>Padding and the digest\<close>

definition le64 :: "nat \<Rightarrow> byte list" where
  "le64 n = MD5_encode [word_of_nat n, word_of_nat (n div 2 ^ 32)]"

definition rfc_pad :: "nat \<Rightarrow> byte list" where
  "rfc_pad L = 0x80 # replicate (if L mod 64 < 56 then 55 - L mod 64 else 119 - L mod 64) 0 @ le64 (8 * L)"

text \<open>RFC 1321: pad the message to whole blocks, fold the block function, print the words.\<close>

definition rfc_md5 :: "byte list \<Rightarrow> byte list" where
  "rfc_md5 M =
     (case compress_all md5_iv (M @ rfc_pad (length M)) of (a, b, c, d) \<Rightarrow> MD5_encode [a, b, c, d])"

lemma rfc_pad_whole: "64 dvd length (M @ rfc_pad (length M))"
proof -
  define r q where "r = length M mod 64" and "q = length M div 64"
  have "length M = 64 * q + r" "r < 64" by (simp_all add: r_def q_def)
  then have "length (M @ rfc_pad (length M)) = 64 * (if r < 56 then q + 1 else q + 2)"
    by (simp add: rfc_pad_def le64_def r_def [symmetric])
  then show ?thesis by simp
qed

lemma take_padding: "0 < n \<Longrightarrow> n \<le> 64 \<Longrightarrow> take n padding = 0x80 # replicate (n - 1) 0"
  by (cases n) (auto simp: padding_def min_def)

text \<open>
  Finishing an object that holds \<open>M\<close> leaves the RFC digest of \<open>M\<close> in it. Nothing bounds the
  length of \<open>M\<close>: the bit counter wraps modulo \<open>2 ^ 64\<close> on both sides.
\<close>

lemma MD5_finalize_digest:
  assumes h: "md5_holds m M" and "\<not> finalized m"
  obtains m' where "MD5_finalize m = Some m'" and "finalized m'" and "digest m' = rfc_md5 M"
proof -
  let ?r = "length M mod 64"
  let ?n = "if ?r < 56 then 56 - ?r else 120 - ?r"
  have r: "?r < 64" by simp
  have idx: "count_lo m div 8 mod 64 = word_of_nat ?r"
    using h by (intro index_word) (simp add: md5_holds_def)
  have lt: "word_of_nat ?r < (56 :: u32) \<longleftrightarrow> ?r < 56"
    using r by (simp add: word_less_nat_alt unat_of_nat)
  have len: "(if word_of_nat ?r < (56 :: u32) then 56 - word_of_nat ?r else 120 - word_of_nat ?r :: u32)
      = word_of_nat ?n"
    using word_of_nat_diff [of ?r 56] word_of_nat_diff [of ?r 120] r by (simp add: lt)
  have bits: "MD5_encode [count_lo m, count_hi m] = le64 (8 * length M)"
    using h by (simp add: md5_holds_def le64_def)
  have n: "0 < ?n" "?n \<le> 64" using r by auto
  let ?p = "take ?n padding"
  have lp: "length ?p = ?n" using n by (simp add: padding_def)
  from MD5_update_absorbs [OF h, of ?p] lp n obtain m1 where
    m1: "MD5_update m ?p (word_of_nat ?n) = Some m1" "md5_holds m1 (M @ ?p)"
    by (auto simp del: length_take)
  have u1: "MD5_update m padding (word_of_nat ?n) = Some m1"
    using MD5_update_extend [OF m1(1), of "drop ?n padding"] by (simp only: append_take_drop_id)
  have l8: "length (le64 k) = 8" for k by (simp add: le64_def)
  from MD5_update_absorbs [OF m1(2), of "le64 (8 * length M)"] obtain m2 where
    m2: "MD5_update m1 (le64 (8 * length M)) 8 = Some m2" "md5_holds m2 ((M @ ?p) @ le64 (8 * length M))"
    by (auto simp: l8)
  have "?p @ le64 (8 * length M) = rfc_pad (length M)"
    using r by (auto simp: rfc_pad_def take_padding [OF n])
  then have st: "state m2 = compress_all md5_iv (M @ rfc_pad (length M))"
    using m2(2) by (simp add: md5_holds_def)
  obtain a b c d where s: "state m2 = (a, b, c, d)" by (cases "state m2")
  have "MD5_finalize m = Some (m2\<lparr>digest := MD5_encode [a, b, c, d], buffer := replicate 64 0,
      count_lo := 0, count_hi := 0, finalized := True\<rparr>)"
    unfolding MD5_finalize_def Let_def idx len bits
    using assms(2) u1 m2(1) by (simp add: s)
  then show ?thesis by (rule that) (use s st in \<open>simp_all add: rfc_md5_def\<close>)
qed

section \<open>Feeding a message in pieces\<close>

fun MD5_feed :: "MD5 \<Rightarrow> byte list list \<Rightarrow> MD5 option" where
  "MD5_feed m [] = Some m"
| "MD5_feed m (p # ps) = do {
     m \<leftarrow> MD5_update m p (word_of_nat (length p));
     MD5_feed m ps
   }"

lemma MD5_feed_absorbs:
  assumes "md5_holds m M" and "\<forall>p \<in> set ps. length p + 64 < 2 ^ 32"
  obtains m' where "MD5_feed m ps = Some m'" and "md5_holds m' (M @ concat ps)"
    and "finalized m' = finalized m"
  using assms
proof (induction ps arbitrary: m M thesis)
  case Nil
  then show ?case by simp
next
  case (Cons p ps)
  from Cons.prems obtain m1 where m1: "MD5_update m p (word_of_nat (length p)) = Some m1"
    "md5_holds m1 (M @ p)" "finalized m1 = finalized m"
    by (auto intro: MD5_update_absorbs)
  from Cons.prems(3) obtain m2 where "MD5_feed m1 ps = Some m2"
    "md5_holds m2 ((M @ p) @ concat ps)" "finalized m2 = finalized m1"
    using Cons.IH [OF _ m1(2)] by auto
  with m1 show ?case by (intro Cons.prems(1) [of m2]) auto
qed

text \<open>
  C1. The digest does not depend on how the message was cut into calls of \<open>update\<close>: for any
  pieces (each shorter than \<open>2 ^ 32 - 64\<close> bytes) the object ends with the RFC 1321 digest of their
  concatenation, no call reads or writes outside its arrays, and \<open>finalize\<close> succeeds.
\<close>

theorem MD5_pieces_digest:
  assumes "length (buffer raw) = 64" and "\<forall>p \<in> set ps. length p + 64 < 2 ^ 32"
  shows "\<exists>m. Option.bind (MD5_feed (MD5_init raw) ps) MD5_finalize = Some m \<and>
             finalized m \<and> digest m = rfc_md5 (concat ps)"
proof -
  from MD5_feed_absorbs [OF MD5_init_holds [OF assms(1)] assms(2)] obtain m' where
    "MD5_feed (MD5_init raw) ps = Some m'" "md5_holds m' (concat ps)"
    "finalized m' = finalized (MD5_init raw)" by auto
  moreover from this obtain m where "MD5_finalize m' = Some m" "finalized m" "digest m = rfc_md5 (concat ps)"
    using MD5_finalize_digest [of m' "concat ps"] by (auto simp: MD5_init_def)
  ultimately show ?thesis by auto
qed

definition md5_raw :: MD5 where
  "md5_raw = \<lparr>finalized = True, buffer = replicate 64 7, count_lo = 1, count_hi = 2,
     state = (3, 4, 5, 6), digest = []\<rparr>"

theorem MD5_pieces_digest_witness:
  "\<exists>m. Option.bind (MD5_feed (MD5_init md5_raw) [[0x61, 0x62], [], replicate 70 0x63]) MD5_finalize = Some m \<and>
     finalized m \<and> digest m = rfc_md5 ([0x61, 0x62] @ replicate 70 0x63)"
proof -
  have "\<forall>p \<in> set [[0x61, 0x62], [], replicate 70 (0x63 :: byte)]. length p + 64 < 2 ^ 32" by simp
  from MD5_pieces_digest [OF _ this, of md5_raw] show ?thesis by (simp add: md5_raw_def)
qed

section \<open>The string constructor\<close>

definition hex_of :: "byte list \<Rightarrow> string" where
  "hex_of bs = concat (map (\<lambda>b. [hex_digit (drop_bit 4 b), hex_digit (b AND 0xF)]) bs)"

lemma length_compress_words [simp]: "length (rfc_md5 M) = 16"
  by (simp add: rfc_md5_def split: prod.split)

lemma length_hex_of [simp]: "length (hex_of bs) = 2 * length bs"
  by (induction bs) (auto simp: hex_of_def)

text \<open>
  \<open>md5(str)\<close> is the lower-case hexadecimal RFC digest of the first
  \<open>length str mod 2 ^ 32\<close> bytes: the length is narrowed to 32 bits, so beyond 4 GiB it is the
  digest of a prefix only.
\<close>

theorem md5_of_string:
  assumes "length (buffer raw) = 64" and "length str mod 2 ^ 32 + 64 < 2 ^ 32"
  shows "md5 raw str = Some (hex_of (rfc_md5 (take (length str mod 2 ^ 32) str)))"
proof -
  let ?n = "length str mod 2 ^ 32"
  let ?p = "take ?n str"
  have n: "?n \<le> length str" by simp
  then have lp: "length ?p = ?n" by simp
  have w: "(word_of_nat (length str) :: u32) = word_of_nat ?n"
    by (simp add: word_unat_eq_iff unat_of_nat)
  from MD5_update_absorbs [OF MD5_init_holds [OF assms(1)], of ?p] obtain m1 where
    m1: "MD5_update (MD5_init raw) ?p (word_of_nat ?n) = Some m1" "md5_holds m1 ?p"
    "finalized m1 = finalized (MD5_init raw)"
    unfolding lp using assms(2) by auto
  from MD5_finalize_digest [OF m1(2)] obtain m2 where
    m2: "MD5_finalize m1 = Some m2" "finalized m2" "digest m2 = rfc_md5 ?p"
    using m1(3) by (auto simp: MD5_init_def)
  have "MD5_update (MD5_init raw) str (word_of_nat ?n) = Some m1"
    using MD5_update_extend [OF m1(1), of "drop ?n str"] by (simp only: append_take_drop_id)
  then show ?thesis
    unfolding md5_def MD5_of_string_def w using m2 by (simp add: MD5_hexdigest_def hex_of_def)
qed

theorem md5_of_string_witness:
  "md5 md5_raw [0x61, 0x62, 0x63] = Some (hex_of (rfc_md5 [0x61, 0x62, 0x63]))"
  using md5_of_string [of md5_raw "[0x61, 0x62, 0x63]"] by (simp add: md5_raw_def)

text \<open>
  Where \<open>i + blocksize\<close> wraps: with an empty buffer the guard still holds when the last whole
  block ends exactly at \<open>2 ^ 32\<close>, and that block lies past the end of the input.
\<close>

lemma MD5_update_loop_wraps:
  assumes "2 ^ 32 - 64 \<le> length input" and "length input < 2 ^ 32" and "64 * j \<le> 2 ^ 32 - 64"
  shows "MD5_update_loop m input (word_of_nat (length input)) (word_of_nat (64 * j)) = None"
  using assms(3)
proof (induction "2 ^ 32 - 64 * j" arbitrary: j m rule: less_induct)
  case less
  have uk: "unat (word_of_nat (64 * j) :: u32) = 64 * j"
    using less.prems by (intro unat_word_of_nat) auto
  have wk: "word_of_nat (64 * j) + 64 = (word_of_nat (64 * Suc j) :: u32)" by simp
  show ?case
  proof (cases "64 * Suc j < 2 ^ 32")
    case True
    then have "64 * Suc j \<le> 2 ^ 32 - 64" by simp
    then have "MD5_update_loop m' input (word_of_nat (length input)) (word_of_nat (64 * Suc j)) = None" for m'
      using True by (intro less.hyps) auto
    moreover have "(word_of_nat (64 * Suc j) :: u32) \<le> word_of_nat (length input)"
      using True assms(1,2) by (intro word_of_nat_le [THEN iffD2]) auto
    ultimately show ?thesis by (subst MD5_update_loop.simps) (simp only: wk, simp)
  next
    case False
    then have j: "64 * Suc j = 2 ^ 32" using less.prems by simp
    then have z: "(word_of_nat (64 * Suc j) :: u32) = 0"
      by (simp only: j) (simp add: word_unat_eq_iff)
    have "\<not> 64 * j + 64 \<le> length input" using j assms(2) by simp
    then show ?thesis by (subst MD5_update_loop.simps) (simp only: wk uk z, simp)
  qed
qed

text \<open>
  The constructor reads past the end of its argument for every string whose length is within
  64 bytes below \<open>2 ^ 32\<close>: the 32-bit sum in the loop guard wraps to a small number.
\<close>

theorem md5_overreads_near_4GiB:
  assumes "length (buffer raw) = 64" and "2 ^ 32 - 64 \<le> length str" and "length str < 2 ^ 32"
  shows "md5 raw str = None"
proof -
  let ?m = "MD5_init raw"
  have idx: "count_lo ?m div 8 mod 64 = 0" by (simp add: MD5_init_def)
  have g: "(64 :: u32) \<le> word_of_nat (length str)"
    using assms by (simp add: word_le_nat_alt unat_of_nat)
  have "MD5_update_loop m str (word_of_nat (length str)) 64 = None" for m
    using MD5_update_loop_wraps [of str 1 m] assms by simp
  then have "MD5_update ?m str (word_of_nat (length str)) = None"
    unfolding MD5_update_def Let_def idx by (simp add: g bind_eq_None_conv)
  then show ?thesis by (simp add: md5_def MD5_of_string_def)
qed

theorem md5_overreads_near_4GiB_witness:
  "md5 md5_raw (replicate 4294967232 0x61) = None"
  by (rule md5_overreads_near_4GiB) (simp_all add: md5_raw_def)

lemma MD5_update_loop_keeps:
  assumes "MD5_update_loop m input len i = Some r"
  shows "finalized (fst r) = finalized m \<and> digest (fst r) = digest m"
proof (rule MD5_update_loop.raw_induct
    [where P = "\<lambda>m input len i r. finalized (fst r) = finalized m \<and> digest (fst r) = digest m", OF _ assms])
  fix f m input len i r
  assume IH: "\<And>m input len i r. f m input len i = Some r \<Longrightarrow>
      finalized (fst r) = finalized m \<and> digest (fst r) = digest m"
    and eq: "(if i + 64 \<le> len then
        (if unat i + 64 \<le> length input
         then f (MD5_transform m (take 64 (drop (unat i) input))) input len (i + 64) else None)
      else Some (m, i)) = Some r"
  then show "finalized (fst r) = finalized m \<and> digest (fst r) = digest m"
    by (fastforce simp: MD5_transform_def split: if_splits)
qed

lemma MD5_update_keeps:
  "MD5_update m input len = Some m' \<Longrightarrow> finalized m' = finalized m \<and> digest m' = digest m"
  unfolding MD5_update_def Let_def
  by (auto simp: bind_eq_Some_conv MD5_count_def Let_def MD5_transform_def
      dest!: MD5_update_loop_keeps split: if_splits)

text \<open>
  A finalized object is sealed: further calls of \<open>update\<close> and \<open>finalize\<close> leave the printed
  digest as it was, and before finalization nothing is printed.
\<close>

theorem MD5_sealed:
  assumes "finalized m" and "MD5_update m input len = Some m'"
  shows "MD5_finalize m' = Some m' \<and> MD5_hexdigest m' = MD5_hexdigest m"
  using MD5_update_keeps [OF assms(2)] assms(1) by (simp add: MD5_finalize_def MD5_hexdigest_def)

theorem MD5_sealed_witness:
  "\<exists>m'. MD5_update md5_raw [0x61] 1 = Some m' \<and> MD5_finalize m' = Some m' \<and>
     MD5_hexdigest m' = MD5_hexdigest md5_raw"
proof -
  have "MD5_update md5_raw [0x61] 1 \<noteq> None"
    by (simp add: MD5_update_def md5_raw_def MD5_count_def memcpy_def Let_def word_le_nat_alt)
  then obtain m' where m': "MD5_update md5_raw [0x61] 1 = Some m'" by blast
  have "finalized md5_raw" by (simp add: md5_raw_def)
  from MD5_sealed [OF this m'] m' show ?thesis by blast
qed

end
