(* ===== verification/Sliding_Window.thy ===== *)
theory Sliding_Window
  imports Prelude
begin

text \<open>
  \<open>SlidingWindow\<close>, its cleanup policy and \<open>SlidingWindowMgr\<close> (MLCommon/inc/Tools). The deque is
  a list, the iterator \<open>nextReadElement\<close> the number of elements before it: \<open>push_back\<close> leaves
  that number alone and \<open>pop_front\<close> lowers it by one. A mutex guards every call, so calls are
  atomic and a history is a sequence of them. The policy is a template parameter of the class,
  so \<open>cleanup\<close> is an argument of the operations that call it; what the class needs from it is
  the locale \<open>cleanup_policy\<close>.
\<close>

section \<open>The window\<close>

definition SlidingWindowContainer_pack :: "'m \<Rightarrow> 'd \<Rightarrow> 'm \<times> 'd" where
  "SlidingWindowContainer_pack meta data = (meta, data)"

record ('m, 'd, 'p) SlidingWindow =
  storage :: "('m \<times> 'd) list"
  nextReadElement :: nat
  cleanupPolicy :: 'p

type_synonym ('m, 'd, 'p) cleanup_fun = "'p \<Rightarrow> ('m \<times> 'd) list \<Rightarrow> nat \<Rightarrow> ('m \<times> 'd) list \<times> nat"

definition SlidingWindow_new :: "'p \<Rightarrow> ('m, 'd, 'p) SlidingWindow" where
  "SlidingWindow_new policy = \<lparr>storage = [], nextReadElement = 0, cleanupPolicy = policy\<rparr>"

definition SlidingWindow_AddData ::
  "('m, 'd, 'p) cleanup_fun \<Rightarrow> 'm \<Rightarrow> 'd \<Rightarrow> ('m, 'd, 'p) SlidingWindow \<Rightarrow> ('m, 'd, 'p) SlidingWindow" where
  "SlidingWindow_AddData cleanup meta data w =
     (let st = storage w @ [SlidingWindowContainer_pack meta data];
          nxt = (if nextReadElement w = length st then 0 else nextReadElement w);
          (st, nxt) = cleanup (cleanupPolicy w) st nxt
      in w\<lparr>storage := st, nextReadElement := nxt\<rparr>)"

definition SlidingWindow_HasNextData :: "('m, 'd, 'p) SlidingWindow \<Rightarrow> bool" where
  "SlidingWindow_HasNextData w \<longleftrightarrow> nextReadElement w \<noteq> length (storage w)"

definition SlidingWindow_GetNextData ::
  "('m, 'd, 'p) cleanup_fun \<Rightarrow> ('m, 'd, 'p) SlidingWindow \<Rightarrow> ('m \<times> 'd) option \<times> ('m, 'd, 'p) SlidingWindow" where
  "SlidingWindow_GetNextData cleanup w =
     (if nextReadElement w \<noteq> length (storage w) then
        (let result = storage w ! nextReadElement w;
             (st, nxt) = cleanup (cleanupPolicy w) (storage w) (nextReadElement w + 1)
         in (Some result, w\<lparr>storage := st, nextReadElement := nxt\<rparr>))
      else (None, w))"

definition SlidingWindow_accessStorage :: "(('m \<times> 'd) list \<Rightarrow> 'r) \<Rightarrow> ('m, 'd, 'p) SlidingWindow \<Rightarrow> 'r" where
  "SlidingWindow_accessStorage visitor w = visitor (storage w)"

text \<open>\<open>getCleanupPolicy\<close> hands out a reference, so a caller may change the policy.\<close>

definition SlidingWindow_getCleanupPolicy :: "('p \<Rightarrow> 'p) \<Rightarrow> ('m, 'd, 'p) SlidingWindow \<Rightarrow> ('m, 'd, 'p) SlidingWindow" where
  "SlidingWindow_getCleanupPolicy change w = w\<lparr>cleanupPolicy := change (cleanupPolicy w)\<rparr>"

text \<open>
  Moving a deque and exchanging two keeps the iterators to elements but not the one behind the last:
  a window that is read to its end has no defined successor, a result \<open>None\<close>. What is left of the
  source of a move construction points into the new window and is not used again.
\<close>

definition SlidingWindow_move ::
  "('p \<Rightarrow> 'p \<times> 'p) \<Rightarrow> ('m, 'd, 'p) SlidingWindow \<Rightarrow> ('m, 'd, 'p) SlidingWindow option" where
  "SlidingWindow_move move_policy other =
     (if nextReadElement other = length (storage other) then None
      else Some \<lparr>storage = storage other, nextReadElement = nextReadElement other,
                 cleanupPolicy = fst (move_policy (cleanupPolicy other))\<rparr>)"

definition SlidingWindow_move_assign ::
  "('p \<Rightarrow> 'p \<times> 'p) \<Rightarrow> ('p \<Rightarrow> 'p \<Rightarrow> 'p \<times> 'p) \<Rightarrow> ('m, 'd, 'p) SlidingWindow \<Rightarrow> ('m, 'd, 'p) SlidingWindow \<Rightarrow>
     (('m, 'd, 'p) SlidingWindow \<times> ('m, 'd, 'p) SlidingWindow) option" where
  "SlidingWindow_move_assign move_policy assign_policy this other =
     (if nextReadElement other = length (storage other) \<or> nextReadElement this = length (storage this) then None
      else let (q, p) = std_swap move_policy assign_policy (cleanupPolicy other) (cleanupPolicy this)
        in Some (\<lparr>storage = storage other, nextReadElement = nextReadElement other, cleanupPolicy = p\<rparr>,
                 \<lparr>storage = storage this, nextReadElement = nextReadElement this, cleanupPolicy = q\<rparr>))"

section \<open>The policy that bounds the history\<close>

record MaxHistoryCleanupPolicy =
  historyDepth :: nat

fun MaxHistory_cleanup_loop :: "nat \<Rightarrow> 'a list \<Rightarrow> nat \<Rightarrow> 'a list \<times> nat" where
  "MaxHistory_cleanup_loop depth st nxt =
     (if depth < nxt then MaxHistory_cleanup_loop depth (tl st) (nxt - 1) else (st, nxt))"

declare MaxHistory_cleanup_loop.simps [simp del]

definition MaxHistory_cleanup :: "MaxHistoryCleanupPolicy \<Rightarrow> 'a list \<Rightarrow> nat \<Rightarrow> 'a list \<times> nat" where
  "MaxHistory_cleanup p st nxt = MaxHistory_cleanup_loop (historyDepth p) st nxt"

definition MaxHistory_setHistoryDepth :: "nat \<Rightarrow> MaxHistoryCleanupPolicy \<Rightarrow> MaxHistoryCleanupPolicy" where
  "MaxHistory_setHistoryDepth depth p = p\<lparr>historyDepth := depth\<rparr>"

definition MaxHistory_getHistoryDepth :: "MaxHistoryCleanupPolicy \<Rightarrow> nat" where
  "MaxHistory_getHistoryDepth p = historyDepth p"

text \<open>Copies and moves: the move constructor leaves its source alone, the move assignment exchanges.\<close>

definition MaxHistory_copy :: "MaxHistoryCleanupPolicy \<Rightarrow> MaxHistoryCleanupPolicy" where
  "MaxHistory_copy other = \<lparr>historyDepth = historyDepth other\<rparr>"

definition MaxHistory_move :: "MaxHistoryCleanupPolicy \<Rightarrow> MaxHistoryCleanupPolicy \<times> MaxHistoryCleanupPolicy" where
  "MaxHistory_move other = (\<lparr>historyDepth = historyDepth other\<rparr>, other)"

definition MaxHistory_assign :: "MaxHistoryCleanupPolicy \<Rightarrow> MaxHistoryCleanupPolicy \<Rightarrow> MaxHistoryCleanupPolicy" where
  "MaxHistory_assign this other = this\<lparr>historyDepth := historyDepth other\<rparr>"

definition MaxHistory_move_assign ::
  "MaxHistoryCleanupPolicy \<Rightarrow> MaxHistoryCleanupPolicy \<Rightarrow> MaxHistoryCleanupPolicy \<times> MaxHistoryCleanupPolicy" where
  "MaxHistory_move_assign this other = (this\<lparr>historyDepth := historyDepth other\<rparr>, other\<lparr>historyDepth := historyDepth this\<rparr>)"

lemma MaxHistory_swap: "std_swap MaxHistory_move MaxHistory_move_assign p q = (q, p)"
  by (simp add: std_swap_def MaxHistory_move_def MaxHistory_move_assign_def)

lemma MaxHistory_cleanup_loop_eq:
  "MaxHistory_cleanup_loop depth st nxt = (drop (nxt - depth) st, min nxt depth)"
proof (induction depth st nxt rule: MaxHistory_cleanup_loop.induct)
  case (1 depth st nxt)
  show ?case
  proof (cases "depth < nxt")
    case True
    then have "drop (nxt - depth) st = drop (nxt - 1 - depth) (tl st)"
      by (simp add: drop_Suc [symmetric] Suc_diff_Suc)
    with "1" True show ?thesis by (subst MaxHistory_cleanup_loop.simps) auto
  next
    case False
    then show ?thesis by (subst MaxHistory_cleanup_loop.simps) auto
  qed
qed

section \<open>What a window needs from its policy\<close>

text \<open>Histories of calls, and the answers they give.\<close>

datatype ('m, 'd) window_call = Add 'm 'd | Get

fun window_run ::
  "('m, 'd, 'p) cleanup_fun \<Rightarrow> ('m, 'd) window_call list \<Rightarrow> ('m, 'd, 'p) SlidingWindow
     \<Rightarrow> ('m \<times> 'd) option list \<times> ('m, 'd, 'p) SlidingWindow" where
  "window_run cleanup [] w = ([], w)"
| "window_run cleanup (Add m d # cs) w = window_run cleanup cs (SlidingWindow_AddData cleanup m d w)"
| "window_run cleanup (Get # cs) w =
     (case SlidingWindow_GetNextData cleanup w of (r, w) \<Rightarrow>
      case window_run cleanup cs w of (rs, w) \<Rightarrow> (r # rs, w))"

text \<open>The contract: an unbounded first-in first-out queue.\<close>

fun fifo_run :: "('m, 'd) window_call list \<Rightarrow> ('m \<times> 'd) list \<Rightarrow> ('m \<times> 'd) option list \<times> ('m \<times> 'd) list" where
  "fifo_run [] q = ([], q)"
| "fifo_run (Add m d # cs) q = fifo_run cs (q @ [(m, d)])"
| "fifo_run (Get # cs) [] = (case fifo_run cs [] of (rs, q) \<Rightarrow> (None # rs, q))"
| "fifo_run (Get # cs) (x # q) = (case fifo_run cs q of (rs, q) \<Rightarrow> (Some x # rs, q))"

definition window_inv :: "('m, 'd, 'p) SlidingWindow \<Rightarrow> bool" where
  "window_inv w \<longleftrightarrow> nextReadElement w \<le> length (storage w)"

definition unread :: "('m, 'd, 'p) SlidingWindow \<Rightarrow> ('m \<times> 'd) list" where
  "unread w = drop (nextReadElement w) (storage w)"

text \<open>A policy may only drop, from the front, elements that were read.\<close>

locale cleanup_policy =
  fixes cleanup :: "('m, 'd, 'p) cleanup_fun"
  assumes cleanup_drops_read: "nxt \<le> length st \<Longrightarrow>
    \<exists>k \<le> nxt. cleanup p st nxt = (drop k st, nxt - k)"
begin

lemma inv_new: "window_inv (SlidingWindow_new p) \<and> unread (SlidingWindow_new p) = []"
  by (simp add: window_inv_def unread_def SlidingWindow_new_def)

lemma AddData_queues:
  assumes "window_inv w"
  shows "window_inv (SlidingWindow_AddData cleanup m d w) \<and>
         unread (SlidingWindow_AddData cleanup m d w) = unread w @ [(m, d)]"
proof -
  let ?st = "storage w @ [(m, d)]" and ?n = "nextReadElement w"
  have n: "?n \<le> length (storage w)" using assms by (simp add: window_inv_def)
  then obtain k where "k \<le> ?n" "cleanup (cleanupPolicy w) ?st ?n = (drop k ?st, ?n - k)"
    using cleanup_drops_read [of ?n ?st "cleanupPolicy w"] by auto
  with n show ?thesis
    by (simp add: SlidingWindow_AddData_def SlidingWindowContainer_pack_def window_inv_def unread_def)
qed

lemma GetNextData_dequeues:
  assumes "window_inv w"
  shows "case SlidingWindow_GetNextData cleanup w of (r, w') \<Rightarrow>
    window_inv w' \<and> (case unread w of [] \<Rightarrow> r = None \<and> w' = w | x # q \<Rightarrow> r = Some x \<and> unread w' = q)"
proof (cases "nextReadElement w = length (storage w)")
  case True
  with assms show ?thesis by (simp add: SlidingWindow_GetNextData_def unread_def)
next
  case False
  let ?n = "nextReadElement w"
  have n: "?n < length (storage w)" using assms False by (simp add: window_inv_def)
  then obtain k where k: "k \<le> ?n + 1"
    "cleanup (cleanupPolicy w) (storage w) (?n + 1) = (drop k (storage w), ?n + 1 - k)"
    using cleanup_drops_read [of "?n + 1" "storage w" "cleanupPolicy w"] by auto
  have "unread w = storage w ! ?n # drop (Suc ?n) (storage w)"
    using n by (simp add: unread_def Cons_nth_drop_Suc)
  with n k False show ?thesis
    by (simp add: SlidingWindow_GetNextData_def window_inv_def unread_def)
qed

lemma HasNextData_iff: "SlidingWindow_HasNextData w \<longleftrightarrow> unread w \<noteq> []" if "window_inv w"
  using that by (auto simp: SlidingWindow_HasNextData_def unread_def window_inv_def)

lemma run_refines_fifo:
  "window_inv w \<Longrightarrow>
   (case window_run cleanup cs w of (rs, w') \<Rightarrow> window_inv w' \<and> fifo_run cs (unread w) = (rs, unread w'))"
proof (induction cs arbitrary: w)
  case Nil
  then show ?case by simp
next
  case (Cons c cs)
  show ?case
  proof (cases c)
    case (Add m d)
    from Cons.IH [of "SlidingWindow_AddData cleanup m d w"] AddData_queues [OF Cons.prems, of m d]
    show ?thesis by (simp add: Add)
  next
    case Get
    obtain r w1 where w1: "SlidingWindow_GetNextData cleanup w = (r, w1)" by fastforce
    obtain rs w2 where w2: "window_run cleanup cs w1 = (rs, w2)" by fastforce
    from GetNextData_dequeues [OF Cons.prems] have "window_inv w1"
      and "case unread w of [] \<Rightarrow> r = None \<and> w1 = w | x # q \<Rightarrow> r = Some x \<and> unread w1 = q"
      by (simp_all add: w1)
    with Cons.IH [of w1] w2 show ?thesis
      by (cases "unread w") (auto simp: Get w1)
  qed
qed

end

interpretation max_history: cleanup_policy MaxHistory_cleanup
proof unfold_locales
  fix nxt and st :: "('m \<times> 'd) list" and p :: MaxHistoryCleanupPolicy
  assume "nxt \<le> length st"
  then show "\<exists>k \<le> nxt. MaxHistory_cleanup p st nxt = (drop k st, nxt - k)"
    by (intro exI [of _ "nxt - historyDepth p"])
       (auto simp: MaxHistory_cleanup_def MaxHistory_cleanup_loop_eq)
qed

section \<open>The bounded-history window\<close>


text \<open>
  Moving. A window with unread data moves with all its contents, and assigning one to another exchanges
  them, so a history goes on as if it had not been moved; the move of a window that has nothing unread,
  and so of every new one, is not defined.
\<close>

theorem SlidingWindow_moves:
  fixes w v :: "('m, 'd, MaxHistoryCleanupPolicy) SlidingWindow"
  assumes "window_inv w" "window_inv v"
  shows "SlidingWindow_move MaxHistory_move w = (if unread w = [] then None else Some w)"
    and "SlidingWindow_move_assign MaxHistory_move MaxHistory_move_assign v w =
           (if unread w = [] \<or> unread v = [] then None else Some (w, v))"
    and "SlidingWindow_move MaxHistory_move (SlidingWindow_new p :: ('m, 'd, MaxHistoryCleanupPolicy) SlidingWindow) = None"
  using assms
  by (auto simp: SlidingWindow_move_def SlidingWindow_move_assign_def MaxHistory_swap MaxHistory_move_def
      window_inv_def unread_def SlidingWindow_new_def)

text \<open>What a window retains: all it was given, less the readings older than the depth.\<close>

fun call_adds :: "('m, 'd) window_call list \<Rightarrow> ('m \<times> 'd) list" where
  "call_adds [] = []"
| "call_adds (Add m d # cs) = (m, d) # call_adds cs"
| "call_adds (Get # cs) = call_adds cs"

definition retains :: "nat \<Rightarrow> ('m \<times> 'd) list \<Rightarrow> nat \<Rightarrow> ('m, 'd, MaxHistoryCleanupPolicy) SlidingWindow \<Rightarrow> bool" where
  "retains depth given reads w \<longleftrightarrow>
     reads \<le> length given \<and> historyDepth (cleanupPolicy w) = depth \<and>
     storage w = drop (reads - depth) given \<and> nextReadElement w = min reads depth"

lemma retains_AddData:
  assumes "retains depth given reads w"
  shows "retains depth (given @ [(m, d)]) reads (SlidingWindow_AddData MaxHistory_cleanup m d w)"
  using assms
  by (auto simp: retains_def SlidingWindow_AddData_def SlidingWindowContainer_pack_def
      MaxHistory_cleanup_def MaxHistory_cleanup_loop_eq Let_def)

lemma retains_GetNextData:
  assumes "retains depth given reads w"
  shows "case SlidingWindow_GetNextData MaxHistory_cleanup w of (r, w') \<Rightarrow>
    (if reads < length given then r = Some (given ! reads) \<and> retains depth given (Suc reads) w'
     else r = None \<and> w' = w)"
proof -
  have len: "nextReadElement w = length (storage w) \<longleftrightarrow> reads = length given"
    using assms by (auto simp: retains_def)
  show ?thesis
  proof (cases "reads < length given")
    case True
    have "storage w ! nextReadElement w = given ! reads"
      using assms True by (auto simp: retains_def min_def)
    moreover have "drop (Suc (min reads depth) - depth) (drop (reads - depth) given) = drop (Suc reads - depth) given"
      by (simp add: min_def) (cases "reads \<le> depth"; simp add: Suc_diff_le)
    ultimately show ?thesis using assms True len
      by (auto simp: retains_def SlidingWindow_GetNextData_def MaxHistory_cleanup_def
          MaxHistory_cleanup_loop_eq Let_def)
  next
    case False
    then show ?thesis using assms len by (auto simp: SlidingWindow_GetNextData_def retains_def)
  qed
qed

lemma retains_run:
  "retains depth given reads w \<Longrightarrow>
   (case window_run MaxHistory_cleanup cs w of (rs, w') \<Rightarrow>
      \<exists>reads'. reads' = reads + length (filter (\<lambda>r. r \<noteq> None) rs) \<and>
        retains depth (given @ call_adds cs) reads' w')"
proof (induction cs arbitrary: w given reads)
  case Nil
  then show ?case by simp
next
  case (Cons c cs)
  show ?case
  proof (cases c)
    case (Add m d)
    from Cons.IH [OF retains_AddData [OF Cons.prems, of m d]] show ?thesis
      by (simp add: Add)
  next
    case Get
    obtain r w1 where w1: "SlidingWindow_GetNextData MaxHistory_cleanup w = (r, w1)" by fastforce
    from retains_GetNextData [OF Cons.prems] w1
    have "if reads < length given then r = Some (given ! reads) \<and> retains depth given (Suc reads) w1
      else r = None \<and> w1 = w" by simp
    then show ?thesis
      using Cons.IH [of given reads w1] Cons.IH [of given "Suc reads" w1] Cons.prems
      by (auto simp: Get w1 split: if_splits prod.splits)
  qed
qed

text \<open>
  The window never holds more than \<open>historyDepth\<close> readings that were already delivered: after
  any history its storage is everything that was added, less the oldest delivered readings beyond
  that number.
\<close>

theorem SlidingWindow_retention:
  "(case window_run MaxHistory_cleanup cs (SlidingWindow_new \<lparr>historyDepth = depth\<rparr>) of
      (rs, w) \<Rightarrow>
        storage w = drop (length (filter (\<lambda>r. r \<noteq> None) rs) - depth) (call_adds cs) \<and>
        nextReadElement w = min (length (filter (\<lambda>r. r \<noteq> None) rs)) depth)"
  using retains_run [of depth "[]" 0 "SlidingWindow_new \<lparr>historyDepth = depth\<rparr>" cs]
  by (auto simp: retains_def SlidingWindow_new_def)

section \<open>The manager of named windows\<close>

datatype window_error = RuntimeError string

type_synonym ('m, 'd) SlidingWindowMgr =
  "string \<rightharpoonup> ('m, 'd, MaxHistoryCleanupPolicy) SlidingWindow"

text \<open>
  \<open>emplace\<close> keeps the element that is already there. The new window is moved into the map while it is
  empty; the model takes the usual implementations, where the iterator behind the last element moves along.
\<close>

definition SlidingWindowMgr_addWindow :: "string \<Rightarrow> nat \<Rightarrow> ('m, 'd) SlidingWindowMgr \<Rightarrow> ('m, 'd) SlidingWindowMgr" where
  "SlidingWindowMgr_addWindow name windowSize mgr =
     (case mgr name of
        Some _ \<Rightarrow> mgr
      | None \<Rightarrow> mgr(name \<mapsto> SlidingWindow_new \<lparr>historyDepth = windowSize\<rparr>))"

definition SlidingWindowMgr_getWindow ::
  "string \<Rightarrow> ('m, 'd) SlidingWindowMgr \<Rightarrow> window_error + ('m, 'd, MaxHistoryCleanupPolicy) SlidingWindow" where
  "SlidingWindowMgr_getWindow name mgr =
     (case mgr name of
        None \<Rightarrow> Inl (RuntimeError (''No window with name: '' @ name))
      | Some w \<Rightarrow> Inr w)"

definition SlidingWindowMgr_addData ::
  "string \<Rightarrow> 'm \<Rightarrow> 'd \<Rightarrow> ('m, 'd) SlidingWindowMgr \<Rightarrow> window_error + ('m, 'd) SlidingWindowMgr" where
  "SlidingWindowMgr_addData name meta data mgr =
     (case mgr name of
        Some w \<Rightarrow> Inr (mgr(name \<mapsto> SlidingWindow_AddData MaxHistory_cleanup meta data w))
      | None \<Rightarrow> Inl (RuntimeError (''No window with name: '' @ name @ '' can't add data.'')))"

text \<open>A batch of readings for several sensors stops at the first unknown name, as the throw does.\<close>

fun SlidingWindowMgr_addAll ::
  "(string \<times> 'm \<times> 'd) list \<Rightarrow> ('m, 'd) SlidingWindowMgr \<Rightarrow> window_error + ('m, 'd) SlidingWindowMgr" where
  "SlidingWindowMgr_addAll [] mgr = Inr mgr"
| "SlidingWindowMgr_addAll ((name, m, d) # rest) mgr =
     (case SlidingWindowMgr_addData name m d mgr of
        Inl e \<Rightarrow> Inl e
      | Inr mgr \<Rightarrow> SlidingWindowMgr_addAll rest mgr)"

lemma addAll_unread:
  assumes "fst ` set batch \<subseteq> dom mgr" and "\<forall>n w. mgr n = Some w \<longrightarrow> window_inv w"
  shows "\<exists>mgr'. SlidingWindowMgr_addAll batch mgr = Inr mgr' \<and> dom mgr' = dom mgr \<and>
    (\<forall>n w. mgr n = Some w \<longrightarrow> (\<exists>w'. mgr' n = Some w' \<and> window_inv w' \<and>
       unread w' = unread w @ map snd (filter (\<lambda>x. fst x = n) batch)))"
  using assms
proof (induction batch arbitrary: mgr)
  case Nil
  then show ?case by auto
next
  case (Cons x batch)
  obtain name m d where x: "x = (name, m, d)" by (cases x) auto
  with Cons.prems obtain w where w: "mgr name = Some w" "window_inv w" by auto
  let ?w = "SlidingWindow_AddData MaxHistory_cleanup m d w"
  let ?mgr = "mgr(name \<mapsto> ?w)"
  have q: "window_inv ?w" "unread ?w = unread w @ [(m, d)]"
    using max_history.AddData_queues [OF w(2), of m d] by auto
  from Cons.prems q have "fst ` set batch \<subseteq> dom ?mgr" "\<forall>n w. ?mgr n = Some w \<longrightarrow> window_inv w" by auto
  from Cons.IH [OF this] obtain mgr' where mgr': "SlidingWindowMgr_addAll batch ?mgr = Inr mgr'"
    "dom mgr' = dom ?mgr"
    and each: "\<And>n v. ?mgr n = Some v \<Longrightarrow> \<exists>w'. mgr' n = Some w' \<and> window_inv w' \<and>
       unread w' = unread v @ map snd (filter (\<lambda>x. fst x = n) batch)" by blast
  have "\<exists>w'. mgr' n = Some w' \<and> window_inv w' \<and>
      unread w' = unread v @ map snd (filter (\<lambda>x. fst x = n) (x # batch))" if "mgr n = Some v" for n v
    using each [of n "if n = name then ?w else v"] that w q by (auto simp: x)
  moreover have "SlidingWindowMgr_addAll (x # batch) mgr = Inr mgr'"
    using mgr' w by (simp add: x SlidingWindowMgr_addData_def)
  moreover have "dom mgr' = dom mgr" using mgr' w by auto
  ultimately show ?case by blast
qed

text \<open>
  Readings for several named windows go to the window they name, in order, and to no other;
  with every name registered no call throws, and an unregistered name throws before anything of
  the later batch is stored.
\<close>

theorem SlidingWindowMgr_routes:
  assumes "fst ` set batch \<subseteq> dom mgr" and "\<forall>n w. mgr n = Some w \<longrightarrow> window_inv w"
    and "mgr name = Some w" and "stranger \<notin> dom mgr"
  shows "(\<exists>mgr' w'. SlidingWindowMgr_addAll batch mgr = Inr mgr' \<and> mgr' name = Some w' \<and>
            unread w' = unread w @ map snd (filter (\<lambda>x. fst x = name) batch)) \<and>
         SlidingWindowMgr_addAll (batch @ (stranger, m, d) # later) mgr =
           Inl (RuntimeError (''No window with name: '' @ stranger @ '' can't add data.''))"
proof -
  from addAll_unread [OF assms(1,2)] obtain mgr' where mgr': "SlidingWindowMgr_addAll batch mgr = Inr mgr'"
    "dom mgr' = dom mgr" and each: "\<forall>n w. mgr n = Some w \<longrightarrow> (\<exists>w'. mgr' n = Some w' \<and> window_inv w' \<and>
       unread w' = unread w @ map snd (filter (\<lambda>x. fst x = n) batch))" by blast
  have app: "SlidingWindowMgr_addAll (xs @ ys) g =
      (case SlidingWindowMgr_addAll xs g of Inl e \<Rightarrow> Inl e | Inr g \<Rightarrow> SlidingWindowMgr_addAll ys g)" for xs ys g
    by (induction xs arbitrary: g) (auto split: sum.splits)
  have "mgr' stranger = None" using mgr' assms(4) by auto
  then have "SlidingWindowMgr_addAll (batch @ (stranger, m, d) # later) mgr =
      Inl (RuntimeError (''No window with name: '' @ stranger @ '' can't add data.''))"
    by (simp add: app mgr' SlidingWindowMgr_addData_def)
  with mgr' each assms(3) show ?thesis by blast
qed

definition two_windows :: "(nat, nat) SlidingWindowMgr" where
  "two_windows = SlidingWindowMgr_addWindow ''B'' 1 (SlidingWindowMgr_addWindow ''A'' 2 Map.empty)"

theorem SlidingWindowMgr_routes_witness:
  "\<exists>mgr' w'. SlidingWindowMgr_addAll [(''A'', 1, 10), (''B'', 2, 20), (''A'', 3, 30)] two_windows = Inr mgr' \<and>
     mgr' ''A'' = Some w' \<and> unread w' = [(1, 10), (3, 30)]"
proof -
  let ?b = "[(''A'', 1::nat, 10::nat), (''B'', 2, 20), (''A'', 3, 30)]"
  have two: "two_windows = [''A'' \<mapsto> SlidingWindow_new \<lparr>historyDepth = 2\<rparr>, ''B'' \<mapsto> SlidingWindow_new \<lparr>historyDepth = 1\<rparr>]"
    by (simp add: two_windows_def SlidingWindowMgr_addWindow_def)
  have a: "fst ` set ?b \<subseteq> dom two_windows" and c: "''C'' \<notin> dom two_windows"
    and w: "two_windows ''A'' = Some (SlidingWindow_new \<lparr>historyDepth = 2\<rparr>)" by (auto simp: two)
  have b: "\<forall>n w. two_windows n = Some w \<longrightarrow> window_inv w"
    by (auto simp: two max_history.inv_new split: if_splits)
  from SlidingWindowMgr_routes [OF a b w c] show ?thesis
    by (simp add: max_history.inv_new del: SlidingWindowMgr_addAll.simps)
qed

end
