(* ===== verification/Uri_Parser.thy ===== *)
theory Uri_Parser
  imports Prelude
begin

text \<open>
  \<open>NaiveURIParser\<close> (MLCommon/inc/Network/Ipc/NaiveURIParser.h): the endpoint addresses of the
  IPC layer. Each private member function is a function from the parser object to the string it
  returns and the updated object.
\<close>

section \<open>The parser\<close>

record NaiveURIParser =
  protocol :: string
  path :: string
  host :: string
  port :: string
  valid :: bool

text \<open>\<open>std::tolower\<close> in the C locale.\<close>

definition tolower :: "char \<Rightarrow> char" where
  "tolower c =
     (case map_of (zip ''ABCDEFGHIJKLMNOPQRSTUVWXYZ'' ''abcdefghijklmnopqrstuvwxyz'') c of
        Some d \<Rightarrow> d | None \<Rightarrow> c)"

definition consumeProtocol :: "string \<Rightarrow> NaiveURIParser \<Rightarrow> string \<times> NaiveURIParser" where
  "consumeProtocol uri p =
     (if uri = [] then ([], p\<lparr>valid := False\<rparr>)
      else case str_find uri '':'' of
        None \<Rightarrow> ([], p\<lparr>valid := False\<rparr>)
      | Some pos \<Rightarrow>
          (if pos < length uri - 1 then substr_from uri (pos + 1) else [],
           p\<lparr>protocol := map tolower (substr uri 0 pos)\<rparr>))"

definition extractHostAndPort :: "string \<Rightarrow> NaiveURIParser \<Rightarrow> NaiveURIParser" where
  "extractHostAndPort partialUri p =
     (case str_find partialUri '':'' of
        None \<Rightarrow> p\<lparr>host := partialUri\<rparr>
      | Some pos \<Rightarrow>
          p\<lparr>host := substr partialUri 0 pos,
            port := (if pos < length partialUri - 1 then substr_from partialUri (pos + 1) else [])\<rparr>)"

definition consumeHostAndPort :: "string \<Rightarrow> NaiveURIParser \<Rightarrow> string \<times> NaiveURIParser" where
  "consumeHostAndPort partialUri p =
     (if partialUri = [] then ([], p)
      else if str_find partialUri ''//'' \<noteq> Some 0 then (partialUri, p)
      else case str_find_from partialUri ''/'' 2 of
        None \<Rightarrow> ([], extractHostAndPort (substr_from partialUri 2) p)
      | Some pos2 \<Rightarrow>
          (if pos2 < length partialUri - 1 then substr_from partialUri (pos2 + 1) else [],
           extractHostAndPort (substr partialUri 2 pos2) p))"

definition consumePath :: "string \<Rightarrow> NaiveURIParser \<Rightarrow> NaiveURIParser" where
  "consumePath partialUri p =
     (case partialUri of
        [] \<Rightarrow> p
      | c # _ \<Rightarrow> if c \<noteq> CHR ''/'' then p else p\<lparr>path := partialUri\<rparr>)"

definition NaiveURIParser_new :: "string \<Rightarrow> NaiveURIParser" where
  "NaiveURIParser_new uri =
     (let p = \<lparr>protocol = [], path = [], host = [], port = [], valid = True\<rparr>;
          (tmp, p) = consumeProtocol uri p;
          (tmp, p) = consumeHostAndPort tmp p;
          p = consumePath tmp p
      in p\<lparr>valid := valid p \<and> (path p \<noteq> [] \<or> host p \<noteq> [] \<or> port p \<noteq> [])\<rparr>)"

section \<open>Lemmas on the three parts\<close>

lemma substr_0 [simp]: "substr (s @ t) 0 (length s) = s"
  by (simp add: substr_def)

lemma consumeProtocol_colon:
  "CHR '':'' \<notin> set proto \<Longrightarrow>
   consumeProtocol (proto @ CHR '':'' # r) p = (r, p\<lparr>protocol := map tolower proto\<rparr>)"
  by (cases r) (auto simp: consumeProtocol_def str_find_single_append substr_from_def)

lemma extractHostAndPort_colon:
  "CHR '':'' \<notin> set h \<Longrightarrow>
   extractHostAndPort (h @ CHR '':'' # n) p = p\<lparr>host := h, port := n\<rparr>"
  by (cases n) (auto simp: extractHostAndPort_def str_find_single_append substr_from_def)

lemma extractHostAndPort_plain:
  "CHR '':'' \<notin> set h \<Longrightarrow> extractHostAndPort h p = p\<lparr>host := h\<rparr>"
  by (simp add: extractHostAndPort_def str_find_single_None [THEN iffD2])

lemma consumeHostAndPort_no_authority:
  "\<not> is_prefix ''//'' s \<Longrightarrow> consumeHostAndPort s p = (s, p)"
  using str_find_Some [of s "''//''" 0] by (auto simp: consumeHostAndPort_def)

lemma consumeHostAndPort_only:
  "CHR ''/'' \<notin> set a \<Longrightarrow> consumeHostAndPort (''//'' @ a) p = ([], extractHostAndPort a p)"
  by (simp add: consumeHostAndPort_def str_find_from_def substr_from_def str_find_single_None [THEN iffD2])

lemma consumeHostAndPort_path:
  assumes "CHR ''/'' \<notin> set a"
  shows "consumeHostAndPort (''//'' @ a @ CHR ''/'' # r) p =
           (r, extractHostAndPort (a @ take 2 (CHR ''/'' # r)) p)"
proof -
  have "str_find_from (''//'' @ a @ CHR ''/'' # r) ''/'' 2 = Some (2 + length a)"
    using str_find_single_append [OF assms, of r] by (simp add: str_find_from_def)
  then show ?thesis
    by (cases r) (auto simp: consumeHostAndPort_def substr_def substr_from_def)
qed

section \<open>What the parser does with well-formed addresses\<close>

text \<open>
  The two address shapes the IPC layer uses are read back exactly: \<open>scheme:/path\<close> gives the
  lower-cased scheme and the path, \<open>scheme://host:port\<close> the host and the port, and both are
  accepted.
\<close>

theorem uri_shapes:
  assumes "CHR '':'' \<notin> set scheme"
    and "CHR ''/'' \<notin> set (take 1 p)"
    and "CHR '':'' \<notin> set h" and "CHR ''/'' \<notin> set h" and "CHR ''/'' \<notin> set n" and "h \<noteq> []"
  shows "NaiveURIParser_new (scheme @ '':/'' @ p) =
           \<lparr>protocol = map tolower scheme, path = CHR ''/'' # p, host = [], port = [], valid = True\<rparr>
       \<and> NaiveURIParser_new (scheme @ ''://'' @ h @ '':'' @ n) =
           \<lparr>protocol = map tolower scheme, path = [], host = h, port = n, valid = True\<rparr>"
proof -
  have "\<not> is_prefix ''//'' (CHR ''/'' # p)" using assms(2) by (cases p) auto
  then have 1: "NaiveURIParser_new (scheme @ '':/'' @ p) =
           \<lparr>protocol = map tolower scheme, path = CHR ''/'' # p, host = [], port = [], valid = True\<rparr>"
    using consumeProtocol_colon [OF assms(1), of "CHR ''/'' # p"]
    by (simp add: NaiveURIParser_new_def consumeHostAndPort_no_authority consumePath_def)
  have "CHR ''/'' \<notin> set (h @ CHR '':'' # n)" using assms by auto
  then have 2: "consumeHostAndPort (CHR ''/'' # CHR ''/'' # h @ CHR '':'' # n) p = ([], p\<lparr>host := h, port := n\<rparr>)" for p
    using consumeHostAndPort_only [of "h @ CHR '':'' # n" p] extractHostAndPort_colon [OF assms(3), of n p]
    by simp
  have "NaiveURIParser_new (scheme @ ''://'' @ h @ '':'' @ n) =
           \<lparr>protocol = map tolower scheme, path = [], host = h, port = n, valid = True\<rparr>"
    using consumeProtocol_colon [OF assms(1), of "''//'' @ h @ CHR '':'' # n"] assms(6)
    by (simp add: NaiveURIParser_new_def 2 consumePath_def)
  with 1 show ?thesis by simp
qed

theorem uri_shapes_witness:
  "NaiveURIParser_new ''Unix:/tmp/test'' =
     \<lparr>protocol = ''unix'', path = ''/tmp/test'', host = [], port = [], valid = True\<rparr> \<and>
   NaiveURIParser_new ''Unix://localhost:12347'' =
     \<lparr>protocol = ''unix'', path = [], host = ''localhost'', port = ''12347'', valid = True\<rparr>"
  using uri_shapes [of "''Unix''" "''tmp/test''" "''localhost''" "''12347''"]
  by (simp add: tolower_def)

text \<open>
  An address with both an authority and a path is misread: \<open>substr(2, pos2)\<close> takes a
  position for a count, so up to two characters of the path land in the port, and the slash that
  \<open>consumePath\<close> requires has been dropped, so the path is kept only when it starts with two.
\<close>

theorem uri_authority_with_path:
  assumes "CHR '':'' \<notin> set scheme"
    and "CHR '':'' \<notin> set h" and "CHR ''/'' \<notin> set h" and "CHR ''/'' \<notin> set n" and "h \<noteq> []"
  shows "NaiveURIParser_new (scheme @ ''://'' @ h @ '':'' @ n @ ''/'' @ r) =
           \<lparr>protocol = map tolower scheme,
             path = (if take 1 r = ''/'' then r else []),
             host = h, port = n @ take 2 (''/'' @ r), valid = True\<rparr>"
proof -
  have "CHR ''/'' \<notin> set (h @ CHR '':'' # n)" using assms by auto
  from consumeHostAndPort_path [OF this, of r]
  have 2: "consumeHostAndPort (CHR ''/'' # CHR ''/'' # h @ CHR '':'' # n @ CHR ''/'' # r) p =
      (r, p\<lparr>host := h, port := n @ take 2 (''/'' @ r)\<rparr>)" for p
    using extractHostAndPort_colon [OF assms(2), of "n @ take 2 (CHR ''/'' # r)" p] by simp
  show ?thesis
    using consumeProtocol_colon [OF assms(1), of "''//'' @ h @ CHR '':'' # n @ CHR ''/'' # r"] assms(5)
    by (auto simp: NaiveURIParser_new_def Let_def 2 consumePath_def split: list.split)
qed

theorem uri_authority_with_path_witness:
  "NaiveURIParser_new ''tcp://ml:80/data'' =
     \<lparr>protocol = ''tcp'', path = [], host = ''ml'', port = ''80/d'', valid = True\<rparr>"
  using uri_authority_with_path [of "''tcp''" "''ml''" "''80''" "''data''"]
  by (simp add: tolower_def)

end
