(* ===== verification/Converter_Utils.thy ===== *)
theory Converter_Utils
  imports Prelude
begin

text \<open>
  \<open>ConverterUtils\<close> (MLCommon/src/Converter/converterutils.cpp) and its constants: the
  big-endian integer fields of a frame header. A \<open>std::vector<char>\<close> is a list of bytes.
  \<open>operator[]\<close> is not checked in the code, so an access past the end, undefined there, is
  \<open>None\<close> here.
\<close>

section \<open>Constants of the frame layout\<close>

definition MAX_NAME_LENGTH :: nat where "MAX_NAME_LENGTH = 63"
definition FRAME_HEADER_LENGTH :: nat where "FRAME_HEADER_LENGTH = 28"
definition VIDEO_HEADER_LENGTH :: nat where "VIDEO_HEADER_LENGTH = 16"
definition HEADER_VERSION :: byte where "HEADER_VERSION = 1"
definition HEADER_SUBVERSION :: byte where "HEADER_SUBVERSION = 0"
definition MEDIA_TYPE_VIDEO :: u32 where "MEDIA_TYPE_VIDEO = 0x0100"
definition MEDIA_SUBTYPE_VIDEO_UNCOMPRESSED :: u32 where
  "MEDIA_SUBTYPE_VIDEO_UNCOMPRESSED = 0x0000"
definition OFFSET_VIDEO_WIDTH :: nat where "OFFSET_VIDEO_WIDTH = 0"
definition OFFSET_VIDEO_HEIGHT :: nat where "OFFSET_VIDEO_HEIGHT = 4"
definition OFFSET_VIDEO_BYTES_PER_LINE :: nat where "OFFSET_VIDEO_BYTES_PER_LINE = 8"
definition OFFSET_VIDEO_BITS_PER_PIXEL :: nat where "OFFSET_VIDEO_BITS_PER_PIXEL = 12"
definition OFFSET_VIDEO_COLOR_FORMAT :: nat where "OFFSET_VIDEO_COLOR_FORMAT = 13"
definition OFFSET_FRAME_SIZE :: nat where "OFFSET_FRAME_SIZE = 0"
definition OFFSET_HEADER_SIZE :: nat where "OFFSET_HEADER_SIZE = 4"
definition OFFSET_HEADER_VERSION :: nat where "OFFSET_HEADER_VERSION = 8"
definition OFFSET_HEADER_SUBVERSION :: nat where "OFFSET_HEADER_SUBVERSION = 9"
definition OFFSET_NAME_LENGTH :: nat where "OFFSET_NAME_LENGTH = 10"
definition OFFSET_RESERVED_1 :: nat where "OFFSET_RESERVED_1 = 11"
definition OFFSET_MEDIA_TYPE :: nat where "OFFSET_MEDIA_TYPE = 12"
definition OFFSET_MEDIA_SUBTYPE :: nat where "OFFSET_MEDIA_SUBTYPE = 16"
definition OFFSET_TIMESTAMP :: nat where "OFFSET_TIMESTAMP = 20"

lemmas layout_consts =
  MAX_NAME_LENGTH_def FRAME_HEADER_LENGTH_def VIDEO_HEADER_LENGTH_def HEADER_VERSION_def
  HEADER_SUBVERSION_def MEDIA_TYPE_VIDEO_def MEDIA_SUBTYPE_VIDEO_UNCOMPRESSED_def
  OFFSET_VIDEO_WIDTH_def OFFSET_VIDEO_HEIGHT_def OFFSET_VIDEO_BYTES_PER_LINE_def
  OFFSET_VIDEO_BITS_PER_PIXEL_def OFFSET_VIDEO_COLOR_FORMAT_def OFFSET_FRAME_SIZE_def
  OFFSET_HEADER_SIZE_def OFFSET_HEADER_VERSION_def OFFSET_HEADER_SUBVERSION_def
  OFFSET_NAME_LENGTH_def OFFSET_RESERVED_1_def OFFSET_MEDIA_TYPE_def OFFSET_MEDIA_SUBTYPE_def
  OFFSET_TIMESTAMP_def

section \<open>The operations\<close>

definition setU32 :: "byte list \<Rightarrow> nat \<Rightarrow> u32 \<Rightarrow> byte list option" where
  "setU32 destination offset v =
     (if offset + 3 < length destination then
        Some (destination[offset := ucast (drop_bit 24 v AND 0xFF),
                          offset + 1 := ucast (drop_bit 16 v AND 0xFF),
                          offset + 2 := ucast (drop_bit 8 v AND 0xFF),
                          offset + 3 := ucast (drop_bit 0 v AND 0xFF)])
      else None)"

definition setU64 :: "byte list \<Rightarrow> nat \<Rightarrow> u64 \<Rightarrow> byte list option" where
  "setU64 destination offset v = do {
     d \<leftarrow> setU32 destination offset (ucast (drop_bit 32 v AND 0xFFFFFFFF));
     setU32 d (offset + 4) (ucast (v AND 0xFFFFFFFF))
   }"

definition getPaddedSize :: "nat \<Rightarrow> nat" where
  "getPaddedSize originalSize = originalSize + (4 - (originalSize mod 4)) mod 4"

definition getU32 :: "byte list \<Rightarrow> nat \<Rightarrow> u32 option" where
  "getU32 data offset =
     (if offset + 3 < length data then
        Some (push_bit 24 (ucast (data ! offset))
              OR push_bit 16 (ucast (data ! (offset + 1)))
              OR push_bit 8 (ucast (data ! (offset + 2)))
              OR push_bit 0 (ucast (data ! (offset + 3))))
      else None)"

definition getU64 :: "byte list \<Rightarrow> nat \<Rightarrow> u64 option" where
  "getU64 data offset = do {
     hi \<leftarrow> getU32 data offset;
     lo \<leftarrow> getU32 data (offset + 4);
     Some (push_bit 32 (ucast hi) OR ucast lo)
   }"

section \<open>Fields as slices\<close>

text \<open>
  \<open>be32\<close> and \<open>of_be32\<close> say what a field is, apart from where it is; the four operations
  are slices through them.
\<close>

definition be32 :: "u32 \<Rightarrow> byte list" where
  "be32 v = [ucast (drop_bit 24 v), ucast (drop_bit 16 v), ucast (drop_bit 8 v), ucast v]"

definition of_be32 :: "byte list \<Rightarrow> u32" where
  "of_be32 bs = push_bit 24 (ucast (bs ! 0)) OR push_bit 16 (ucast (bs ! 1))
                OR push_bit 8 (ucast (bs ! 2)) OR ucast (bs ! 3)"

lemma length_be32 [simp]: "length (be32 v) = 4"
  by (simp add: be32_def)

lemma of_be32_be32 [simp]: "of_be32 (be32 v) = v"
proof (rule bit_word_eqI)
  fix n
  assume "n < LENGTH(32)"
  then consider "n < 8" | "8 \<le> n" "n < 16" | "16 \<le> n" "n < 24" | "24 \<le> n" "n < 32"
    by fastforce
  then show "bit (of_be32 (be32 v)) n = bit v n"
    by cases (auto simp: of_be32_def be32_def bit_simps)
qed

lemma be32_of_be32: "length bs = 4 \<Longrightarrow> be32 (of_be32 bs) = bs"
  by (subst (3) list4_of_length, assumption)
     (auto simp: be32_def of_be32_def intro!: bit_word_eqI simp: bit_simps)

lemma setU32_slice:
  "setU32 d off v =
     (if off + 4 \<le> length d then Some (take off d @ be32 v @ drop (off + 4) d) else None)"
  by (auto simp: setU32_def list_update4 [simplified] be32_def)

lemma getU32_slice:
  "getU32 d off = (if off + 4 \<le> length d then Some (of_be32 (take 4 (drop off d))) else None)"
  by (auto simp: getU32_def of_be32_def add.commute)

lemma length_setU32: "setU32 d off v = Some d' \<Longrightarrow> length d' = length d"
  by (auto simp: setU32_def split: if_splits)

definition be64 :: "u64 \<Rightarrow> byte list" where
  "be64 v = be32 (ucast (drop_bit 32 v)) @ be32 (ucast v)"

definition of_be64 :: "byte list \<Rightarrow> u64" where
  "of_be64 bs = push_bit 32 (ucast (of_be32 (take 4 bs))) OR ucast (of_be32 (drop 4 bs))"

lemma length_be64 [simp]: "length (be64 v) = 8"
  by (simp add: be64_def)

lemma of_be64_be64 [simp]: "of_be64 (be64 v) = v"
  by (rule bit_word_eqI) (auto simp: of_be64_def be64_def bit_simps)

lemma setU64_slice:
  "setU64 d off v =
     (if off + 8 \<le> length d then Some (take off d @ be64 v @ drop (off + 8) d) else None)"
  by (auto simp: setU64_def setU32_slice be64_def add.commute)

lemma getU64_slice:
  "getU64 d off = (if off + 8 \<le> length d then Some (of_be64 (take 8 (drop off d))) else None)"
  by (auto simp: getU64_def getU32_slice of_be64_def drop_take add.commute)

lemmas field_slices [byte_simps] =
  setU32_slice getU32_slice setU64_slice getU64_slice

section \<open>Round trips and frames\<close>

lemma nth_slice_outside:
  "off + length bs \<le> length d \<Longrightarrow> i < off \<or> off + length bs \<le> i \<Longrightarrow> i < length d \<Longrightarrow>
   (take off d @ bs @ drop (off + length bs) d) ! i = d ! i"
  by (auto simp: nth_append)

text \<open>
  A 64-bit field written anywhere in a header is read back as it was, the header keeps its
  length and no byte outside the field changes; the write fails exactly when the field would
  not fit.
\<close>

theorem setU64_spec:
  "(case setU64 d off v of
      None \<Rightarrow> length d < off + 8
    | Some d' \<Rightarrow> getU64 d' off = Some v \<and> length d' = length d \<and>
        take off d' = take off d \<and> drop (off + 8) d' = drop (off + 8) d)"
  by (auto simp: byte_simps)

lemma setU32_spec:
  "(case setU32 d off v of
      None \<Rightarrow> length d < off + 4
    | Some d' \<Rightarrow> getU32 d' off = Some v \<and> length d' = length d \<and>
        (\<forall>i < length d. i < off \<or> off + 4 \<le> i \<longrightarrow> d' ! i = d ! i))"
  using nth_slice_outside [of off "be32 v" d]
  by (auto simp: byte_simps)

lemma getPaddedSize_cases:
  obtains q r where "n = 4 * q + r" "r < 4" "getPaddedSize n = (if r = 0 then 4 * q else 4 * q + 4)"
proof -
  define q r where "q = n div 4" and "r = n mod 4"
  have n: "n = 4 * q + r" and r: "r < 4" by (simp_all add: q_def r_def)
  then consider "r = 0" | "r = 1" | "r = 2" | "r = 3" by linarith
  then have "getPaddedSize n = (if r = 0 then 4 * q else 4 * q + 4)"
    by cases (simp_all add: getPaddedSize_def n del: add_2_eq_Suc add_2_eq_Suc')
  with n r show ?thesis by (rule that)
qed

lemma getPaddedSize_spec:
  "4 dvd getPaddedSize n \<and> n \<le> getPaddedSize n \<and> getPaddedSize n < n + 4"
  by (rule getPaddedSize_cases [of n]) auto

lemma getPaddedSize_le: "n \<le> 63 \<Longrightarrow> getPaddedSize n \<le> 64"
  by (rule getPaddedSize_cases [of n]) (auto split: if_splits)

end
