(* ===== verification/Os_Calls.thy ===== *)
theory Os_Calls
  imports Prelude
begin

text \<open>
  The operating system as the programs see it. It is not modelled: an \<open>os\<close> value is any function
  from the calls made so far and the next call to its result, so a property that holds for every
  \<open>os\<close> holds for every behaviour of the kernel. A routine that makes system calls takes the trace
  of earlier calls and returns it extended, so what was called, on what and in which order is part
  of the result. The type of descriptors is a parameter: \<open>int\<close> on Linux, \<open>SOCKET\<close> on Windows.
\<close>

datatype 'd os_call =
    Socket_call
  | Bind 'd string
  | Bind_port 'd u16
  | Listen 'd int
  | Accept 'd
  | Connect 'd string u16
  | Close 'd
  | Shutdown 'd
  | Set_nonblock 'd
  | Resolve string
  | Unlink string
  | Chmod string
  | Getgrnam string
  | Chown string int
  | Epoll_create int
  | Epoll_add int 'd u32 'd
  | Epoll_del int 'd
  | Epoll_wait int nat int
  | Select "'d list" int
  | Read_call 'd nat
  | Write_call 'd "byte list"
  | Send_call 'd "byte list"
  | Recv_call 'd nat
  | Wsa_startup
  | Wsa_cleanup
  | Inotify_init u32
  | Inotify_add int string u32
  | Inotify_rm int int
  | Poll "'d list"
  | Sigaction int
  | Open_dir string
  | Fcntl 'd int int
  | Pause
  | Print string
  | Perror string

type_synonym 'd trace = "'d os_call list"

record 'd os =
  ret :: "'d trace \<Rightarrow> 'd os_call \<Rightarrow> int"
  bytes_in :: "'d trace \<Rightarrow> 'd os_call \<Rightarrow> byte list"
  events_in :: "'d trace \<Rightarrow> 'd os_call \<Rightarrow> (u32 \<times> 'd) list"
  ready_in :: "'d trace \<Rightarrow> 'd os_call \<Rightarrow> 'd set"

definition sys :: "('d, 'z) os_scheme \<Rightarrow> 'd os_call \<Rightarrow> 'd trace \<Rightarrow> int \<times> 'd trace" where
  "sys os c tr = (ret os tr c, tr @ [c])"

lemma sys_simps [simp]: "fst (sys os c tr) = ret os tr c" "snd (sys os c tr) = tr @ [c]"
  by (simp_all add: sys_def)

text \<open>The C programs also look at \<open>errno\<close> after a call that failed.\<close>

record posix_os = "int os" +
  errno_in :: "int trace \<Rightarrow> int os_call \<Rightarrow> int"

text \<open>
  A sequence of calls with one result each, each call made whatever the results before it.
\<close>

fun calls :: "('d, 'z) os_scheme \<Rightarrow> 'd os_call list \<Rightarrow> 'd trace \<Rightarrow> int list" where
  "calls os [] tr = []"
| "calls os (c # cs) tr = ret os tr c # calls os cs (tr @ [c])"

lemma length_calls [simp]: "length (calls os cs tr) = length cs"
  by (induction cs arbitrary: tr) auto

lemma calls_append: "calls os (cs @ ds) tr = calls os cs tr @ calls os ds (tr @ cs)"
  by (induction cs arbitrary: tr) auto

text \<open>A read returns at most what it was asked for (the documented behaviour of \<open>read\<close>).\<close>

definition bounded_reads :: "('d, 'z) os_scheme \<Rightarrow> bool" where
  "bounded_reads os \<longleftrightarrow> (\<forall>tr d n. ret os tr (Read_call d n) \<le> int n)"

text \<open>What the calls of a stretch of a trace amount to, each seen with the calls before it.\<close>

fun gather :: "('d trace \<Rightarrow> 'd os_call \<Rightarrow> 'a list) \<Rightarrow> 'd trace \<Rightarrow> 'd os_call list \<Rightarrow> 'a list" where
  "gather f tr [] = []"
| "gather f tr (c # cs) = f tr c @ gather f (tr @ [c]) cs"

lemma gather_append [simp]: "gather f tr (cs @ ds) = gather f tr cs @ gather f (tr @ cs) ds"
  by (induction cs arbitrary: tr) auto

lemma gather_none: "(\<And>tr c. c \<in> set cs \<Longrightarrow> f tr c = []) \<Longrightarrow> gather f tr cs = []"
  by (induction cs arbitrary: tr) auto

text \<open>Windows descriptors.\<close>

type_synonym SOCKET = u64

definition INVALID_SOCKET :: SOCKET where
  "INVALID_SOCKET = - 1"

end
