(* ===== verification/Ipc_Socket.thy ===== *)
theory Ipc_Socket
  imports Os_Calls Uri_Parser
begin

text \<open>
  The endpoints of the IPC layer: \<open>IpcGenericSocket\<close> (MLCommon/inc/Network/Ipc/IIpcSocket.h), the
  registry of connected clients that the connector, the transmitter and the receiver share, and the
  constructors of \<open>IpcSocketUnix\<close> and \<open>IpcSocketWindows\<close>. A mutex guards every operation of the
  registry, so each is atomic. What the other components rely on is the locale \<open>client_registry\<close>.
\<close>

section \<open>The registry of clients\<close>

record 'd IpcGenericSocket =
  socketDescriptor :: 'd
  clientsDescriptor :: "'d list"

definition setSocketDescriptor :: "'d \<Rightarrow> ('d, 'z) IpcGenericSocket_scheme \<Rightarrow> ('d, 'z) IpcGenericSocket_scheme" where
  "setSocketDescriptor d s = s\<lparr>socketDescriptor := d\<rparr>"

definition addClientDecriptor :: "'d \<Rightarrow> ('d, 'z) IpcGenericSocket_scheme \<Rightarrow> ('d, 'z) IpcGenericSocket_scheme" where
  "addClientDecriptor d s =
     (if d \<in> set (clientsDescriptor s) then s
      else s\<lparr>clientsDescriptor := clientsDescriptor s @ [d]\<rparr>)"

definition removeClientDescriptor :: "'d \<Rightarrow> ('d, 'z) IpcGenericSocket_scheme \<Rightarrow> ('d, 'z) IpcGenericSocket_scheme" where
  "removeClientDescriptor d s = s\<lparr>clientsDescriptor := remove1 d (clientsDescriptor s)\<rparr>"

definition clearClientsDescriptor :: "('d, 'z) IpcGenericSocket_scheme \<Rightarrow> ('d, 'z) IpcGenericSocket_scheme" where
  "clearClientsDescriptor s = s\<lparr>clientsDescriptor := []\<rparr>"

definition getCopyOfClientsDescriptor :: "('d, 'z) IpcGenericSocket_scheme \<Rightarrow> 'd list" where
  "getCopyOfClientsDescriptor s = clientsDescriptor s"

section \<open>What the IPC components rely on\<close>

datatype 'd registry_call = AddClient 'd | RemoveClient 'd | ClearClients

locale client_registry =
  fixes clients :: "'s \<Rightarrow> 'd list"
    and add remove :: "'d \<Rightarrow> 's \<Rightarrow> 's"
    and clear :: "'s \<Rightarrow> 's"
  assumes clients_add: "clients (add d s) = (if d \<in> set (clients s) then clients s else clients s @ [d])"
    and clients_remove: "distinct (clients s) \<Longrightarrow> clients (remove d s) = filter (\<lambda>x. x \<noteq> d) (clients s)"
    and clients_clear: "clients (clear s) = []"
begin

fun apply_call :: "'d registry_call \<Rightarrow> 's \<Rightarrow> 's" where
  "apply_call (AddClient d) s = add d s"
| "apply_call (RemoveClient d) s = remove d s"
| "apply_call ClearClients s = clear s"

fun still_in :: "'d \<Rightarrow> 'd registry_call list \<Rightarrow> bool \<Rightarrow> bool" where
  "still_in d [] b = b"
| "still_in d (AddClient e # cs) b = still_in d cs (b \<or> e = d)"
| "still_in d (RemoveClient e # cs) b = still_in d cs (b \<and> e \<noteq> d)"
| "still_in d (ClearClients # cs) b = still_in d cs False"

lemma apply_call_distinct: "distinct (clients s) \<Longrightarrow> distinct (clients (apply_call c s))"
  by (cases c) (auto simp: clients_add clients_remove clients_clear)

lemma apply_call_member:
  assumes "distinct (clients s)"
  shows "d \<in> set (clients (apply_call c s)) \<longleftrightarrow> still_in d [c] (d \<in> set (clients s))"
  using assms by (cases c) (auto simp: clients_add clients_remove clients_clear)

lemma still_in_Cons: "still_in d (c # cs) b = still_in d cs (still_in d [c] b)"
  by (cases c) auto

lemma history:
  "distinct (clients s) \<Longrightarrow>
   distinct (clients (fold apply_call cs s)) \<and>
   (d \<in> set (clients (fold apply_call cs s)) \<longleftrightarrow> still_in d cs (d \<in> set (clients s)))"
proof (induction cs arbitrary: s)
  case Nil
  then show ?case by simp
next
  case (Cons c cs)
  from Cons.IH [OF apply_call_distinct [OF Cons.prems, of c]] show ?case
    by (simp add: apply_call_member [OF Cons.prems] still_in_Cons [of d c cs])
qed

lemma remove_fold:
  "distinct (clients s) \<Longrightarrow> clients (fold remove ds s) = filter (\<lambda>x. x \<notin> set ds) (clients s)"
proof (induction ds arbitrary: s)
  case Nil
  then show ?case by simp
next
  case (Cons d ds)
  then have "distinct (clients (remove d s))" by (simp add: clients_remove)
  from Cons.IH [OF this] Cons.prems show ?case
    by (auto simp: clients_remove intro: filter_cong)
qed

end

interpretation ipc_clients: client_registry clientsDescriptor addClientDecriptor
  removeClientDescriptor clearClientsDescriptor
  by unfold_locales
    (auto simp: addClientDecriptor_def removeClientDescriptor_def clearClientsDescriptor_def
      distinct_remove1_removeAll removeAll_filter_not_eq eq_commute)

section \<open>Histories of one registry\<close>

definition registry_run :: "'d registry_call list \<Rightarrow> ('d, 'z) IpcGenericSocket_scheme \<Rightarrow> ('d, 'z) IpcGenericSocket_scheme" where
  "registry_run = fold (\<lambda>c. case c of
      AddClient d \<Rightarrow> addClientDecriptor d | RemoveClient d \<Rightarrow> removeClientDescriptor d
    | ClearClients \<Rightarrow> clearClientsDescriptor)"

text \<open>The last call that concerned a descriptor: \<open>Some True\<close> when it registered it.\<close>

fun last_word :: "'d \<Rightarrow> 'd registry_call list \<Rightarrow> bool option" where
  "last_word d [] = None"
| "last_word d (c # cs) =
     (case last_word d cs of
        Some b \<Rightarrow> Some b
      | None \<Rightarrow> (case c of AddClient e \<Rightarrow> if e = d then Some True else None
                        | RemoveClient e \<Rightarrow> if e = d then Some False else None
                        | ClearClients \<Rightarrow> Some False))"

lemma still_in_last_word:
  "ipc_clients.still_in d cs b \<longleftrightarrow> (case last_word d cs of Some b' \<Rightarrow> b' | None \<Rightarrow> b)"
proof (induction cs arbitrary: b)
  case Nil
  show ?case by simp
next
  case (Cons c cs)
  then show ?case by (cases c) (auto split: option.split)
qed

lemma registry_run_fold: "registry_run cs s = fold ipc_clients.apply_call cs s"
  by (auto simp: registry_run_def intro!: fold_cong ext split: registry_call.split)

text \<open>
  Whatever the connector, the transmitter and the receiver do to a socket's registry, in any
  order, no client is ever listed twice, and exactly those clients are listed whose last mention
  was a registration.
\<close>

theorem client_registry_history:
  assumes "clientsDescriptor s = []"
  shows "distinct (clientsDescriptor (registry_run cs s)) \<and>
         (d \<in> set (clientsDescriptor (registry_run cs s)) \<longleftrightarrow> last_word d cs = Some True)"
  using ipc_clients.history [of s cs d] assms
  by (auto simp: registry_run_fold still_in_last_word split: option.splits)

theorem client_registry_history_witness:
  "(7 :: int) \<in> set (clientsDescriptor (registry_run
      [AddClient 7, AddClient 8, RemoveClient 7, AddClient 8, AddClient 7]
      \<lparr>socketDescriptor = 3, clientsDescriptor = []\<rparr>))"
  using client_registry_history [of "\<lparr>socketDescriptor = 3 :: int, clientsDescriptor = []\<rparr>"
      "[AddClient 7, AddClient 8, RemoveClient 7, AddClient 8, AddClient 7]" 7]
  by simp

section \<open>The endpoints\<close>

datatype ipc_error = RuntimeErr string | LogicErr string | InvalidArgument | OutOfRange

record IpcSocketUnix = "int IpcGenericSocket" +
  socketUri :: string
  socketName :: string
  socketPath :: string

definition IpcSocketUnix_new :: "string \<Rightarrow> string \<Rightarrow> ipc_error + IpcSocketUnix" where
  "IpcSocketUnix_new uri name =
     (let parsedUri = NaiveURIParser_new uri in
      if \<not> valid parsedUri then Inl (RuntimeErr (''Malformed Endpoint Uri='' @ uri))
      else if protocol parsedUri \<noteq> ''unix'' then Inl (RuntimeErr ''Only UnixSocket is supported as IPC'')
      else if path parsedUri = [] then Inl (RuntimeErr (''Path component of URI can'' @ CHR 0x27 # ''t be empty''))
      else Inr \<lparr>socketDescriptor = 0, clientsDescriptor = [],
                socketUri = uri, socketName = name, socketPath = path parsedUri\<rparr>)"

text \<open>\<open>std::stoi\<close> in base ten.\<close>

definition isspace :: "char \<Rightarrow> bool" where
  "isspace c \<longleftrightarrow> c \<in> {CHR '' '', CHR 0x09, CHR 0x0A, CHR 0x0B, CHR 0x0C, CHR 0x0D}"

definition digit_of :: "char \<Rightarrow> int option" where
  "digit_of c = map_of (zip ''0123456789'' [0..9]) c"

fun digits_value :: "string \<Rightarrow> int \<Rightarrow> int" where
  "digits_value [] acc = acc"
| "digits_value (c # cs) acc =
     (case digit_of c of None \<Rightarrow> acc | Some d \<Rightarrow> digits_value cs (10 * acc + d))"

definition stoi :: "string \<Rightarrow> ipc_error + int" where
  "stoi s =
     (let s = dropWhile isspace s;
          (sgn, s) = (case s of
              [] \<Rightarrow> (1, [])
            | c # cs \<Rightarrow> if c = CHR ''-'' then (- 1, cs) else if c = CHR ''+'' then (1, cs) else (1, s))
      in if s = [] \<or> digit_of (hd s) = None then Inl InvalidArgument
         else let v = sgn * digits_value s 0 in
           if v < - (2 ^ 31) \<or> 2 ^ 31 \<le> v then Inl OutOfRange else Inr v)"

record IpcSocketWindows = "SOCKET IpcGenericSocket" +
  w_socketUri :: string
  w_socketName :: string
  w_port :: u16
  w_host :: string

definition IpcSocketWindows_new :: "string \<Rightarrow> string \<Rightarrow> ipc_error + IpcSocketWindows" where
  "IpcSocketWindows_new uri name =
     (let parsedUri = NaiveURIParser_new uri in
      if \<not> valid parsedUri then Inl (RuntimeErr (''Malformed Endpoint Uri='' @ uri))
      else if protocol parsedUri \<noteq> ''tcp'' then Inl (RuntimeErr ''Only TCP is supported as IPC'')
      else if host parsedUri = [] then Inl (RuntimeErr (CHR 0x27 # ''Host'' @ CHR 0x27 # '' part of URI is expected''))
      else if port parsedUri = [] then Inl (RuntimeErr (CHR 0x27 # ''Port'' @ CHR 0x27 # '' part of URI is expected''))
      else case stoi (port parsedUri) of
          Inl e \<Rightarrow> Inl e
        | Inr n \<Rightarrow> Inr \<lparr>socketDescriptor = 0, clientsDescriptor = [],
              w_socketUri = uri, w_socketName = name, w_port = word_of_int n, w_host = host parsedUri\<rparr>)"

end
