(* ===== verification/Ipc_Transmitter.thy ===== *)
theory Ipc_Transmitter
  imports Ipc_Socket
begin

text \<open>
  \<open>IpcTransmitter\<close> (MLCommon/src/Network/Ipc/IpcTransmitter.cpp with the two platform files): a
  queue of packets filled by any thread and drained by the worker. The sockets are shared objects:
  the list \<open>sockets\<close> is the store and a queued packet names its socket by position. A
  \<open>DataToSend\<close> pack with its \<open>empty\<close> flag set is \<open>None\<close>.
\<close>

section \<open>The queue\<close>

record IpcTransmitter =
  listOfDataToSend :: "(nat \<times> byte list) list"

definition sendData :: "IpcSocketUnix list \<Rightarrow> string \<Rightarrow> byte list \<Rightarrow> IpcTransmitter \<Rightarrow> IpcTransmitter" where
  "sendData sockets uri data t =
     (case find_idx (\<lambda>socket. socketUri socket = uri) sockets of
        None \<Rightarrow> t
      | Some it \<Rightarrow> t\<lparr>listOfDataToSend := listOfDataToSend t @ [(it, data)]\<rparr>)"

definition getHead :: "IpcTransmitter \<Rightarrow> (nat \<times> byte list) option \<times> IpcTransmitter" where
  "getHead t =
     (case listOfDataToSend t of
        [] \<Rightarrow> (None, t)
      | d # ds \<Rightarrow> (Some d, t\<lparr>listOfDataToSend := ds\<rparr>))"

section \<open>Sending one packet\<close>

text \<open>
  The loop runs over a copy of the registry, so removals do not disturb it. On Linux a client whose
  \<open>write\<close> fails is removed and its descriptor is not closed here; on Windows it is closed too.
\<close>

fun innerSend_loop_unix ::
  "(int, 'z) os_scheme \<Rightarrow> int list \<Rightarrow> byte list \<Rightarrow> IpcSocketUnix \<times> int trace \<Rightarrow> IpcSocketUnix \<times> int trace" where
  "innerSend_loop_unix os [] data (s, tr) = (s, tr)"
| "innerSend_loop_unix os (c # cs) data (s, tr) =
     (case sys os (Write_call c data) tr of (sent, tr) \<Rightarrow>
        innerSend_loop_unix os cs data (if sent < 0 then removeClientDescriptor c s else s, tr))"

definition innerSendToClients_unix ::
  "(int, 'z) os_scheme \<Rightarrow> byte list \<Rightarrow> IpcSocketUnix \<times> int trace \<Rightarrow> IpcSocketUnix \<times> int trace" where
  "innerSendToClients_unix os data = (\<lambda>(s, tr).
     innerSend_loop_unix os (getCopyOfClientsDescriptor s) data (s, tr))"

fun innerSend_loop_windows ::
  "(SOCKET, 'z) os_scheme \<Rightarrow> SOCKET list \<Rightarrow> byte list \<Rightarrow> IpcSocketWindows \<times> SOCKET trace
     \<Rightarrow> IpcSocketWindows \<times> SOCKET trace" where
  "innerSend_loop_windows os [] data (s, tr) = (s, tr)"
| "innerSend_loop_windows os (c # cs) data (s, tr) =
     (case sys os (Send_call c data) tr of (result, tr) \<Rightarrow>
        if result = - 1 then
          (let s = removeClientDescriptor c s
           in case sys os (Close c) tr of (_, tr) \<Rightarrow> innerSend_loop_windows os cs data (s, tr))
        else innerSend_loop_windows os cs data (s, tr))"

definition innerSendToClients_windows ::
  "(SOCKET, 'z) os_scheme \<Rightarrow> byte list \<Rightarrow> IpcSocketWindows \<times> SOCKET trace \<Rightarrow> IpcSocketWindows \<times> SOCKET trace" where
  "innerSendToClients_windows os data = (\<lambda>(s, tr).
     innerSend_loop_windows os (getCopyOfClientsDescriptor s) data (s, tr))"

lemma innerSend_loop_unix_eq:
  "innerSend_loop_unix os cs data (s, tr) =
     (fold removeClientDescriptor
        (map fst (filter (\<lambda>(c, r). r < 0) (zip cs (calls os (map (\<lambda>c. Write_call c data) cs) tr)))) s,
      tr @ map (\<lambda>c. Write_call c data) cs)"
  by (induction cs arbitrary: s tr) (auto simp: sys_def)

lemma filter_not_failed:
  assumes "distinct cs" "length rs = length cs"
  shows "filter (\<lambda>c. c \<notin> set (map fst (filter (\<lambda>(c, r). P r) (zip cs rs)))) cs =
         map fst (filter (\<lambda>(c, r). \<not> P r) (zip cs rs))"
  using assms(2,1)
proof (induction rs cs rule: list_induct2)
  case Nil
  show ?case by simp
next
  case (Cons r rs c cs)
  have "filter (\<lambda>x. x \<notin> set (map fst (filter (\<lambda>(c, r). P r) (zip (c # cs) (r # rs))))) cs =
        filter (\<lambda>x. x \<notin> set (map fst (filter (\<lambda>(c, r). P r) (zip cs rs)))) cs"
    using Cons.prems by (intro filter_cong) auto
  moreover have "c \<notin> set (map fst (filter (\<lambda>(c, r). P r) (zip cs rs)))"
    using Cons.prems by (auto dest: set_zip_leftD)
  ultimately show ?case using Cons by auto
qed

lemma fold_remove_keeps:
  "fold removeClientDescriptor ds (s :: IpcSocketUnix) =
     s\<lparr>clientsDescriptor := clientsDescriptor (fold removeClientDescriptor ds s)\<rparr>"
proof -
  have "\<exists>cs. fold removeClientDescriptor ds s = s\<lparr>clientsDescriptor := cs\<rparr>"
  proof (induction ds arbitrary: s)
    case Nil
    then show ?case by (auto intro: exI [of _ "clientsDescriptor s"])
  next
    case (Cons d ds)
    from Cons.IH [of "removeClientDescriptor d s"] show ?case
      by (auto simp: removeClientDescriptor_def)
  qed
  then show ?thesis by auto
qed

text \<open>
  One packet is written exactly once, whole, to every client that is registered when sending
  starts, in the order of registration; afterwards exactly the clients whose \<open>write\<close> did not fail
  are still registered, in their order. A client that took only a part of the packet stays
  registered and is not sent the rest.
\<close>

theorem innerSendToClients_unix_spec:
  assumes "distinct (clientsDescriptor s)"
  shows "(let cs = clientsDescriptor s;
              writes = map (\<lambda>c. Write_call c data) cs;
              (s', tr') = innerSendToClients_unix os data (s, tr)
          in tr' = tr @ writes \<and> s' = s\<lparr>clientsDescriptor := clientsDescriptor s'\<rparr> \<and>
             clientsDescriptor s' = map fst (filter (\<lambda>(c, r). \<not> r < 0) (zip cs (calls os writes tr))))"
  using fold_remove_keeps [of _ s]
  by (simp add: innerSendToClients_unix_def innerSend_loop_unix_eq getCopyOfClientsDescriptor_def
      ipc_clients.remove_fold [OF assms] filter_not_failed [OF assms] del: set_map set_filter)

theorem innerSendToClients_unix_spec_witness:
  "clientsDescriptor (fst (innerSendToClients_unix
      \<lparr>ret = (\<lambda>tr c. if c = Write_call 5 [1, 2] then - 1 else 1), bytes_in = (\<lambda>_ _. []),
       events_in = (\<lambda>_ _. []), ready_in = (\<lambda>_ _. {})\<rparr> [1, 2]
      (\<lparr>socketDescriptor = 3, clientsDescriptor = [4, 5, 6], socketUri = ''u'', socketName = ''n'',
        socketPath = ''p''\<rparr>, []))) = [4, 6]"
  using innerSendToClients_unix_spec [of "\<lparr>socketDescriptor = 3, clientsDescriptor = [4, 5, 6],
      socketUri = ''u'', socketName = ''n'', socketPath = ''p''\<rparr>" "[1, 2]"
      "\<lparr>ret = (\<lambda>tr c. if c = Write_call 5 [1, 2] then - 1 else 1), bytes_in = (\<lambda>_ _. []),
       events_in = (\<lambda>_ _. []), ready_in = (\<lambda>_ _. {})\<rparr>" "[]"]
  by (simp add: Let_def split: prod.splits)

section \<open>The worker's loop\<close>

function sendToClients ::
  "(int, 'z) os_scheme \<Rightarrow> IpcTransmitter \<Rightarrow> IpcSocketUnix list \<times> int trace
     \<Rightarrow> IpcTransmitter \<times> IpcSocketUnix list \<times> int trace" where
  "sendToClients os t (sockets, tr) =
     (case getHead t of
        (None, t) \<Rightarrow> (t, sockets, tr)
      | (Some (i, data), t) \<Rightarrow>
          (case innerSendToClients_unix os data (sockets ! i, tr) of
             (s, tr) \<Rightarrow> sendToClients os t (sockets[i := s], tr)))"
  by pat_completeness auto
termination
  by (relation "measure (\<lambda>(os, t, _). length (listOfDataToSend t))")
     (auto simp: getHead_def split: list.splits)

declare sendToClients.simps [simp del]

section \<open>All threads together\<close>

text \<open>
  The worker between two atomic sections (\<open>in_hand\<close> is the pack \<open>getHead\<close> returned), producers
  calling \<open>sendData\<close>, and the connector and the receiver changing the registries, in any order.
  \<open>accepted\<close> and \<open>handled\<close> only record what happened.
\<close>

record tx_state =
  tx :: IpcTransmitter
  tx_sockets :: "IpcSocketUnix list"
  tx_trace :: "int trace"
  in_hand :: "(nat \<times> byte list) option"
  accepted :: "(string \<times> byte list) list"
  handled :: "(nat \<times> byte list) list"

inductive tx_step :: "(int, 'z) os_scheme \<Rightarrow> tx_state \<Rightarrow> tx_state \<Rightarrow> bool" for os where
  produce: "tx_step os st (st\<lparr>tx := sendData (tx_sockets st) uri data (tx st),
      accepted := (if uri \<in> socketUri ` set (tx_sockets st) then accepted st @ [(uri, data)] else accepted st)\<rparr>)"
| take_head: "in_hand st = None \<Longrightarrow> getHead (tx st) = (pack, t) \<Longrightarrow>
    tx_step os st (st\<lparr>tx := t, in_hand := pack\<rparr>)"
| send_head: "in_hand st = Some (i, data) \<Longrightarrow>
    innerSendToClients_unix os data (tx_sockets st ! i, tx_trace st) = (s, tr) \<Longrightarrow>
    tx_step os st (st\<lparr>tx_sockets := (tx_sockets st)[i := s], tx_trace := tr, in_hand := None,
      handled := handled st @ [(i, data)]\<rparr>)"
| registry: "i < length (tx_sockets st) \<Longrightarrow>
    tx_step os st (st\<lparr>tx_sockets := (tx_sockets st)[i := registry_run [c] (tx_sockets st ! i)]\<rparr>)"

definition tx_fresh :: "IpcSocketUnix list \<Rightarrow> tx_state" where
  "tx_fresh sockets = \<lparr>tx = \<lparr>listOfDataToSend = []\<rparr>, tx_sockets = sockets, tx_trace = [],
     in_hand = None, accepted = [], handled = []\<rparr>"

definition tx_inv :: "tx_state \<Rightarrow> bool" where
  "tx_inv st \<longleftrightarrow>
     (let packs = handled st @ (case in_hand st of None \<Rightarrow> [] | Some p \<Rightarrow> [p]) @ listOfDataToSend (tx st)
      in (\<forall>p \<in> set packs. fst p < length (tx_sockets st)) \<and>
         map (\<lambda>(i, data). (map socketUri (tx_sockets st) ! i, data)) packs = accepted st)"

lemma registry_run_uri [simp]: "socketUri (registry_run [c] (s :: IpcSocketUnix)) = socketUri s"
  by (cases c) (auto simp: registry_run_def addClientDecriptor_def removeClientDescriptor_def
      clearClientsDescriptor_def)

lemma fold_remove_uri [simp]: "socketUri (fold removeClientDescriptor ds (s :: IpcSocketUnix)) = socketUri s"
  by (subst fold_remove_keeps) simp

lemma innerSend_uri: "innerSendToClients_unix os data (s, tr) = (s', tr') \<Longrightarrow> socketUri s' = socketUri s"
  by (auto simp: innerSendToClients_unix_def innerSend_loop_unix_eq)

lemma map_uri_update [simp]:
  "socketUri s = socketUri (xs ! i) \<Longrightarrow> map socketUri (xs[i := s]) = map socketUri xs"
  by (cases "i < length xs") (auto simp: map_update list_update_same_conv list_update_beyond not_less)

lemma tx_inv_step:
  assumes "tx_step os st st'" "tx_inv st"
  shows "tx_inv st' \<and> map socketUri (tx_sockets st') = map socketUri (tx_sockets st)"
  using assms
proof (cases rule: tx_step.cases)
  case (produce uri data)
  show ?thesis
  proof (cases "find_idx (\<lambda>socket. socketUri socket = uri) (tx_sockets st)")
    case None
    with produce assms(2) show ?thesis by (auto simp: sendData_def tx_inv_def find_idx_None)
  next
    case (Some i)
    with produce assms(2) show ?thesis
      by (auto simp: sendData_def tx_inv_def Let_def dest!: find_idx_Some split: option.splits)
  qed
qed (auto simp: tx_inv_def Let_def getHead_def dest: innerSend_uri split: list.splits)


lemma tx_inv_reach:
  assumes "(tx_step os)\<^sup>*\<^sup>* (tx_fresh sockets) st"
  shows "tx_inv st \<and> map socketUri (tx_sockets st) = map socketUri sockets"
  using assms
proof (induction rule: rtranclp_induct)
  case base
  show ?case by (simp add: tx_fresh_def tx_inv_def)
next
  case (step st st')
  from tx_inv_step [OF step.hyps(2)] step.IH show ?case by simp
qed


definition one_socket :: "IpcSocketUnix list" where
  "one_socket = [\<lparr>socketDescriptor = 3, clientsDescriptor = [4], socketUri = ''unix:/a'',
     socketName = ''a'', socketPath = ''/a''\<rparr>]"

definition full_writes :: "int os" where
  "full_writes = \<lparr>ret = (\<lambda>tr c. case c of Write_call d data \<Rightarrow> int (length data) | _ \<Rightarrow> 0),
     bytes_in = (\<lambda>tr c. []), events_in = (\<lambda>tr c. []), ready_in = (\<lambda>tr c. {})\<rparr>"


section \<open>One pass of the worker\<close>

text \<open>
  A pass of the worker that nobody interrupts sends every packet that was queued, oldest first,
  each to the registry the sends before it left, and leaves the queue empty.
\<close>

theorem sendToClients_drains:
  "sendToClients os t (sockets, tr) =
     (t\<lparr>listOfDataToSend := []\<rparr>,
      fold (\<lambda>(i, data) (sockets, tr).
          case innerSendToClients_unix os data (sockets ! i, tr) of (s, tr) \<Rightarrow> (sockets[i := s], tr))
        (listOfDataToSend t) (sockets, tr))"
proof (induction "listOfDataToSend t" arbitrary: t sockets tr)
  case Nil
  then show ?case by (subst sendToClients.simps) (simp add: getHead_def)
next
  case (Cons p ps)
  obtain i data where p: "p = (i, data)" by fastforce
  obtain s tr' where s: "innerSendToClients_unix os data (sockets ! i, tr) = (s, tr')" by fastforce
  show ?case
    using Cons.hyps(1) [of "t\<lparr>listOfDataToSend := ps\<rparr>" "sockets[i := s]" tr'] Cons.hyps(2) [symmetric]
    by (subst sendToClients.simps) (simp add: getHead_def p s)
qed

end
