(* ===== verification/Timer_Worker.thy ===== *)
theory Timer_Worker
  imports Prelude
begin

text \<open>
  The timer framework (MLCommon/inc/TimerFramework, MLCommon/src/TimerFramework): \<open>EventType\<close>,
  \<open>Event\<close>, \<open>TimerEvent\<close>, \<open>Message\<close>, \<open>Timer\<close> and \<open>Worker\<close>. Timers are heap objects that the queue and
  the timer list share, so they live in a store and are named by position; the code never deletes
  one. \<open>None\<close> is undefined behaviour (unlocking a mutex the thread does not own, locking one it
  owns, a null dereference). A callback is user code on the worker's thread whose requests go
  through the queue, so it is recorded in \<open>w_fired\<close> and what it requests is a step of its own.
\<close>

section \<open>Events\<close>

datatype EventType = TIMERCALLBACK | TIMERSTART | TIMERSTOP | MESSAGE

fun EventType_ToString :: "EventType \<Rightarrow> string" where
  "EventType_ToString TIMERCALLBACK = ''TIMERCALLBACK''"
| "EventType_ToString TIMERSTART = ''TIMERSTART''"
| "EventType_ToString TIMERSTOP = ''TIMERSTOP''"
| "EventType_ToString MESSAGE = ''MESSAGE''"

datatype Event = TimerObject nat | TimerEvent EventType u32 | Message u32

record TimerEntry =
  getDuration :: int
  getId :: u32
  isCyclic :: bool
  isAutostart :: bool

section \<open>The timer\<close>

text \<open>
  The thread of a timer sleeps in \<open>try_lock_for\<close> on a mutex that the worker's thread locked in
  \<open>Start\<close>; unlocking it wakes the thread, which then owns the mutex and sends nothing.
\<close>

datatype thread_state = Sleeping | Exited
datatype mutex_state = Unlocked | By_worker | By_timer_thread

record Timer =
  t_id :: u32
  t_Cyclic :: bool
  t_isRunning :: bool
  t_callback_set :: bool
  t_Thread :: "thread_state option"
  t_Interval :: int
  t_abortMutex :: mutex_state

definition Timer_new :: "TimerEntry \<Rightarrow> bool \<Rightarrow> Timer" where
  "Timer_new entry callback_set =
     \<lparr>t_id = getId entry, t_Cyclic = isCyclic entry, t_isRunning = False,
      t_callback_set = callback_set, t_Thread = None, t_Interval = getDuration entry,
      t_abortMutex = Unlocked\<rparr>"

definition Timer_Start :: "Timer \<Rightarrow> (bool \<times> Timer) option" where
  "Timer_Start t =
     (if t_isRunning t then Some (False, t)
      else let t = t\<lparr>t_isRunning := True\<rparr> in
        if t_Thread t = None then
          (case t_abortMutex t of
             By_worker \<Rightarrow> None
           | Unlocked \<Rightarrow> Some (True, t\<lparr>t_abortMutex := By_worker, t_Thread := Some Sleeping\<rparr>)
           | By_timer_thread \<Rightarrow> Some (True, t\<lparr>t_Thread := Some Sleeping\<rparr>))
        else Some (True, t))"

definition Timer_Stop :: "Timer \<Rightarrow> Timer option" where
  "Timer_Stop t =
     (let t = t\<lparr>t_isRunning := False\<rparr> in
      if t_abortMutex t \<noteq> By_worker then None
      else let t = t\<lparr>t_abortMutex := Unlocked\<rparr> in
        (case t_Thread t of
           None \<Rightarrow> Some t
         | Some Sleeping \<Rightarrow> Some (t\<lparr>t_abortMutex := By_timer_thread, t_Thread := None\<rparr>)
         | Some Exited \<Rightarrow> Some (t\<lparr>t_Thread := None\<rparr>)))"

text \<open>\<open>Timer::Run\<close> when the interval runs out first: the lock was not obtained, the event is sent.\<close>

definition Timer_Run_timeout :: "Timer \<Rightarrow> (Timer \<times> Event) option" where
  "Timer_Run_timeout t =
     (if t_Thread t = Some Sleeping \<and> t_abortMutex t \<noteq> Unlocked
      then Some (t\<lparr>t_Thread := Some Exited\<rparr>, TimerEvent TIMERCALLBACK (t_id t))
      else None)"

section \<open>The worker\<close>

record Worker =
  w_StopRequested :: bool
  w_Thread :: bool
  w_Queue :: "Event list"
  w_TimerList :: "nat list"
  w_heap :: "Timer list"
  w_fired :: "nat list"

definition Worker_new :: Worker where
  "Worker_new = \<lparr>w_StopRequested = False, w_Thread = False, w_Queue = [], w_TimerList = [],
     w_heap = [], w_fired = []\<rparr>"

definition Worker_Start :: "Worker \<Rightarrow> bool \<times> Worker" where
  "Worker_Start w =
     (let w = w\<lparr>w_StopRequested := False\<rparr> in
      if \<not> w_Thread w then (True, w\<lparr>w_Thread := True\<rparr>) else (False, w))"

definition Worker_RequestStop :: "Worker \<Rightarrow> Worker" where
  "Worker_RequestStop w = w\<lparr>w_StopRequested := True\<rparr>"

definition Worker_Stop :: "Worker \<Rightarrow> Worker" where
  "Worker_Stop w = (let w = Worker_RequestStop w in if \<not> w_Thread w then w else w\<lparr>w_Thread := False\<rparr>)"

definition SendEvent :: "Event \<Rightarrow> Worker \<Rightarrow> Worker" where
  "SendEvent e w = (if w_Thread w then w\<lparr>w_Queue := w_Queue w @ [e]\<rparr> else w)"

definition Worker_StartTimer :: "TimerEntry \<Rightarrow> bool \<Rightarrow> Worker \<Rightarrow> bool \<times> Worker" where
  "Worker_StartTimer entry callback_set w =
     (let p = length (w_heap w);
          w = w\<lparr>w_heap := w_heap w @ [Timer_new entry callback_set]\<rparr>
      in (True, SendEvent (TimerObject p) w))"

definition Worker_StopTimer :: "TimerEntry \<Rightarrow> Worker \<Rightarrow> bool \<times> Worker" where
  "Worker_StopTimer entry w = (True, SendEvent (TimerEvent TIMERSTOP (getId entry)) w)"

definition GetTimer :: "u32 \<Rightarrow> Worker \<Rightarrow> nat option" where
  "GetTimer i w = find (\<lambda>p. t_id (w_heap w ! p) = i) (w_TimerList w)"

definition AddTimer :: "nat \<Rightarrow> Worker \<Rightarrow> bool \<times> Worker" where
  "AddTimer p w =
     (if t_id (w_heap w ! p) \<noteq> 0 \<and> GetTimer (t_id (w_heap w ! p)) w = None
      then (True, w\<lparr>w_TimerList := w_TimerList w @ [p]\<rparr>)
      else (False, w))"

definition RemoveTimer :: "u32 \<Rightarrow> Worker \<Rightarrow> bool \<times> Worker" where
  "RemoveTimer i w =
     (GetTimer i w \<noteq> None,
      w\<lparr>w_TimerList := erase_first (\<lambda>p. t_id (w_heap w ! p) = i) (w_TimerList w)\<rparr>)"

definition Worker_StopTimer_id :: "u32 \<Rightarrow> Worker \<Rightarrow> (bool \<times> Worker) option" where
  "Worker_StopTimer_id i w =
     (case GetTimer i w of
        None \<Rightarrow> Some (False, w)
      | Some p \<Rightarrow> do {
          t \<leftarrow> Timer_Stop (w_heap w ! p);
          Some (RemoveTimer i (w\<lparr>w_heap := (w_heap w)[p := t]\<rparr>))
        })"

definition Worker_StartTimer_ptr :: "nat \<Rightarrow> Worker \<Rightarrow> (bool \<times> Worker) option" where
  "Worker_StartTimer_ptr p w = do {
     let i = t_id (w_heap w ! p);
     w \<leftarrow> (if GetTimer i w \<noteq> None then map_option snd (Worker_StopTimer_id i w) else Some w);
     let w = snd (AddTimer p w);
     (_, t) \<leftarrow> Timer_Start (w_heap w ! p);
     Some (False, w\<lparr>w_heap := (w_heap w)[p := t]\<rparr>)
   }"

definition Timer_InvokeCallback :: "nat \<Rightarrow> Worker \<Rightarrow> Worker" where
  "Timer_InvokeCallback p w =
     (if t_callback_set (w_heap w ! p) then w\<lparr>w_fired := w_fired w @ [p]\<rparr> else w)"

definition HandleCallback :: "u32 \<Rightarrow> Worker \<Rightarrow> Worker option" where
  "HandleCallback i w =
     (case GetTimer i w of
        None \<Rightarrow> Some w
      | Some p \<Rightarrow> do {
          let w = Timer_InvokeCallback p w;
          if \<not> t_Cyclic (w_heap w ! p) then map_option snd (Worker_StopTimer_id i w)
          else do {
            t \<leftarrow> Timer_Stop (w_heap w ! p);
            (_, t) \<leftarrow> Timer_Start t;
            Some (w\<lparr>w_heap := (w_heap w)[p := t]\<rparr>)
          }
        })"

text \<open>The dispatch of one event; \<open>HandleMessage\<close> of the base class only logs.\<close>

fun dispatch :: "Event \<Rightarrow> Worker \<Rightarrow> Worker option" where
  "dispatch (TimerObject p) w = map_option snd (Worker_StartTimer_ptr p w)"
| "dispatch (TimerEvent TIMERSTART i) w = None"
| "dispatch (TimerEvent TIMERSTOP i) w = map_option snd (Worker_StopTimer_id i w)"
| "dispatch (TimerEvent TIMERCALLBACK i) w = HandleCallback i w"
| "dispatch (TimerEvent MESSAGE i) w = Some w"
| "dispatch (Message i) w = Some w"

definition dispatch_head :: "Worker \<Rightarrow> Worker option" where
  "dispatch_head w =
     (case w_Queue w of [] \<Rightarrow> Some w | e # es \<Rightarrow> dispatch e (w\<lparr>w_Queue := es\<rparr>))"


section \<open>Invariant\<close>

definition fresh_timer :: "Timer \<Rightarrow> bool" where
  "fresh_timer t \<longleftrightarrow> \<not> t_isRunning t \<and> t_Thread t = None \<and> t_abortMutex t = Unlocked"

definition live_timer :: "Timer \<Rightarrow> bool" where
  "live_timer t \<longleftrightarrow> t_isRunning t \<and> t_Thread t \<noteq> None \<and>
     (t_abortMutex t = By_worker \<or> t_Cyclic t \<and> t_abortMutex t = By_timer_thread)"

text \<open>A running timer whose mutex a dead thread owns: stopping it is undefined.\<close>

definition stuck_timer :: "Timer \<Rightarrow> bool" where
  "stuck_timer t \<longleftrightarrow> t_Cyclic t \<and> t_abortMutex t = By_timer_thread"

definition same_timer :: "Timer \<Rightarrow> Timer \<Rightarrow> bool" where
  "same_timer t t' \<longleftrightarrow> t_id t' = t_id t \<and> t_Cyclic t' = t_Cyclic t \<and> t_callback_set t' = t_callback_set t"

definition pending :: "Worker \<Rightarrow> nat list" where
  "pending w = concat (map (\<lambda>e. case e of TimerObject p \<Rightarrow> [p] | _ \<Rightarrow> []) (w_Queue w))"

definition worker_inv :: "Worker \<Rightarrow> bool" where
  "worker_inv w \<longleftrightarrow>
     distinct (map (\<lambda>p. t_id (w_heap w ! p)) (w_TimerList w)) \<and>
     (\<forall>p \<in> set (w_TimerList w). p < length (w_heap w) \<and> live_timer (w_heap w ! p) \<and> t_id (w_heap w ! p) \<noteq> 0) \<and>
     distinct (pending w) \<and>
     (\<forall>p \<in> set (pending w). p < length (w_heap w) \<and> fresh_timer (w_heap w ! p) \<and> p \<notin> set (w_TimerList w)) \<and>
     (\<forall>i. TimerEvent TIMERSTART i \<notin> set (w_Queue w)) \<and>
     (\<forall>p \<in> set (w_fired w). p < length (w_heap w) \<and>
        (\<not> t_Cyclic (w_heap w ! p) \<longrightarrow>
           count_list (w_fired w) p = 1 \<and> p \<notin> set (w_TimerList w) \<and> p \<notin> set (pending w)))"

lemma Timer_Stop_live:
  assumes "live_timer t" "Timer_Stop t = Some t'"
  shows "same_timer t t' \<and> \<not> t_isRunning t' \<and> t_Thread t' = None \<and> t_abortMutex t' \<noteq> By_worker"
  using assms
  by (auto simp: live_timer_def Timer_Stop_def same_timer_def Let_def
      split: if_splits option.splits thread_state.splits)

lemma Timer_Stop_stuck: "live_timer t \<Longrightarrow> Timer_Stop t = None \<longleftrightarrow> stuck_timer t"
  by (auto simp: live_timer_def Timer_Stop_def stuck_timer_def Let_def
      split: option.splits thread_state.splits)

lemma Timer_Start_idle:
  assumes "\<not> t_isRunning t" "t_Thread t = None" "t_abortMutex t = Unlocked \<or> t_Cyclic t \<and> t_abortMutex t = By_timer_thread"
  shows "\<exists>t'. Timer_Start t = Some (True, t') \<and> same_timer t t' \<and> live_timer t' \<and> t_Thread t' = Some Sleeping"
  using assms by (auto simp: live_timer_def Timer_Start_def same_timer_def)

lemma same_timer_update [simp]:
  assumes "same_timer (h ! p) t"
  shows "t_id (h[p := t] ! q) = t_id (h ! q)" "t_Cyclic (h[p := t] ! q) = t_Cyclic (h ! q)"
proof -
  have "h[p := t] ! q = (if p = q \<and> p < length h then t else h ! q)"
    by (cases "p < length h") (auto simp: nth_list_update list_update_beyond not_less)
  moreover have "t_id t = t_id (h ! p)" "t_Cyclic t = t_Cyclic (h ! p)"
    using assms by (simp_all add: same_timer_def)
  ultimately show "t_id (h[p := t] ! q) = t_id (h ! q)" "t_Cyclic (h[p := t] ! q) = t_Cyclic (h ! q)"
    by (simp_all split: if_split)
qed

lemma erase_first_key:
  "distinct (map f xs) \<Longrightarrow> erase_first (\<lambda>x. f x = i) xs = filter (\<lambda>x. f x \<noteq> i) xs"
proof (induction xs)
  case (Cons x xs)
  then have "f x = i \<Longrightarrow> filter (\<lambda>y. f y \<noteq> i) xs = xs" by (intro filter_True) (auto simp: image_iff)
  with Cons show ?case by simp
qed simp

lemma GetTimer_Some:
  "GetTimer i w = Some p \<Longrightarrow> p \<in> set (w_TimerList w) \<and> t_id (w_heap w ! p) = i"
  by (auto simp: GetTimer_def find_Some_iff)

lemma GetTimer_None: "GetTimer i w = None \<longleftrightarrow> (\<forall>p \<in> set (w_TimerList w). t_id (w_heap w ! p) \<noteq> i)"
  by (auto simp: GetTimer_def find_None_iff)

lemma inv_stopped:
  assumes "worker_inv w" "p \<in> set (w_TimerList w)" "same_timer (w_heap w ! p) t" "i = t_id (w_heap w ! p)"
  shows "worker_inv (w\<lparr>w_heap := (w_heap w)[p := t],
           w_TimerList := filter (\<lambda>q. t_id (w_heap w ! q) \<noteq> i) (w_TimerList w)\<rparr>)"
proof -
  have "t_Cyclic t = t_Cyclic (w_heap w ! p)" using assms(3) by (simp add: same_timer_def)
  moreover have "p \<notin> set (pending w)" using assms by (auto simp: worker_inv_def)
  moreover have "pending (w\<lparr>w_heap := (w_heap w)[p := t],
           w_TimerList := filter (\<lambda>q. t_id (w_heap w ! q) \<noteq> i) (w_TimerList w)\<rparr>) = pending w"
    by (simp add: pending_def)
  ultimately show ?thesis using assms
    by (auto simp: worker_inv_def distinct_map inj_on_def nth_list_update)
qed

lemma StopTimer_inv:
  assumes "worker_inv w"
  shows "case Worker_StopTimer_id i w of
      None \<Rightarrow> \<exists>t \<in> set (w_heap w). stuck_timer t
    | Some (b, w') \<Rightarrow> worker_inv w' \<and> GetTimer i w' = None \<and>
           w_Queue w' = w_Queue w \<and> w_fired w' = w_fired w \<and> length (w_heap w') = length (w_heap w) \<and>
           (\<forall>q. t_id (w_heap w' ! q) = t_id (w_heap w ! q)) \<and>
           w_TimerList w' = filter (\<lambda>q. t_id (w_heap w ! q) \<noteq> i) (w_TimerList w) \<and>
           (\<forall>q. q \<notin> set (w_TimerList w) \<longrightarrow> w_heap w' ! q = w_heap w ! q)"
proof (cases "GetTimer i w")
  case None
  then have "filter (\<lambda>q. t_id (w_heap w ! q) \<noteq> i) (w_TimerList w) = w_TimerList w"
    by (intro filter_True) (simp add: GetTimer_None)
  with None assms show ?thesis by (simp add: Worker_StopTimer_id_def)
next
  case (Some p)
  note p = GetTimer_Some [OF this]
  with assms have live: "live_timer (w_heap w ! p)" and len: "p < length (w_heap w)"
    by (simp_all add: worker_inv_def)
  show ?thesis
  proof (cases "Timer_Stop (w_heap w ! p)")
    case None
    with Timer_Stop_stuck [OF live] Some len show ?thesis by (auto simp: Worker_StopTimer_id_def)
  next
    case (Some t)
    note t = Timer_Stop_live [OF live Some]
    then have same: "same_timer (w_heap w ! p) t" by simp
    have "distinct (map (\<lambda>q. t_id (w_heap w ! q)) (w_TimerList w))" using assms by (simp add: worker_inv_def)
    then have "Worker_StopTimer_id i w = Some (GetTimer i (w\<lparr>w_heap := (w_heap w)[p := t]\<rparr>) \<noteq> None,
       w\<lparr>w_heap := (w_heap w)[p := t], w_TimerList := filter (\<lambda>q. t_id (w_heap w ! q) \<noteq> i) (w_TimerList w)\<rparr>)"
      using Some \<open>GetTimer i w = Some p\<close> same
      by (simp add: Worker_StopTimer_id_def RemoveTimer_def erase_first_key)
    moreover have "q \<notin> set (w_TimerList w) \<Longrightarrow> (w_heap w)[p := t] ! q = w_heap w ! q" for q
      using p by (metis nth_list_update_neq)
    ultimately show ?thesis
      using inv_stopped [OF assms _ same, of i] p same by (simp add: GetTimer_None)
  qed
qed


lemma pending_simps [simp]:
  "pending (w\<lparr>w_heap := h\<rparr>) = pending w" "pending (w\<lparr>w_TimerList := l\<rparr>) = pending w"
  "pending (w\<lparr>w_fired := f\<rparr>) = pending w" "pending (w\<lparr>w_StopRequested := b\<rparr>) = pending w"
  "pending (w\<lparr>w_Thread := b\<rparr>) = pending w"
  by (simp_all add: pending_def)

lemma timer_update:
  "live_timer (h[p := t] ! q) \<longleftrightarrow> (if p = q \<and> p < length h then live_timer t else live_timer (h ! q))"
  "fresh_timer (h[p := t] ! q) \<longleftrightarrow> (if p = q \<and> p < length h then fresh_timer t else fresh_timer (h ! q))"
  by (cases "p < length h"; simp add: nth_list_update list_update_beyond not_less)+

lemma inv_started:
  assumes "worker_inv w" "p < length (w_heap w)" "p \<notin> set (w_TimerList w)" "p \<notin> set (pending w)"
    and "p \<in> set (w_fired w) \<Longrightarrow> t_Cyclic (w_heap w ! p)"
    and "GetTimer (t_id (w_heap w ! p)) w = None" "same_timer (w_heap w ! p) t" "live_timer t"
  shows "worker_inv (w\<lparr>w_heap := (w_heap w)[p := t],
      w_TimerList := (if t_id (w_heap w ! p) \<noteq> 0 then w_TimerList w @ [p] else w_TimerList w)\<rparr>)"
  using assms
  by (auto simp: worker_inv_def GetTimer_None timer_update)

lemma inv_fire:
  assumes "worker_inv w" "p < length (w_heap w)"
    and "\<not> t_Cyclic (w_heap w ! p) \<Longrightarrow> p \<notin> set (w_fired w) \<and> p \<notin> set (w_TimerList w) \<and> p \<notin> set (pending w)"
  shows "worker_inv (w\<lparr>w_fired := w_fired w @ [p]\<rparr>)"
  using assms by (auto simp: worker_inv_def)

lemma inv_restarted:
  assumes "worker_inv w" "p \<in> set (w_TimerList w)" "same_timer (w_heap w ! p) t" "live_timer t"
  shows "worker_inv (w\<lparr>w_heap := (w_heap w)[p := t]\<rparr>)"
  using assms by (auto simp: worker_inv_def timer_update)

lemma StartTimer_ptr_inv:
  assumes inv: "worker_inv w" and p: "p < length (w_heap w)" "fresh_timer (w_heap w ! p)"
    "p \<notin> set (w_TimerList w)" "p \<notin> set (pending w)" "p \<in> set (w_fired w) \<Longrightarrow> t_Cyclic (w_heap w ! p)"
  shows "case Worker_StartTimer_ptr p w of
      None \<Rightarrow> \<exists>t \<in> set (w_heap w). stuck_timer t
    | Some (b, w') \<Rightarrow> \<not> b \<and> worker_inv w' \<and> w_fired w' = w_fired w \<and>
        live_timer (w_heap w' ! p) \<and> t_Thread (w_heap w' ! p) = Some Sleeping \<and>
        w_TimerList w' = filter (\<lambda>q. t_id (w_heap w ! q) \<noteq> t_id (w_heap w ! p)) (w_TimerList w) @
          (if t_id (w_heap w ! p) \<noteq> 0 then [p] else [])"
proof -
  let ?i = "t_id (w_heap w ! p)"
  have pre: "(if GetTimer ?i w \<noteq> None then map_option snd (Worker_StopTimer_id ?i w) else Some w) =
      map_option snd (Worker_StopTimer_id ?i w)"
    by (auto simp: Worker_StopTimer_id_def)
  show ?thesis
  proof (cases "Worker_StopTimer_id ?i w")
    case None
    with StopTimer_inv [OF inv, of ?i] show ?thesis
      unfolding Worker_StartTimer_ptr_def Let_def pre by simp
  next
    case (Some r)
    obtain b w1 where r: "r = (b, w1)" by fastforce
    from StopTimer_inv [OF inv, of ?i] Some r have w1: "worker_inv w1" "GetTimer ?i w1 = None"
      "w_fired w1 = w_fired w" "length (w_heap w1) = length (w_heap w)" "w_heap w1 ! p = w_heap w ! p"
      "w_Queue w1 = w_Queue w" and l: "w_TimerList w1 = filter (\<lambda>q. t_id (w_heap w ! q) \<noteq> ?i) (w_TimerList w)"
      using p(3) by auto
    have pend: "pending w1 = pending w" using w1(6) by (simp add: pending_def)
    from Timer_Start_idle [of "w_heap w ! p"] p(2) obtain t where
      t: "Timer_Start (w_heap w ! p) = Some (True, t)" "same_timer (w_heap w ! p) t" "live_timer t"
        "t_Thread t = Some Sleeping"
      by (auto simp: fresh_timer_def)
    have res: "Worker_StartTimer_ptr p w = Some (False, w1\<lparr>w_heap := (w_heap w1)[p := t],
        w_TimerList := (if ?i \<noteq> 0 then w_TimerList w1 @ [p] else w_TimerList w1)\<rparr>)"
      unfolding Worker_StartTimer_ptr_def Let_def pre using t w1
      by (simp add: Some r AddTimer_def)
    have "worker_inv (w1\<lparr>w_heap := (w_heap w1)[p := t],
        w_TimerList := (if ?i \<noteq> 0 then w_TimerList w1 @ [p] else w_TimerList w1)\<rparr>)"
      using inv_started [of w1 p t] w1 p t l pend by auto
    with res t w1 p(1) l show ?thesis by simp
  qed
qed

lemma StopTimer_fired:
  "Worker_StopTimer_id i (w\<lparr>w_fired := f\<rparr>) =
     map_option (\<lambda>(b, w). (b, w\<lparr>w_fired := f\<rparr>)) (Worker_StopTimer_id i w)"
  by (cases "GetTimer i w"; cases "Timer_Stop (w_heap w ! the (GetTimer i w))")
     (simp_all add: Worker_StopTimer_id_def GetTimer_def RemoveTimer_def)

text \<open>What a callback leaves: the timer's object has fired, and a one-shot timer is off the list.\<close>

definition called_back :: "u32 \<Rightarrow> nat \<Rightarrow> Worker \<Rightarrow> Worker \<Rightarrow> bool" where
  "called_back i p w w' \<longleftrightarrow>
     w_fired w' = w_fired w @ (if t_callback_set (w_heap w ! p) then [p] else []) \<and>
     w_TimerList w' = (if t_Cyclic (w_heap w ! p) then w_TimerList w
                       else filter (\<lambda>q. t_id (w_heap w ! q) \<noteq> i) (w_TimerList w))"

lemma listed_timer:
  assumes "worker_inv w" "GetTimer i w = Some p"
  shows "p \<in> set (w_TimerList w)" "t_id (w_heap w ! p) = i" "live_timer (w_heap w ! p)" "p < length (w_heap w)" "p \<notin> set (pending w)"
  using assms GetTimer_Some [OF assms(2)] by (auto simp: worker_inv_def)

lemma InvokeCallback_eq:
  "Timer_InvokeCallback p w = w\<lparr>w_fired := w_fired w @ (if t_callback_set (w_heap w ! p) then [p] else [])\<rparr>"
  by (simp add: Timer_InvokeCallback_def)

lemma HandleCallback_one_shot:
  assumes inv: "worker_inv w" and g: "GetTimer i w = Some p" and nc: "\<not> t_Cyclic (w_heap w ! p)"
  shows "case HandleCallback i w of
      None \<Rightarrow> \<exists>t \<in> set (w_heap w). stuck_timer t
    | Some w' \<Rightarrow> worker_inv w' \<and> called_back i p w w'"
proof -
  note p = listed_timer [OF inv g]
  let ?f = "w_fired w @ (if t_callback_set (w_heap w ! p) then [p] else [])"
  have nf: "p \<notin> set (w_fired w)" using inv p nc by (auto simp: worker_inv_def)
  have hc: "HandleCallback i w = map_option (\<lambda>(b, w). w\<lparr>w_fired := ?f\<rparr>) (Worker_StopTimer_id i w)"
    using nc by (simp add: HandleCallback_def g Let_def InvokeCallback_eq StopTimer_fired option.map_comp o_def case_prod_unfold)
  show ?thesis
  proof (cases "Worker_StopTimer_id i w")
    case None
    with StopTimer_inv [OF inv, of i] show ?thesis by (simp add: hc)
  next
    case (Some r)
    obtain b w1 where r: "r = (b, w1)" by fastforce
    from StopTimer_inv [OF inv, of i] Some r have w1: "worker_inv w1" "w_fired w1 = w_fired w"
      "length (w_heap w1) = length (w_heap w)" "w_Queue w1 = w_Queue w"
      and l: "w_TimerList w1 = filter (\<lambda>q. t_id (w_heap w ! q) \<noteq> i) (w_TimerList w)" by auto
    have "pending w1 = pending w" using w1(4) by (simp add: pending_def)
    then have "worker_inv (w1\<lparr>w_fired := w_fired w1 @ [p]\<rparr>)"
      using l p nf by (intro inv_fire w1(1)) (auto simp: w1(2,3))
    then have "worker_inv (w1\<lparr>w_fired := ?f\<rparr>)"
      using w1(1) by (cases "t_callback_set (w_heap w ! p)") (simp_all flip: w1(2))
    with Some r l nc show ?thesis by (simp add: hc called_back_def)
  qed
qed

lemma HandleCallback_cyclic:
  assumes inv: "worker_inv w" and g: "GetTimer i w = Some p" and c: "t_Cyclic (w_heap w ! p)"
  shows "case HandleCallback i w of
      None \<Rightarrow> \<exists>t \<in> set (w_heap w). stuck_timer t
    | Some w' \<Rightarrow> worker_inv w' \<and> called_back i p w w'"
proof -
  note p = listed_timer [OF inv g]
  let ?f = "w_fired w @ (if t_callback_set (w_heap w ! p) then [p] else [])"
  have hc: "HandleCallback i w = Option.bind (Timer_Stop (w_heap w ! p)) (\<lambda>t. Option.bind (Timer_Start t)
      (\<lambda>(_, t). Some (w\<lparr>w_heap := (w_heap w)[p := t], w_fired := ?f\<rparr>)))"
    using c
    by (cases "Timer_Stop (w_heap w ! p)"; cases "Timer_Start (the (Timer_Stop (w_heap w ! p)))";
        auto simp: HandleCallback_def g Let_def InvokeCallback_eq)
  show ?thesis
  proof (cases "Timer_Stop (w_heap w ! p)")
    case None
    with Timer_Stop_stuck [OF p(3)] p(4) show ?thesis by (auto simp: hc)
  next
    case (Some t)
    note t = Timer_Stop_live [OF p(3) Some]
    have "t_abortMutex t = Unlocked \<or> t_Cyclic t \<and> t_abortMutex t = By_timer_thread"
      using t c by (cases "t_abortMutex t") (auto simp: same_timer_def)
    with Timer_Start_idle [of t] t obtain t' where
      t': "Timer_Start t = Some (True, t')" "same_timer t t'" "live_timer t'" by auto
    have same: "same_timer (w_heap w ! p) t'" using t t' by (simp add: same_timer_def)
    have "worker_inv (w\<lparr>w_heap := (w_heap w)[p := t'], w_fired := ?f\<rparr>)"
      using inv_fire [of "w\<lparr>w_heap := (w_heap w)[p := t']\<rparr>" p] inv_restarted [OF inv _ same t'(3)] p
        c same by (auto simp: same_timer_def)
    with Some t' c show ?thesis by (simp add: hc called_back_def)
  qed
qed

lemma HandleCallback_inv:
  assumes inv: "worker_inv w"
  shows "case HandleCallback i w of
      None \<Rightarrow> \<exists>t \<in> set (w_heap w). stuck_timer t
    | Some w' \<Rightarrow> worker_inv w' \<and> (case GetTimer i w of None \<Rightarrow> w' = w | Some p \<Rightarrow> called_back i p w w')"
proof (cases "GetTimer i w")
  case None
  with inv show ?thesis by (simp add: HandleCallback_def)
next
  case (Some p)
  then show ?thesis using HandleCallback_one_shot [OF inv Some] HandleCallback_cyclic [OF inv Some]
    by (cases "t_Cyclic (w_heap w ! p)") (simp_all split: option.splits)
qed


section \<open>Every run of a worker\<close>

text \<open>
  What can happen to a worker, one atomic step at a time: any thread starts or stops a timer, sends a
  message, restarts the worker or requests its stop; a sleeping timer's interval runs out; the
  dispatcher handles the head of the queue.
\<close>

inductive env_step :: "Worker \<Rightarrow> Worker \<Rightarrow> bool" where
  start_timer: "env_step w (snd (Worker_StartTimer entry cb w))"
| stop_timer: "env_step w (snd (Worker_StopTimer entry w))"
| message: "env_step w (SendEvent (Message i) w)"
| start: "env_step w (snd (Worker_Start w))"
| request_stop: "env_step w (Worker_RequestStop w)"
| timeout: "p < length (w_heap w) \<Longrightarrow> Timer_Run_timeout (w_heap w ! p) = Some (t, e) \<Longrightarrow>
    env_step w (SendEvent e (w\<lparr>w_heap := (w_heap w)[p := t]\<rparr>))"

inductive wstep :: "Worker \<Rightarrow> Worker \<Rightarrow> bool" where
  env: "env_step w w' \<Longrightarrow> wstep w w'"
| handle: "w_Thread w \<Longrightarrow> dispatch_head w = Some w' \<Longrightarrow> wstep w w'"

lemma dispatch_head_inv:
  assumes "worker_inv w"
  shows "case dispatch_head w of
      None \<Rightarrow> \<exists>t \<in> set (w_heap w). stuck_timer t | Some w' \<Rightarrow> worker_inv w'"
proof (cases "w_Queue w")
  case Nil
  with assms show ?thesis by (simp add: dispatch_head_def)
next
  case (Cons e es)
  let ?w = "w\<lparr>w_Queue := es\<rparr>"
  have inv: "worker_inv ?w"
    using assms Cons by (auto simp: worker_inv_def pending_def split: Event.splits)
  show ?thesis
  proof (cases e)
    case (TimerObject p)
    then have "p < length (w_heap ?w)" "fresh_timer (w_heap ?w ! p)" "p \<notin> set (w_TimerList ?w)"
      "p \<notin> set (pending ?w)" "p \<in> set (w_fired ?w) \<Longrightarrow> t_Cyclic (w_heap ?w ! p)"
      using assms Cons by (auto simp: worker_inv_def pending_def)
    from StartTimer_ptr_inv [OF inv this] show ?thesis
      by (auto simp: dispatch_head_def Cons TimerObject split: option.splits)
  next
    case (TimerEvent ty i)
    then show ?thesis
      using StopTimer_inv [OF inv, of i] HandleCallback_inv [OF inv, of i] assms Cons inv
      by (cases ty) (auto simp: dispatch_head_def worker_inv_def [of w] split: option.splits)
  next
    case (Message i)
    with inv Cons show ?thesis by (simp add: dispatch_head_def)
  qed
qed

lemma inv_send:
  assumes "worker_inv w" "\<And>i. e \<noteq> TimerEvent TIMERSTART i"
    and "\<And>p. e = TimerObject p \<Longrightarrow> p < length (w_heap w) \<and> fresh_timer (w_heap w ! p) \<and>
      p \<notin> set (w_TimerList w) \<and> p \<notin> set (pending w) \<and> p \<notin> set (w_fired w)"
  shows "worker_inv (SendEvent e w)"
  using assms by (auto simp: SendEvent_def worker_inv_def pending_def split: Event.splits)

lemma inv_alloc:
  assumes "worker_inv w"
  shows "worker_inv (w\<lparr>w_heap := w_heap w @ [t]\<rparr>)"
proof -
  have "\<forall>p. p < length (w_heap w) \<longrightarrow> (w_heap w @ [t]) ! p = w_heap w ! p" by (simp add: nth_append)
  moreover have "map (\<lambda>p. t_id ((w_heap w @ [t]) ! p)) (w_TimerList w) = map (\<lambda>p. t_id (w_heap w ! p)) (w_TimerList w)"
    using assms by (auto simp: worker_inv_def nth_append)
  ultimately show ?thesis using assms
    by (simp add: worker_inv_def less_Suc_eq cong: map_cong)
qed

lemma env_step_inv:
  assumes "env_step w w'" "worker_inv w"
  shows "worker_inv w'"
  using assms
proof (cases rule: env_step.cases)
  case (start_timer entry cb)
  let ?w = "w\<lparr>w_heap := w_heap w @ [Timer_new entry cb]\<rparr>"
  have "worker_inv (SendEvent (TimerObject (length (w_heap w))) ?w)"
    using assms(2) by (intro inv_send inv_alloc) (auto simp: worker_inv_def Timer_new_def fresh_timer_def)
  then show ?thesis by (simp add: start_timer Worker_StartTimer_def Let_def)
next
  case (timeout p t e)
  then have t: "same_timer (w_heap w ! p) t" "e = TimerEvent TIMERCALLBACK (t_id (w_heap w ! p))"
    "t_Thread (w_heap w ! p) \<noteq> None" "live_timer (w_heap w ! p) \<Longrightarrow> live_timer t"
    by (auto simp: Timer_Run_timeout_def same_timer_def live_timer_def split: if_splits)
  then have "p \<notin> set (pending w)" using assms(2) by (auto simp: worker_inv_def fresh_timer_def)
  with t have "worker_inv (w\<lparr>w_heap := (w_heap w)[p := t]\<rparr>)"
    using assms(2) by (auto simp: worker_inv_def timer_update)
  then have "worker_inv (SendEvent e (w\<lparr>w_heap := (w_heap w)[p := t]\<rparr>))"
    by (rule inv_send) (simp_all add: t(2))
  then show ?thesis by (simp add: timeout)
next
  case (message i)
  with assms(2) show ?thesis by (auto intro: inv_send)
next
  case (stop_timer entry)
  with assms(2) show ?thesis by (auto intro!: inv_send simp: Worker_StopTimer_def)
qed (auto simp: worker_inv_def Worker_Start_def Worker_RequestStop_def Let_def)

lemma wstep_inv:
  assumes "wstep w w'" "worker_inv w"
  shows "worker_inv w'"
  using assms(1)
proof (cases rule: wstep.cases)
  case env
  then show ?thesis using assms(2) by (rule env_step_inv)
next
  case handle
  with dispatch_head_inv [OF assms(2)] show ?thesis by simp
qed

lemma worker_inv_reach:
  assumes "wstep\<^sup>*\<^sup>* Worker_new w"
  shows "worker_inv w"
  using assms
proof (induction rule: rtranclp_induct)
  case base
  show ?case by (simp add: worker_inv_def Worker_new_def pending_def)
next
  case (step w w')
  from wstep_inv [OF step.hyps(2) step.IH] show ?case .
qed




text \<open>
  When the dispatcher takes a start event for a timer with a non-zero id, that timer sleeps
  afterwards and is the one its id names; the timer that had the id is off the list, every other
  timer keeps its place.
\<close>

theorem start_event_replaces:
  assumes "wstep\<^sup>*\<^sup>* Worker_new w" and "w_Queue w = TimerObject p # es"
    and "t_id (w_heap w ! p) \<noteq> 0" and "dispatch_head w = Some w'"
  shows "w_TimerList w' = filter (\<lambda>q. t_id (w_heap w ! q) \<noteq> t_id (w_heap w ! p)) (w_TimerList w) @ [p] \<and>
         t_Thread (w_heap w' ! p) = Some Sleeping \<and> t_isRunning (w_heap w' ! p)"
proof -
  let ?w = "w\<lparr>w_Queue := es\<rparr>"
  note inv = worker_inv_reach [OF assms(1)]
  have "worker_inv ?w" "p < length (w_heap ?w)" "fresh_timer (w_heap ?w ! p)" "p \<notin> set (w_TimerList ?w)"
    "p \<notin> set (pending ?w)" "p \<in> set (w_fired ?w) \<Longrightarrow> t_Cyclic (w_heap ?w ! p)"
    using inv assms(2) by (auto simp: worker_inv_def pending_def)
  from StartTimer_ptr_inv [OF this] assms(2-4) show ?thesis
    by (auto simp: dispatch_head_def live_timer_def)
qed

text \<open>
  A callback event fires the timer its id names, once, and nothing when there is none; a one-shot
  timer then leaves the list, a cyclic one stays.
\<close>

theorem callback_event_fires:
  assumes "wstep\<^sup>*\<^sup>* Worker_new w" and "w_Queue w = TimerEvent TIMERCALLBACK i # es"
    and "dispatch_head w = Some w'"
  shows "case find (\<lambda>p. t_id (w_heap w ! p) = i) (w_TimerList w) of
      None \<Rightarrow> w' = w\<lparr>w_Queue := es\<rparr>
    | Some p \<Rightarrow> w_fired w' = w_fired w @ (if t_callback_set (w_heap w ! p) then [p] else []) \<and>
        w_TimerList w' = (if t_Cyclic (w_heap w ! p) then w_TimerList w
                          else filter (\<lambda>q. t_id (w_heap w ! q) \<noteq> i) (w_TimerList w))"
proof -
  have "worker_inv (w\<lparr>w_Queue := es\<rparr>)"
    using worker_inv_reach [OF assms(1)] assms(2) by (auto simp: worker_inv_def pending_def)
  from HandleCallback_inv [OF this, of i] assms(2,3) show ?thesis
    by (simp add: dispatch_head_def GetTimer_def called_back_def split: option.splits)
qed

section \<open>A concrete run\<close>

definition run_timer :: "bool \<Rightarrow> bool \<Rightarrow> thread_state option \<Rightarrow> mutex_state \<Rightarrow> Timer" where
  "run_timer cyclic running th m = \<lparr>t_id = 1, t_Cyclic = cyclic, t_isRunning = running, t_callback_set = True,
     t_Thread = th, t_Interval = 100, t_abortMutex = m\<rparr>"

definition run_worker :: "Event list \<Rightarrow> nat list \<Rightarrow> Timer list \<Rightarrow> nat list \<Rightarrow> Worker" where
  "run_worker q l h f = \<lparr>w_StopRequested = False, w_Thread = True, w_Queue = q, w_TimerList = l,
     w_heap = h, w_fired = f\<rparr>"

lemmas run_defs = run_timer_def run_worker_def Worker_StartTimer_def Worker_StopTimer_def SendEvent_def
  Timer_new_def dispatch_head_def Worker_StartTimer_ptr_def Worker_StopTimer_id_def GetTimer_def
  AddTimer_def RemoveTimer_def Timer_Start_def Timer_Stop_def HandleCallback_def Timer_InvokeCallback_def
  Timer_Run_timeout_def

lemma run_start: "wstep\<^sup>*\<^sup>* Worker_new (run_worker [] [] [] [])"
proof -
  have "env_step Worker_new (run_worker [] [] [] [])"
    using env_step.start [of Worker_new] by (simp add: Worker_Start_def Worker_new_def run_worker_def)
  then show ?thesis by (intro r_into_rtranclp wstep.env)
qed

lemma run_post_start:
  "wstep (run_worker q l h f)
     (run_worker (q @ [TimerObject (length h)]) l (h @ [run_timer cyclic False None Unlocked]) f)"
  using wstep.env [OF env_step.start_timer [of "run_worker q l h f"
      "\<lparr>getDuration = 100, getId = 1, isCyclic = cyclic, isAutostart = False\<rparr>" True]]
  by (simp add: run_defs)

lemma run_post_stop: "wstep (run_worker q l h f) (run_worker (q @ [TimerEvent TIMERSTOP 1]) l h f)"
  using wstep.env [OF env_step.stop_timer [of "run_worker q l h f"
      "\<lparr>getDuration = 100, getId = 1, isCyclic = True, isAutostart = False\<rparr>"]]
  by (simp add: run_defs)

lemma run_handle:
  "dispatch_head (run_worker q l h f) = Some w \<Longrightarrow> wstep (run_worker q l h f) w"
  by (rule wstep.handle) (simp_all add: run_worker_def)

lemma run_timeout:
  "p < length h \<Longrightarrow> h ! p = run_timer c r (Some Sleeping) m \<Longrightarrow> m \<noteq> Unlocked \<Longrightarrow>
   wstep (run_worker q l h f)
     (run_worker (q @ [TimerEvent TIMERCALLBACK 1]) l (h[p := run_timer c r (Some Exited) m]) f)"
  using wstep.env [OF env_step.timeout [of p "run_worker q l h f"]]
  by (simp add: run_defs)


text \<open>One timer is posted, started, and its interval runs out.\<close>

lemma run_posted:
  "wstep\<^sup>*\<^sup>* Worker_new (run_worker [TimerObject 0] [] [run_timer c False None Unlocked] [])"
  using rtranclp.rtrancl_into_rtrancl [OF run_start run_post_start [of "[]" "[]" "[]" "[]" c]] by simp

lemma run_running:
  "wstep\<^sup>*\<^sup>* Worker_new (run_worker [] [0] [run_timer c True (Some Sleeping) By_worker] [])"
  by (rule rtranclp.rtrancl_into_rtrancl [OF run_posted [of c] run_handle]) (simp add: run_defs)

lemma run_expired:
  "wstep\<^sup>*\<^sup>* Worker_new (run_worker [TimerEvent TIMERCALLBACK 1] [0] [run_timer c True (Some Exited) By_worker] [])"
  using rtranclp.rtrancl_into_rtrancl [OF run_running [of c] run_timeout [of 0]] by simp



theorem start_event_replaces_witness:
  "\<exists>w'. dispatch_head (run_worker [TimerObject 0] [] [run_timer True False None Unlocked] []) = Some w' \<and>
     w_TimerList w' = [0] \<and> t_Thread (w_heap w' ! 0) = Some Sleeping"
proof -
  have d: "dispatch_head (run_worker [TimerObject 0] [] [run_timer True False None Unlocked] []) =
      Some (run_worker [] [0] [run_timer True True (Some Sleeping) By_worker] [])" by (simp add: run_defs)
  from start_event_replaces [OF run_posted [of True] _ _ d] d show ?thesis
    by (simp add: run_worker_def run_timer_def)
qed

theorem callback_event_fires_witness:
  "\<exists>w'. dispatch_head (run_worker [TimerEvent TIMERCALLBACK 1] [0] [run_timer False True (Some Exited) By_worker] []) = Some w' \<and>
     w_fired w' = [0] \<and> w_TimerList w' = []"
proof -
  have d: "dispatch_head (run_worker [TimerEvent TIMERCALLBACK 1] [0] [run_timer False True (Some Exited) By_worker] []) =
      Some (run_worker [] [] [run_timer False False None Unlocked] [0])" by (simp add: run_defs)
  from callback_event_fires [OF run_expired [of False] _ d] d show ?thesis
    by (simp add: run_worker_def run_timer_def)
qed

section \<open>Stale callbacks\<close>

text \<open>
  A timer is stopped and started again while the callback of its first life is on its way: the queue
  then holds the stop, the start and the old callback.
\<close>

lemma run_stale:
  "wstep\<^sup>*\<^sup>* Worker_new (run_worker [TimerEvent TIMERCALLBACK 1] [1]
     [run_timer c False None Unlocked, run_timer c True (Some Sleeping) By_worker] [])"
proof -
  let ?t = "run_timer c True (Some Sleeping) By_worker" and ?n = "run_timer c False None Unlocked"
    and ?x = "run_timer c True (Some Exited) By_worker"
  note step = rtranclp.rtrancl_into_rtrancl
  have "wstep\<^sup>*\<^sup>* Worker_new (run_worker [TimerEvent TIMERSTOP 1] [0] [?t] [])"
    using step [OF run_running [of c] run_post_stop] by simp
  then have "wstep\<^sup>*\<^sup>* Worker_new (run_worker [TimerEvent TIMERSTOP 1, TimerObject 1] [0] [?t, ?n] [])"
    by (rule step) (use run_post_start [of "[TimerEvent TIMERSTOP 1]" "[0]" "[?t]" "[]" c] in simp)
  then have "wstep\<^sup>*\<^sup>* Worker_new (run_worker [TimerEvent TIMERSTOP 1, TimerObject 1, TimerEvent TIMERCALLBACK 1] [0] [?x, ?n] [])"
    by (rule step) (use run_timeout [of 0 "[?t, ?n]" c True By_worker
        "[TimerEvent TIMERSTOP 1, TimerObject 1]" "[0]" "[]"] in simp)
  then have "wstep\<^sup>*\<^sup>* Worker_new (run_worker [TimerObject 1, TimerEvent TIMERCALLBACK 1] [] [?n, ?n] [])"
    by (rule step) (rule run_handle, simp add: run_defs)
  then show ?thesis
    by (rule step) (rule run_handle, simp add: run_defs)
qed

text \<open>
  The stale callback fires the new timer while its interval still runs, and a cyclic timer that was
  fired like this is left with a mutex that a dead thread owns: when its interval has run out, the
  next callback unlocks a mutex the worker does not own, which is undefined.
\<close>

theorem stale_callback_fires_and_breaks:
  "\<exists>w w'. wstep\<^sup>*\<^sup>* Worker_new w \<and> w_Queue w = [TimerEvent TIMERCALLBACK 1] \<and>
     t_Thread (w_heap w ! 1) = Some Sleeping \<and> dispatch_head w = Some w' \<and> w_fired w' = [1] \<and>
     (\<exists>u. wstep\<^sup>*\<^sup>* w' u \<and> dispatch_head u = None)"
proof -
  let ?w = "run_worker [TimerEvent TIMERCALLBACK 1] [1]
     [run_timer True False None Unlocked, run_timer True True (Some Sleeping) By_worker] []"
  let ?w' = "run_worker [] [1]
     [run_timer True False None Unlocked, run_timer True True (Some Sleeping) By_timer_thread] [1]"
  let ?u = "run_worker [TimerEvent TIMERCALLBACK 1] [1]
     [run_timer True False None Unlocked, run_timer True True (Some Exited) By_timer_thread] [1]"
  have "dispatch_head ?w = Some ?w'" by (simp add: run_defs)
  moreover have "wstep ?w' ?u"
    using run_timeout [of 1 "[run_timer True False None Unlocked, run_timer True True (Some Sleeping) By_timer_thread]"
        True True By_timer_thread "[]" "[1]" "[1]"] by simp
  moreover have "dispatch_head ?u = None" by (simp add: run_defs)
  ultimately show ?thesis using run_stale [of True]
    by (intro exI [of _ ?w] exI [of _ ?w'] conjI exI [of _ ?u]) (auto simp: run_worker_def run_timer_def)
qed

section \<open>The dispatcher's thread\<close>

text \<open>
  \<open>Run\<close> and \<open>DefaultEventDispatcher\<close>: the stop flag is read only between events, the wait for a
  non-empty queue does not look at it. The counter is the number of events taken.
\<close>

datatype dispatcher_pc = Checking | Waiting | Finished

inductive dispatcher_step :: "dispatcher_pc \<times> Worker \<times> nat \<Rightarrow> dispatcher_pc \<times> Worker \<times> nat \<Rightarrow> bool" where
  leave: "w_StopRequested w \<Longrightarrow> dispatcher_step (Checking, w, n) (Finished, w, n)"
| sleep: "\<not> w_StopRequested w \<Longrightarrow> w_Queue w = [] \<Longrightarrow> dispatcher_step (Checking, w, n) (Waiting, w, n)"
| take_event: "\<not> w_StopRequested w \<Longrightarrow> w_Queue w \<noteq> [] \<Longrightarrow> dispatch_head w = Some w' \<Longrightarrow>
    dispatcher_step (Checking, w, n) (Checking, w', n + 1)"
| wake: "w_Queue w \<noteq> [] \<Longrightarrow> dispatch_head w = Some w' \<Longrightarrow>
    dispatcher_step (Waiting, w, n) (Checking, w', n + 1)"
| others: "env_step w w' \<Longrightarrow> dispatcher_step (pc, w, n) (pc, w', n)"

inductive_cases dispatcher_stepE: "dispatcher_step (pc, w, n) s"

text \<open>
  A stop request cannot be lost once it stands: the dispatcher handles at most one more event, none
  if it was about to look at the flag.
\<close>

theorem stop_request_bounds_events:
  assumes "(\<lambda>s s'. dispatcher_step s s' \<and> w_StopRequested (fst (snd s')))\<^sup>*\<^sup>* (pc, w, n) (pc', w', n')"
    and "w_StopRequested w"
  shows "n' \<le> n + 1 \<and> (pc \<noteq> Waiting \<longrightarrow> n' = n)"
proof -
  have "w_StopRequested w' \<and> (case pc of
      Waiting \<Rightarrow> n' = n \<and> pc' = Waiting \<or> n' = n + 1 \<and> pc' \<noteq> Waiting
    | _ \<Rightarrow> n' = n \<and> pc' \<noteq> Waiting)"
    using assms(1)
  proof (induction "(pc', w', n')" arbitrary: pc' w' n' rule: rtranclp_induct)
    case base
    with assms(2) show ?case by (cases pc) auto
  next
    case (step s)
    obtain q v m where s: "s = (q, v, m)" by (cases s) auto
    from step.hyps(2) have "w_StopRequested w'" and d: "dispatcher_step (q, v, m) (pc', w', n')"
      by (simp_all add: s)
    with step.hyps(3) [OF s] show ?case
      by (elim conjE, erule_tac dispatcher_stepE) (auto split: dispatcher_pc.splits)
  qed
  then show ?thesis by (cases pc) auto
qed

text \<open>
  \<open>StopWithJoin\<close>: the request, and the join, which returns once the dispatcher has left its loop; \<open>None\<close>
  is a caller that waits.
\<close>

definition StopWithJoin_request :: "Worker \<Rightarrow> Worker" where
  "StopWithJoin_request w = (if w_Thread w then Worker_RequestStop w else w)"

definition StopWithJoin_join :: "dispatcher_pc \<Rightarrow> Worker \<Rightarrow> Worker option" where
  "StopWithJoin_join pc w =
     (if w_Thread w then (if pc = Finished then Some (w\<lparr>w_Thread := False\<rparr>) else None) else Some w)"

text \<open>A dispatcher about to look at the flag is joined after one step of its own.\<close>

lemma StopWithJoin_of_busy_worker:
  assumes "w_Thread w"
  shows "\<exists>w'. dispatcher_step (Checking, StopWithJoin_request w, n) (Finished, StopWithJoin_request w, n) \<and>
    StopWithJoin_join Finished (StopWithJoin_request w) = Some w' \<and> \<not> w_Thread w' \<and> w_StopRequested w'"
  using assms by (auto simp: StopWithJoin_request_def StopWithJoin_join_def Worker_RequestStop_def intro: dispatcher_step.leave)

text \<open>
  A stop request never wakes an idle dispatcher: as long as nobody sends an event, a dispatcher that
  waits goes on waiting however often the stop is requested, so the join in \<open>StopWithJoin\<close> waits
  with it.
\<close>

theorem stop_never_wakes_idle_worker:
  assumes "(\<lambda>s s'. dispatcher_step s s' \<and> w_Queue (fst (snd s')) = [])\<^sup>*\<^sup>* (Waiting, w, n) (pc', w', n')"
    and "w_Queue w = []"
  shows "pc' = Waiting \<and> n' = n"
proof -
  have "pc' = Waiting \<and> n' = n \<and> w_Queue w' = []"
    using assms(1)
  proof (induction "(pc', w', n')" arbitrary: pc' w' n' rule: rtranclp_induct)
    case base
    with assms(2) show ?case by simp
  next
    case (step s)
    obtain q v m where s: "s = (q, v, m)" by (cases s) auto
    from step.hyps(2) step.hyps(3) [OF s] show ?case
      unfolding s by (auto elim: dispatcher_stepE)
  qed
  then show ?thesis by simp
qed


definition idle_worker :: Worker where
  "idle_worker = run_worker [] [] [] []"

lemma idle_stop_request:
  "(\<lambda>s s'. dispatcher_step s s' \<and> w_Queue (fst (snd s')) = [])\<^sup>*\<^sup>*
     (Waiting, idle_worker, 0) (Waiting, Worker_RequestStop idle_worker, 0)"
  by (intro r_into_rtranclp conjI dispatcher_step.others env_step.request_stop)
     (simp add: idle_worker_def run_worker_def Worker_RequestStop_def)

theorem stop_never_wakes_idle_worker_witness:
  "w_StopRequested (Worker_RequestStop idle_worker) \<and>
   (\<exists>s. (\<lambda>s s'. dispatcher_step s s' \<and> w_Queue (fst (snd s')) = [])\<^sup>*\<^sup>* (Waiting, idle_worker, 0 :: nat) s \<and>
        fst s = Waiting)"
  using stop_never_wakes_idle_worker [OF idle_stop_request] idle_stop_request
  by (auto simp: idle_worker_def run_worker_def Worker_RequestStop_def)

theorem stop_request_bounds_events_witness:
  "\<exists>w. (\<lambda>s s'. dispatcher_step s s' \<and> w_StopRequested (fst (snd s')))\<^sup>*\<^sup>*
      (Checking, Worker_RequestStop idle_worker, 3) (Finished, w, 3) \<and> (3 :: nat) \<le> 3 + 1"
proof -
  have run: "(\<lambda>s s'. dispatcher_step s s' \<and> w_StopRequested (fst (snd s')))\<^sup>*\<^sup>*
      (Checking, Worker_RequestStop idle_worker, 3) (Finished, Worker_RequestStop idle_worker, 3)"
    by (intro r_into_rtranclp conjI dispatcher_step.leave) (simp_all add: Worker_RequestStop_def)
  from stop_request_bounds_events [OF run] run show ?thesis
    by (auto simp: Worker_RequestStop_def)
qed

end
