(* ===== verification/Worker_Threads.thy ===== *)
theory Worker_Threads
  imports Timer_Worker
begin

text \<open>
  The threads of a worker: \<open>Run\<close> with its own test of the stop flag around \<open>Loop\<close>, and what
  \<open>Start\<close>, \<open>Stop\<close>, \<open>StopWithJoin\<close> and the destructor do to the thread that runs it. \<open>Stop\<close> detaches
  the thread, so a worker that is started again may have two; \<open>StopWithJoin\<close> waits for the end of the
  thread, and then there is at most one.
\<close>

section \<open>Destructors and queries\<close>

text \<open>\<open>join\<close> on a timer's thread that still sleeps has not returned: \<open>None\<close>.\<close>

definition Timer_destroy :: "Timer \<Rightarrow> Timer option" where
  "Timer_destroy t =
     (case t_Thread t of
        None \<Rightarrow> Some t
      | Some Sleeping \<Rightarrow> None
      | Some Exited \<Rightarrow> Some (t\<lparr>t_Thread := None\<rparr>))"

definition IsActive :: "Timer \<Rightarrow> bool" where
  "IsActive t \<longleftrightarrow> t_isRunning t"

definition Worker_destroy :: "Worker \<Rightarrow> Worker" where
  "Worker_destroy w = Worker_Stop w"

definition StopRequested :: "Worker \<Rightarrow> bool" where
  "StopRequested w \<longleftrightarrow> w_StopRequested w"

definition HandleMessage :: "u32 \<Rightarrow> Worker \<Rightarrow> Worker" where
  "HandleMessage msg w = w"

section \<open>The thread's function\<close>

text \<open>A thread is at the test of \<open>Run\<close>, inside \<open>Loop\<close>, or has returned from \<open>Run\<close>.\<close>

datatype run_pc = In_run | In_loop dispatcher_pc | Ended

text \<open>
  Steps of the thread itself; a step of \<open>dispatcher_step\<close> that moves neither the position nor the count
  of events is one of another thread.
\<close>

inductive run_step :: "run_pc \<times> Worker \<Rightarrow> run_pc \<times> Worker \<Rightarrow> bool" where
  finish: "StopRequested w \<Longrightarrow> run_step (In_run, w) (Ended, w)"
| enter: "\<not> StopRequested w \<Longrightarrow> run_step (In_run, w) (In_loop Checking, w)"
| in_loop: "dispatcher_step (pc, w, 0) (pc', w', n) \<Longrightarrow> (pc', n) \<noteq> (pc, 0) \<Longrightarrow> run_step (In_loop pc, w) (In_loop pc', w')"
| return: "run_step (In_loop Finished, w) (In_run, w)"

text \<open>
  A worker and all the threads that were ever created for it. \<open>detaching\<close>: whether \<open>Stop\<close> and the
  destructor are used. The calls of \<open>StopWithJoin\<close> are its request and its join, which returns when
  the last thread has ended. Other threads send events.
\<close>

inductive threads_step :: "bool \<Rightarrow> run_pc list \<times> Worker \<Rightarrow> run_pc list \<times> Worker \<Rightarrow> bool" for detaching where
  run: "i < length ts \<Longrightarrow> run_step (ts ! i, w) (t, w') \<Longrightarrow> threads_step detaching (ts, w) (ts[i := t], w')"
| start: "Worker_Start w = (created, w') \<Longrightarrow>
    threads_step detaching (ts, w) (if created then ts @ [In_run] else ts, w')"
| stop: "detaching \<Longrightarrow> threads_step detaching (ts, w) (ts, Worker_Stop w)"
| request: "threads_step detaching (ts, w) (ts, StopWithJoin_request w)"
| join: "w_Thread w \<Longrightarrow> ts \<noteq> [] \<Longrightarrow> last ts = Ended \<Longrightarrow> threads_step detaching (ts, w) (ts, w\<lparr>w_Thread := False\<rparr>)"
| send: "threads_step detaching (ts, w) (ts, SendEvent e w)"

definition running :: "run_pc list \<Rightarrow> nat" where
  "running ts = length (filter (\<lambda>t. t \<noteq> Ended) ts)"

section \<open>One thread\<close>

lemma dispatch_thread:
  assumes "dispatch_head w = Some w'"
  shows "w_Thread w' = w_Thread w"
proof (cases "w_Queue w")
  case (Cons e es)
  have stop: "Worker_StopTimer_id i v = Some (b, v') \<Longrightarrow> w_Thread v' = w_Thread v" for i v b v'
    by (auto simp: Worker_StopTimer_id_def RemoveTimer_def Let_def split: option.splits bind_splits)
  have start: "Worker_StartTimer_ptr p v = Some (b, v') \<Longrightarrow> w_Thread v' = w_Thread v" for p v b v'
    by (auto simp: Worker_StartTimer_ptr_def AddTimer_def Let_def split: option.splits bind_splits if_splits dest: stop)
  have callback: "HandleCallback i v = Some v' \<Longrightarrow> w_Thread v' = w_Thread v" for i v v'
    by (auto simp: HandleCallback_def Timer_InvokeCallback_def RemoveTimer_def Let_def
        split: option.splits bind_splits if_splits dest: stop start)
  show ?thesis
  proof (cases e)
    case (TimerObject p)
    with assms Cons show ?thesis by (auto simp: dispatch_head_def dest: start)
  next
    case (TimerEvent ty i)
    with assms Cons show ?thesis by (cases ty) (auto simp: dispatch_head_def dest: stop callback)
  next
    case (Message i)
    with assms Cons show ?thesis by (auto simp: dispatch_head_def)
  qed
qed (use assms in \<open>simp add: dispatch_head_def\<close>)

inductive_cases run_stepE: "run_step (t, w) (t', w')"
inductive_cases own_stepE: "dispatcher_step (pc, w, 0) (pc', w', n)"

lemma run_step_thread:
  assumes "run_step (t, w) (t', w')"
  shows "w_Thread w' = w_Thread w \<and> t \<noteq> Ended"
  using assms by (cases rule: run_stepE) (auto elim!: own_stepE dest: dispatch_thread)

text \<open>The pointer to the thread is set exactly while the last thread has not been joined.\<close>

definition one_thread :: "run_pc list \<times> Worker \<Rightarrow> bool" where
  "one_thread s \<longleftrightarrow> (case s of (ts, w) \<Rightarrow>
     if w_Thread w then ts \<noteq> [] \<and> (\<forall>t \<in> set (butlast ts). t = Ended) else \<forall>t \<in> set ts. t = Ended)"

lemma one_thread_step: "threads_step False s s' \<Longrightarrow> one_thread s \<Longrightarrow> one_thread s'"
proof (induction rule: threads_step.induct)
  case (run i ts w t w')
  from run_step_thread [OF run.hyps(2)] have same: "w_Thread w' = w_Thread w" and live: "ts ! i \<noteq> Ended" by auto
  with run.prems run.hyps(1) have th: "w_Thread w" "ts \<noteq> []" and dead: "\<forall>t \<in> set (butlast ts). t = Ended"
    by (auto simp: one_thread_def split: if_splits)
  have "i = length ts - 1"
  proof (rule ccontr)
    assume "i \<noteq> length ts - 1"
    with run.hyps(1) have "i < length (butlast ts)" by simp
    then have "ts ! i \<in> set (butlast ts)" by (metis nth_butlast nth_mem)
    with dead live show False by blast
  qed
  then have "butlast (ts[i := t]) = butlast ts" using th(2) by (simp add: butlast_list_update)
  with th dead same show ?case by (simp add: one_thread_def)
next
  case (start w created w' ts)
  then show ?case by (auto simp: one_thread_def Worker_Start_def Let_def split: if_splits)
next
  case (request ts w)
  then show ?case by (auto simp: one_thread_def StopWithJoin_request_def Worker_RequestStop_def)
next
  case (join w ts)
  then have "ts = butlast ts @ [Ended]" by (metis append_butlast_last_id)
  with join show ?case by (auto simp: one_thread_def) (metis Un_iff empty_iff insert_iff list.set(1) list.simps(15) set_append)
next
  case (send ts w e)
  then show ?case by (auto simp: one_thread_def SendEvent_def)
qed simp

lemma one_thread_reach: "(threads_step False)\<^sup>*\<^sup>* s s' \<Longrightarrow> one_thread s \<Longrightarrow> one_thread s'"
  by (induction rule: rtranclp_induct) (auto intro: one_thread_step)

lemma one_thread_running: "one_thread (ts, w) \<Longrightarrow> running ts \<le> (if w_Thread w then 1 else 0)"
proof (cases "w_Thread w")
  case True
  assume inv: "one_thread (ts, w)"
  with True have "ts = butlast ts @ [last ts]" and dead: "\<forall>t \<in> set (butlast ts). t = Ended" by (auto simp: one_thread_def)
  then have "running ts = length (filter (\<lambda>t. t \<noteq> Ended) (butlast ts @ [last ts]))" by (simp add: running_def)
  also have "\<dots> \<le> 1" using dead by (simp add: filter_empty_conv)
  finally show ?thesis using True by simp
qed (simp add: one_thread_def running_def filter_empty_conv)

text \<open>
  C26. However often a worker is started and stopped with \<open>StopWithJoin\<close>, in any interleaving with the steps
  of its thread, at most one thread runs its dispatcher, and none after the join.
\<close>

theorem joined_worker_has_one_thread:
  assumes "(threads_step False)\<^sup>*\<^sup>* ([], Worker_new) (ts, w)"
  shows "running ts \<le> (if w_Thread w then 1 else 0)"
  using one_thread_running [OF one_thread_reach [OF assms]] by (simp add: one_thread_def Worker_new_def)

section \<open>Two threads\<close>

text \<open>
  With \<open>Stop\<close> instead, two threads can dispatch the same queue at once: the first is detached while it
  waits for an event, and the next \<open>Start\<close> clears the stop request before that thread has seen it.
\<close>

definition started_worker :: Worker where
  "started_worker = run_worker [] [] [] []"

lemma start_worker: "Worker_Start Worker_new = (True, started_worker)"
  "Worker_Start (Worker_Stop started_worker) = (True, started_worker)"
  by (simp_all add: Worker_Start_def Worker_new_def started_worker_def run_worker_def Worker_Stop_def Worker_RequestStop_def)

lemma thread_waits:
  assumes "i < length ts" "ts ! i = In_run"
  shows "(threads_step d)\<^sup>*\<^sup>* (ts, started_worker) (ts[i := In_loop Waiting], started_worker)"
proof -
  have "run_step (In_run, started_worker) (In_loop Checking, started_worker)"
    by (rule run_step.enter) (simp add: StopRequested_def started_worker_def run_worker_def)
  moreover have "run_step (In_loop Checking, started_worker) (In_loop Waiting, started_worker)"
    by (rule run_step.in_loop [where n = 0]) (auto intro: dispatcher_step.sleep simp: started_worker_def run_worker_def)
  ultimately have "threads_step d (ts, started_worker) (ts[i := In_loop Checking], started_worker)"
    and "threads_step d (ts[i := In_loop Checking], started_worker) (ts[i := In_loop Waiting], started_worker)"
    using assms threads_step.run [of i ts started_worker] threads_step.run [of i "ts[i := In_loop Checking]" started_worker]
    by auto
  then show ?thesis by (meson converse_rtranclp_into_rtranclp r_into_rtranclp)
qed

theorem detached_worker_has_two_threads:
  "(threads_step True)\<^sup>*\<^sup>* ([], Worker_new) ([In_loop Waiting, In_loop Waiting], started_worker) \<and>
   running [In_loop Waiting, In_loop Waiting] = 2"
proof -
  have "threads_step True ([], Worker_new) ([In_run], started_worker)"
    using threads_step.start [OF start_worker(1), of True "[]"] by simp
  moreover have "(threads_step True)\<^sup>*\<^sup>* ([In_run], started_worker) ([In_loop Waiting], started_worker)"
    using thread_waits [of 0 "[In_run]"] by simp
  moreover have "threads_step True ([In_loop Waiting], started_worker) ([In_loop Waiting], Worker_Stop started_worker)"
    by (rule threads_step.stop) simp
  moreover have "threads_step True ([In_loop Waiting], Worker_Stop started_worker) ([In_loop Waiting, In_run], started_worker)"
    using threads_step.start [OF start_worker(2), of True "[In_loop Waiting]"] by simp
  moreover have "(threads_step True)\<^sup>*\<^sup>* ([In_loop Waiting, In_run], started_worker) ([In_loop Waiting, In_loop Waiting], started_worker)"
    using thread_waits [of 1 "[In_loop Waiting, In_run]"] by simp
  ultimately show ?thesis by (auto simp: running_def intro: converse_rtranclp_into_rtranclp rtranclp_trans)
qed

text \<open>A thread that was joined: the request, the last test of the flag, and the end.\<close>

lemma joined_run: "(threads_step False)\<^sup>*\<^sup>* ([], Worker_new) ([In_loop Waiting], started_worker)"
  using threads_step.start [OF start_worker(1), of False "[]"] thread_waits [of 0 "[In_run]" False]
  by (auto intro: converse_rtranclp_into_rtranclp)

theorem joined_worker_has_one_thread_witness:
  "running [In_loop Waiting] \<le> 1"
  using joined_worker_has_one_thread [OF joined_run] by (simp add: started_worker_def run_worker_def)

end
