(* ===== verification/Fsm_Handler.thy ===== *)
theory Fsm_Handler
  imports Prelude
begin

text \<open>
  \<open>FsmHandler\<close> (MLCommon/inc/Stm/FsmHandler.h): the table-driven state machine. The user's data
  \<open>'d\<close>, states \<open>'s\<close> and parameter pointers \<open>'p\<close> are the template's parameters. A guard and an
  action get the data by reference: a guard returns its verdict and the data, an action the data and
  the events it fires back into the same machine. \<open>None\<close> is a call that never returns:
  \<open>RunStateMachine\<close> loops for ever, or an action fires an event while \<open>fire_event\<close> holds
  \<open>_FsmMutex\<close>, which is not recursive. Deleted parameters are recorded.
\<close>

section \<open>The machine\<close>

definition ANY_EVENT :: int where
  "ANY_EVENT = - 1"

record ('d, 's, 'p) TransitionRow =
  StartState :: 's
  Event :: int
  fn :: "('d \<Rightarrow> 'p \<Rightarrow> 'd \<times> (int \<times> 'p) list) option"
  NextState :: 's
  conditionfn :: "('d \<Rightarrow> 'p \<Rightarrow> bool \<times> 'd) option"

record ('d, 's, 'p) FsmHandler =
  FsmData :: 'd
  CurrentState :: 's
  TransitionTable :: "('d, 's, 'p) TransitionRow list"
  EventQueue :: "(int \<times> 'p) list"
  IsPendingEvent :: bool
  IsInitialized :: bool
  deleted :: "'p list"

definition FsmHandler_new :: "('d, 's, 'p) TransitionRow list \<Rightarrow> 'd \<Rightarrow> 's \<Rightarrow> ('d, 's, 'p) FsmHandler" where
  "FsmHandler_new table data zero_state =
     \<lparr>FsmData = data, CurrentState = zero_state, TransitionTable = table, EventQueue = [],
      IsPendingEvent = False, IsInitialized = False, deleted = []\<rparr>"

definition SetCurrentState :: "'s \<Rightarrow> ('d, 's, 'p) FsmHandler \<Rightarrow> ('d, 's, 'p) FsmHandler" where
  "SetCurrentState s f = f\<lparr>CurrentState := s\<rparr>"

definition Initialize :: "'s \<Rightarrow> ('d, 's, 'p) FsmHandler \<Rightarrow> ('d, 's, 'p) FsmHandler" where
  "Initialize s f = (SetCurrentState s f)\<lparr>IsInitialized := True\<rparr>"

text \<open>The body of the loop for a row that is taken, and the loop over the table.\<close>

definition take_transition ::
  "('d, 's, 'p) TransitionRow \<Rightarrow> 'p \<Rightarrow> ('d, 's, 'p) FsmHandler \<Rightarrow> ('d, 's, 'p) FsmHandler option" where
  "take_transition row param f = do {
     let f = f\<lparr>IsPendingEvent := True\<rparr>;
     f \<leftarrow> (case fn row of
         None \<Rightarrow> Some f
       | Some a \<Rightarrow> (case a (FsmData f) param of
           (d, fired) \<Rightarrow> if fired = [] then Some (f\<lparr>FsmData := d\<rparr>) else None));
     let f = f\<lparr>IsPendingEvent := False\<rparr>;
     Some (f\<lparr>CurrentState := NextState row\<rparr>)
   }"

fun ProcessEvent_loop ::
  "('d, 's, 'p) TransitionRow list \<Rightarrow> int \<Rightarrow> 'p \<Rightarrow> ('d, 's, 'p) FsmHandler \<Rightarrow> (bool \<times> ('d, 's, 'p) FsmHandler) option" where
  "ProcessEvent_loop [] ev param f = Some (False, f)"
| "ProcessEvent_loop (row # rows) ev param f =
     (if CurrentState f = StartState row \<and> ev = Event row then
        (case conditionfn row of
           None \<Rightarrow> map_option (Pair True) (take_transition row param f)
         | Some c \<Rightarrow> (case c (FsmData f) param of (satisfied, d) \<Rightarrow>
             if satisfied then map_option (Pair True) (take_transition row param (f\<lparr>FsmData := d\<rparr>))
             else ProcessEvent_loop rows ev param (f\<lparr>FsmData := d\<rparr>)))
      else ProcessEvent_loop rows ev param f)"

definition ProcessEvent :: "int \<Rightarrow> 'p \<Rightarrow> ('d, 's, 'p) FsmHandler \<Rightarrow> (bool \<times> ('d, 's, 'p) FsmHandler) option" where
  "ProcessEvent ev param f = ProcessEvent_loop (TransitionTable f) ev param f"

definition PushAnyIfGuard :: "'p \<Rightarrow> ('d, 's, 'p) FsmHandler \<Rightarrow> bool \<times> ('d, 's, 'p) FsmHandler" where
  "PushAnyIfGuard rescue f =
     (if \<exists>row \<in> set (TransitionTable f). CurrentState f = StartState row \<and> Event row = ANY_EVENT
      then (True, f\<lparr>EventQueue := (ANY_EVENT, rescue) # EventQueue f\<rparr>)
      else (False, f))"

partial_function (option) RunStateMachine :: "('d, 's, 'p) FsmHandler \<Rightarrow> ('d, 's, 'p) FsmHandler option" where
  "RunStateMachine f =
     (case EventQueue f of
        [] \<Rightarrow> Some f
      | (ev, rescue) # q \<Rightarrow> do {
          (_, f) \<leftarrow> ProcessEvent ev rescue f;
          let f = f\<lparr>EventQueue := tl (EventQueue f)\<rparr>;
          let (guard, f) = PushAnyIfGuard rescue f;
          RunStateMachine (if \<not> guard then f\<lparr>deleted := deleted f @ [rescue]\<rparr> else f)
        })"

declare RunStateMachine.simps [code]

definition fire_event :: "int \<Rightarrow> 'p \<Rightarrow> ('d, 's, 'p) FsmHandler \<Rightarrow> ('d, 's, 'p) FsmHandler option" where
  "fire_event ev param f =
     (if IsInitialized f then
        let f = f\<lparr>EventQueue := EventQueue f @ [(ev, param)]\<rparr> in
        if \<not> IsPendingEvent f then RunStateMachine f else Some f
      else Some f)"

section \<open>One event\<close>

definition row_enabled :: "('d, 's, 'p) TransitionRow \<Rightarrow> 's \<Rightarrow> int \<Rightarrow> 'd \<Rightarrow> 'p \<Rightarrow> bool" where
  "row_enabled row s ev d param \<longleftrightarrow> s = StartState row \<and> ev = Event row \<and>
     (case conditionfn row of None \<Rightarrow> True | Some c \<Rightarrow> fst (c d param))"

definition pure_guards :: "('d, 's, 'p) TransitionRow list \<Rightarrow> bool" where
  "pure_guards rows \<longleftrightarrow> (\<forall>row \<in> set rows. \<forall>c d p. conditionfn row = Some c \<longrightarrow> snd (c d p) = d)"

definition quiet_actions :: "('d, 's, 'p) TransitionRow list \<Rightarrow> bool" where
  "quiet_actions rows \<longleftrightarrow> (\<forall>row \<in> set rows. \<forall>a d p. fn row = Some a \<longrightarrow> snd (a d p) = [])"

definition row_action :: "('d, 's, 'p) TransitionRow \<Rightarrow> 'd \<Rightarrow> 'p \<Rightarrow> 'd" where
  "row_action row d p = (case fn row of None \<Rightarrow> d | Some a \<Rightarrow> fst (a d p))"

text \<open>
  Tables whose completion transitions (\<open>ANY_EVENT\<close>) are unconditional and descend in some rank.
\<close>

definition any_descends :: "('s \<Rightarrow> nat) \<Rightarrow> ('d, 's, 'p) TransitionRow list \<Rightarrow> bool" where
  "any_descends rank rows \<longleftrightarrow>
     (\<forall>row \<in> set rows. Event row = ANY_EVENT \<longrightarrow> conditionfn row = None \<and> rank (NextState row) < rank (StartState row))"

lemma take_quiet:
  assumes "\<And>a d p. fn row = Some a \<Longrightarrow> snd (a d p) = []"
  shows "take_transition row param f = Some (f\<lparr>FsmData := row_action row (FsmData f) param,
           IsPendingEvent := False, CurrentState := NextState row\<rparr>)"
proof (cases "fn row")
  case None
  then show ?thesis by (simp add: take_transition_def row_action_def)
next
  case (Some a)
  obtain d fired where a: "a (FsmData f) param = (d, fired)" by fastforce
  with assms [OF Some, of "FsmData f" param] Some show ?thesis
    by (simp add: take_transition_def row_action_def)
qed

lemma ProcessEvent_loop_find:
  assumes "pure_guards rows"
  shows "ProcessEvent_loop rows ev param f =
    (case find (\<lambda>row. row_enabled row (CurrentState f) ev (FsmData f) param) rows of
       None \<Rightarrow> Some (False, f)
     | Some row \<Rightarrow> map_option (Pair True) (take_transition row param f))"
  using assms
proof (induction rows)
  case Nil
  show ?case by simp
next
  case (Cons row rows)
  then have IH: "ProcessEvent_loop rows ev param f =
    (case find (\<lambda>row. row_enabled row (CurrentState f) ev (FsmData f) param) rows of
       None \<Rightarrow> Some (False, f)
     | Some row \<Rightarrow> map_option (Pair True) (take_transition row param f))"
    by (simp add: pure_guards_def)
  show ?case
  proof (cases "conditionfn row")
    case None
    then show ?thesis by (simp add: IH row_enabled_def)
  next
    case (Some c)
    obtain b d where c: "c (FsmData f) param = (b, d)" by fastforce
    have "snd (c (FsmData f) param) = FsmData f" using Some Cons.prems(1) by (simp add: pure_guards_def)
    with c have "f\<lparr>FsmData := d\<rparr> = f" "d = FsmData f" by simp_all
    moreover have "row_enabled row (CurrentState f) ev (FsmData f) param \<longleftrightarrow>
        CurrentState f = StartState row \<and> ev = Event row \<and> b"
      using Some c by (simp add: row_enabled_def)
    ultimately show ?thesis using Some c IH
      by (cases "CurrentState f = StartState row \<and> ev = Event row"; cases b) auto
  qed
qed

text \<open>
  C4. An event takes the first row of the table that starts in the current state, names the event and
  whose guard, if any, holds: its action runs and its target becomes the current state. Without such
  a row the machine is left as it was. (The guards only read the data and no action fires events.)
\<close>

theorem ProcessEvent_first_enabled:
  assumes "pure_guards (TransitionTable f)" and "quiet_actions (TransitionTable f)"
  shows "ProcessEvent ev param f =
    (case find (\<lambda>row. row_enabled row (CurrentState f) ev (FsmData f) param) (TransitionTable f) of
       None \<Rightarrow> Some (False, f)
     | Some row \<Rightarrow> Some (True, f\<lparr>FsmData := row_action row (FsmData f) param, IsPendingEvent := False,
                                 CurrentState := NextState row\<rparr>))"
proof (cases "find (\<lambda>row. row_enabled row (CurrentState f) ev (FsmData f) param) (TransitionTable f)")
  case None
  then show ?thesis by (simp add: ProcessEvent_def ProcessEvent_loop_find [OF assms(1)])
next
  case (Some row)
  then have "row \<in> set (TransitionTable f)" by (auto simp: find_Some_iff)
  with assms(2) have "take_transition row param f = Some (f\<lparr>FsmData := row_action row (FsmData f) param,
      IsPendingEvent := False, CurrentState := NextState row\<rparr>)"
    by (intro take_quiet) (auto simp: quiet_actions_def)
  with Some show ?thesis by (simp add: ProcessEvent_def ProcessEvent_loop_find [OF assms(1)])
qed

text \<open>A turnstile with a guarded coin row; parameters are numbers.\<close>

definition turnstile :: "(nat, bool, nat) TransitionRow list" where
  "turnstile =
     [\<lparr>StartState = False, Event = 0, fn = Some (\<lambda>d p. (d + p, [])), NextState = True,
       conditionfn = Some (\<lambda>d p. (5 \<le> p, d))\<rparr>,
      \<lparr>StartState = True, Event = 1, fn = None, NextState = False, conditionfn = None\<rparr>]"

definition turnstile_fsm :: "(nat, bool, nat) FsmHandler" where
  "turnstile_fsm = Initialize False (FsmHandler_new turnstile 0 False)"

lemma turnstile_simps [simp]:
  "pure_guards turnstile" "quiet_actions turnstile" "TransitionTable turnstile_fsm = turnstile"
  "CurrentState turnstile_fsm = False" "FsmData turnstile_fsm = 0" "EventQueue turnstile_fsm = []"
  "any_descends rank turnstile" "IsInitialized turnstile_fsm" "deleted turnstile_fsm = []"
  "\<not> IsPendingEvent turnstile_fsm"
  by (auto simp: turnstile_fsm_def Initialize_def SetCurrentState_def FsmHandler_new_def pure_guards_def
      quiet_actions_def turnstile_def any_descends_def ANY_EVENT_def)

theorem ProcessEvent_first_enabled_witness:
  "ProcessEvent 0 7 turnstile_fsm =
     Some (True, turnstile_fsm\<lparr>FsmData := 7, IsPendingEvent := False, CurrentState := True\<rparr>)"
  using ProcessEvent_first_enabled [of turnstile_fsm 0 7]
  by simp (simp add: turnstile_def row_enabled_def row_action_def)

section \<open>Runs\<close>

text \<open>What one call of \<open>ProcessEvent\<close> keeps, whatever the guards do to the data.\<close>

definition processed ::
  "('d, 's, 'p) TransitionRow list \<Rightarrow> int \<Rightarrow> ('d, 's, 'p) FsmHandler \<Rightarrow> bool \<Rightarrow> ('d, 's, 'p) FsmHandler \<Rightarrow> bool" where
  "processed rows ev f b g \<longleftrightarrow>
     TransitionTable g = TransitionTable f \<and> EventQueue g = EventQueue f \<and> deleted g = deleted f \<and>
     (if b then \<exists>row \<in> set rows. StartState row = CurrentState f \<and> Event row = ev \<and> CurrentState g = NextState row
      else CurrentState g = CurrentState f \<and>
        (\<forall>row \<in> set rows. StartState row = CurrentState f \<and> Event row = ev \<longrightarrow> conditionfn row \<noteq> None))"

lemma ProcessEvent_quiet:
  "quiet_actions rows \<Longrightarrow> \<exists>b g. ProcessEvent_loop rows ev param f = Some (b, g) \<and> processed rows ev f b g"
proof (induction rows arbitrary: f)
  case Nil
  show ?case by (intro exI [of _ False] exI [of _ f]) (simp add: processed_def)
next
  case (Cons row rows)
  then have IH: "\<exists>b g. ProcessEvent_loop rows ev param f = Some (b, g) \<and> processed rows ev f b g" for f
    by (simp add: quiet_actions_def)
  have take: "take_transition row param g = Some (g\<lparr>FsmData := row_action row (FsmData g) param,
           IsPendingEvent := False, CurrentState := NextState row\<rparr>)" for g
    using Cons.prems by (intro take_quiet) (auto simp: quiet_actions_def)
  show ?case
  proof (cases "CurrentState f = StartState row \<and> ev = Event row")
    case False
    obtain b g where "ProcessEvent_loop rows ev param f = Some (b, g)" "processed rows ev f b g"
      using IH by blast
    with False show ?thesis by (auto simp: processed_def)
  next
    case True
    show ?thesis
    proof (cases "conditionfn row")
      case None
      with True show ?thesis by (auto simp: take processed_def)
    next
      case (Some c)
      obtain b d where c: "c (FsmData f) param = (b, d)" by fastforce
      obtain b' g where "ProcessEvent_loop rows ev param (f\<lparr>FsmData := d\<rparr>) = Some (b', g)"
        "processed rows ev (f\<lparr>FsmData := d\<rparr>) b' g"
        using IH by blast
      with True Some c show ?thesis by (auto simp: take processed_def)
    qed
  qed
qed


text \<open>One turn: the parameter goes on with a completion event, or it is deleted.\<close>

definition has_completion :: "('d, 's, 'p) TransitionRow list \<Rightarrow> 's \<Rightarrow> bool" where
  "has_completion rows s \<longleftrightarrow> (\<exists>row \<in> set rows. s = StartState row \<and> Event row = ANY_EVENT)"

lemma RunStateMachine_turn:
  assumes "EventQueue f = (ev, rescue) # q" "ProcessEvent ev rescue f = Some (b, g)" "processed (TransitionTable f) ev f b g"
  shows "RunStateMachine f = RunStateMachine
    (if has_completion (TransitionTable f) (CurrentState g) then g\<lparr>EventQueue := (ANY_EVENT, rescue) # q\<rparr>
     else g\<lparr>EventQueue := q, deleted := deleted f @ [rescue]\<rparr>)"
proof -
  have t: "TransitionTable g = TransitionTable f" "EventQueue g = EventQueue f" "deleted g = deleted f"
    using assms(3) by (simp_all add: processed_def)
  have "PushAnyIfGuard rescue (g\<lparr>EventQueue := q\<rparr>) =
      (if has_completion (TransitionTable f) (CurrentState g) then (True, g\<lparr>EventQueue := (ANY_EVENT, rescue) # q\<rparr>)
       else (False, g\<lparr>EventQueue := q\<rparr>))"
    by (auto simp: PushAnyIfGuard_def t has_completion_def)
  then show ?thesis using assms(1,2) t by (subst RunStateMachine.simps) (simp add: Let_def)
qed




section \<open>Runs that never return\<close>

text \<open>
  C39. A completion transition whose guard does not hold is tried again for ever: when every
  \<open>ANY_EVENT\<close> row of the current state is guarded and no guard holds, the pending completion event is
  taken off the queue, not handled, and pushed back, so \<open>RunStateMachine\<close> never returns.
\<close>

theorem blocked_completion_never_returns:
  assumes "pure_guards (TransitionTable f)" and "quiet_actions (TransitionTable f)"
    and "EventQueue f = (ANY_EVENT, param) # q"
    and "\<exists>row \<in> set (TransitionTable f). StartState row = CurrentState f \<and> Event row = ANY_EVENT"
    and "\<forall>row \<in> set (TransitionTable f). \<not> row_enabled row (CurrentState f) ANY_EVENT (FsmData f) param"
  shows "RunStateMachine f = None"
proof (rule ccontr)
  assume "RunStateMachine f \<noteq> None"
  then obtain g where g: "RunStateMachine f = Some g" by blast
  have none: "find (\<lambda>row. row_enabled row (CurrentState f) ANY_EVENT (FsmData f) param) (TransitionTable f) = None"
    using assms(5) by (auto simp: find_None_iff)
  have pe: "ProcessEvent ANY_EVENT param f = Some (False, f)"
    unfolding ProcessEvent_def ProcessEvent_loop_find [OF assms(1)] none by simp
  have push: "PushAnyIfGuard param (f\<lparr>EventQueue := q\<rparr>) = (True, f)"
  proof -
    have "f\<lparr>EventQueue := (ANY_EVENT, param) # q\<rparr> = f" by (simp flip: assms(3))
    moreover have "\<exists>row \<in> set (TransitionTable f). CurrentState f = StartState row \<and> Event row = ANY_EVENT"
      using assms(4) by metis
    ultimately show ?thesis by (simp add: PushAnyIfGuard_def)
  qed
  have "f \<noteq> f"
  proof (rule RunStateMachine.raw_induct [where P = "\<lambda>h r. h \<noteq> f", OF _ g], goal_cases)
    case (1 F h r)
    show ?case
    proof
      assume "h = f"
      with 1(2) have "F f = Some r" by (simp add: assms(3) pe push Let_def)
      then show False using 1(1) by blast
    qed
  qed
  then show False by simp
qed


definition guarded_exit :: "(nat, bool, nat) TransitionRow list" where
  "guarded_exit = [\<lparr>StartState = True, Event = ANY_EVENT, fn = None, NextState = False,
     conditionfn = Some (\<lambda>d p. (d = 1, d))\<rparr>]"

theorem blocked_completion_never_returns_witness:
  "RunStateMachine ((FsmHandler_new guarded_exit 0 True)\<lparr>EventQueue := [(ANY_EVENT, 3)]\<rparr>) = None"
  by (rule blocked_completion_never_returns)
     (auto simp: FsmHandler_new_def guarded_exit_def pure_guards_def quiet_actions_def row_enabled_def)

text \<open>
  An action that fires an event into its own machine deadlocks: \<open>fire_event\<close> still holds the
  mutex when the action calls it again, so the test of \<open>_IsPendingEvent\<close> that would only queue the
  event is never reached.
\<close>

theorem reentrant_fire_event_deadlocks:
  assumes "pure_guards (TransitionTable f)" and "IsInitialized f" and "\<not> IsPendingEvent f" and "EventQueue f = []"
    and "find (\<lambda>row. row_enabled row (CurrentState f) ev (FsmData f) param) (TransitionTable f) = Some row"
    and "fn row = Some a" and "snd (a (FsmData f) param) \<noteq> []"
  shows "fire_event ev param f = None"
proof -
  let ?f = "f\<lparr>EventQueue := [(ev, param)]\<rparr>"
  obtain d fired where a: "a (FsmData f) param = (d, fired)" by fastforce
  have "ProcessEvent_loop (TransitionTable ?f) ev param ?f = None"
    using assms(1,5-7) a by (simp add: ProcessEvent_loop_find take_transition_def)
  then have "ProcessEvent ev param ?f = None" by (simp add: ProcessEvent_def)
  then have "RunStateMachine ?f = None" by (subst RunStateMachine.simps) simp
  then show ?thesis using assms(2-4) by (simp add: fire_event_def)
qed

theorem reentrant_fire_event_deadlocks_witness:
  "fire_event 0 3 (Initialize True (FsmHandler_new [\<lparr>StartState = True, Event = 0,
     fn = Some (\<lambda>d p. (d, [(1, p)])), NextState = False, conditionfn = None\<rparr>] (0 :: nat) False)) = (None :: (nat, bool, nat) FsmHandler option)"
  by (rule reentrant_fire_event_deadlocks)
     (auto simp: Initialize_def SetCurrentState_def FsmHandler_new_def pure_guards_def row_enabled_def)

end
