(* ===== verification/Ticker_Thread.thy ===== *)
theory Ticker_Thread
  imports Prelude
begin

text \<open>
  \<open>Ticker\<close> (MLCommon/inc/Tools/Ticker.h): a detached thread calls a function at an interval. The
  thread's program is the field \<open>tk_pc\<close> (\<open>None\<close> when there is no thread); a call of a member
  function and a step of the thread are atomic steps in any order, and how long a wait takes is left
  open. \<open>tk_fired\<close> counts the calls of the function since the last \<open>Start\<close> that took effect.
\<close>

section \<open>The object\<close>

datatype ticker_pc = Loop_head | Waiting | Leaving

record Ticker =
  mFunction :: bool
  mInterval :: int
  mSingleShot :: bool
  mStopRequested :: bool
  mRunning :: bool
  tk_pc :: "ticker_pc option"
  tk_fired :: nat

definition Ticker_new :: "bool \<Rightarrow> bool \<Rightarrow> Ticker" where
  "Ticker_new fn singleShot = \<lparr>mFunction = fn, mInterval = 0, mSingleShot = singleShot,
     mStopRequested = False, mRunning = False, tk_pc = None, tk_fired = 0\<rparr>"

definition SetFunction :: "bool \<Rightarrow> Ticker \<Rightarrow> Ticker" where
  "SetFunction fn t = (if mRunning t then t else t\<lparr>mFunction := fn\<rparr>)"

definition SetSingleShot :: "bool \<Rightarrow> Ticker \<Rightarrow> Ticker" where
  "SetSingleShot b t = (if mRunning t then t else t\<lparr>mSingleShot := b\<rparr>)"

text \<open>\<open>duration_cast\<close> to seconds truncates toward zero; the argument is in milliseconds.\<close>

definition SetInterval :: "int \<Rightarrow> Ticker \<Rightarrow> Ticker" where
  "SetInterval ms t =
     (if mRunning t then t else t\<lparr>mInterval := (if 0 \<le> ms then ms div 1000 else - (- ms div 1000))\<rparr>)"

definition Start :: "Ticker \<Rightarrow> Ticker" where
  "Start t =
     (if mRunning t then t
      else if \<not> mFunction t then t
      else if mInterval t = 0 then t
      else t\<lparr>mRunning := True, mStopRequested := False, tk_pc := Some Loop_head, tk_fired := 0\<rparr>)"

definition Stop :: "Ticker \<Rightarrow> Ticker" where
  "Stop t = (if \<not> mRunning t then t else t\<lparr>mStopRequested := True\<rparr>)"

text \<open>One step of the thread: the loop condition, the body after the wait, and the end.\<close>

definition thread_step :: "Ticker \<Rightarrow> Ticker" where
  "thread_step t =
     (case tk_pc t of
        None \<Rightarrow> t
      | Some Loop_head \<Rightarrow> t\<lparr>tk_pc := Some (if \<not> mStopRequested t then Waiting else Leaving)\<rparr>
      | Some Waiting \<Rightarrow>
          if mStopRequested t then t\<lparr>tk_pc := Some Leaving\<rparr>
          else let t = t\<lparr>tk_fired := tk_fired t + 1\<rparr> in
            if mSingleShot t then (Stop t)\<lparr>tk_pc := Some Leaving\<rparr>
            else t\<lparr>tk_pc := Some Loop_head\<rparr>
      | Some Leaving \<Rightarrow> t\<lparr>mRunning := False, tk_pc := None\<rparr>)"

datatype ticker_call = Call_SetFunction bool | Call_SetSingleShot bool | Call_SetInterval int
  | Call_Start | Call_Stop | Thread

fun ticker_step :: "ticker_call \<Rightarrow> Ticker \<Rightarrow> Ticker" where
  "ticker_step (Call_SetFunction b) t = SetFunction b t"
| "ticker_step (Call_SetSingleShot b) t = SetSingleShot b t"
| "ticker_step (Call_SetInterval ms) t = SetInterval ms t"
| "ticker_step Call_Start t = Start t"
| "ticker_step Call_Stop t = Stop t"
| "ticker_step Thread t = thread_step t"

section \<open>Every interleaving\<close>

definition ticker_inv :: "Ticker \<Rightarrow> bool" where
  "ticker_inv t \<longleftrightarrow>
     (mRunning t \<longleftrightarrow> tk_pc t \<noteq> None) \<and>
     (mRunning t \<longrightarrow> mFunction t \<and> mInterval t \<noteq> 0 \<and>
        (mSingleShot t \<longrightarrow> tk_fired t \<le> 1 \<and> (0 < tk_fired t \<longrightarrow> tk_pc t = Some Leaving)))"

lemmas ticker_defs = SetFunction_def SetSingleShot_def SetInterval_def Start_def Stop_def thread_step_def

lemma ticker_inv_step: "ticker_inv t \<Longrightarrow> ticker_inv (ticker_step c t)"
  by (cases c) (auto simp: ticker_inv_def ticker_defs Let_def split: option.splits ticker_pc.splits)

lemma ticker_inv_run: "ticker_inv t \<Longrightarrow> ticker_inv (fold ticker_step cs t)"
  by (induction cs arbitrary: t) (auto intro: ticker_inv_step)

text \<open>
  In every interleaving a ticker runs exactly as long as its thread exists, there is never a second
  thread, it never runs without a function or with a zero interval, and while it runs a single-shot
  ticker has called its function at most once.
\<close>

theorem ticker_single_thread:
  "(let t = fold ticker_step cs (Ticker_new fn singleShot) in
      mRunning t = (tk_pc t \<noteq> None) \<and>
      (if mRunning t then mFunction t \<and> mInterval t \<noteq> 0 \<and> (if mSingleShot t then tk_fired t \<le> 1 else True)
       else True))"
proof -
  have "ticker_inv (Ticker_new fn singleShot)" by (simp add: ticker_inv_def Ticker_new_def)
  from ticker_inv_run [OF this, of cs] show ?thesis by (auto simp: ticker_inv_def Let_def)
qed

lemma stopped_step:
  assumes "mStopRequested t" "mRunning t" "ticker_inv t" "c \<noteq> Call_Start"
  shows "tk_fired (ticker_step c t) = tk_fired t \<and> mStopRequested (ticker_step c t)"
  using assms
  by (cases c) (auto simp: ticker_inv_def ticker_defs Let_def split: option.splits ticker_pc.splits)

lemma idle_step:
  assumes "\<not> mRunning t" "ticker_inv t" "c \<noteq> Call_Start"
  shows "tk_fired (ticker_step c t) = tk_fired t \<and> \<not> mRunning (ticker_step c t)"
  using assms
  by (cases c) (auto simp: ticker_inv_def ticker_defs Let_def split: option.splits ticker_pc.splits)

text \<open>
  After \<open>Stop\<close> the function is not called again before the next \<open>Start\<close>, wherever the thread was
  and whatever else is called.
\<close>

theorem ticker_stop_is_final:
  assumes "Call_Start \<notin> set ds"
  shows "tk_fired (fold ticker_step ds (Stop (fold ticker_step cs (Ticker_new fn singleShot)))) =
         tk_fired (fold ticker_step cs (Ticker_new fn singleShot))"
proof -
  let ?t = "fold ticker_step cs (Ticker_new fn singleShot)"
  have inv: "ticker_inv ?t" by (rule ticker_inv_run) (simp add: ticker_inv_def Ticker_new_def)
  have keep: "tk_fired (fold ticker_step ds t) = tk_fired t"
    if "ticker_inv t" "mRunning t \<longrightarrow> mStopRequested t" for t
    using assms that
  proof (induction ds arbitrary: t)
    case Nil
    then show ?case by simp
  next
    case (Cons d ds)
    have "tk_fired (ticker_step d t) = tk_fired t \<and>
        (mRunning (ticker_step d t) \<longrightarrow> mStopRequested (ticker_step d t))"
      using stopped_step [of t d] idle_step [of t d] Cons.prems by (cases "mRunning t") auto
    with Cons.IH [OF _ ticker_inv_step [OF Cons.prems(2)]] Cons.prems(1) show ?case by simp
  qed
  have "tk_fired (fold ticker_step ds (Stop ?t)) = tk_fired (Stop ?t)"
    using ticker_inv_step [OF inv, of Call_Stop] by (intro keep) (auto simp: Stop_def)
  then show ?thesis by (simp add: Stop_def)
qed

theorem ticker_stop_is_final_witness:
  "tk_fired (fold ticker_step [Thread, Thread, Call_SetInterval 500, Thread]
     (Stop (fold ticker_step [Call_SetInterval 2000, Call_Start, Thread, Thread, Thread] (Ticker_new True False)))) = 1"
  using ticker_stop_is_final [of "[Thread, Thread, Call_SetInterval 500, Thread]"
      "[Call_SetInterval 2000, Call_Start, Thread, Thread, Thread]" True False]
  by (simp add: ticker_defs Ticker_new_def)

end
