(* ===== verification/V4L_Frame.thy ===== *)
theory V4L_Frame
  imports Converter_Utils
begin

text \<open>
  \<open>V4LFrame\<close> (MLCommon/src/SensorData/Frame/V4LFrame.cpp): the wire format of a video frame, its
  writer and its two readers. A stream (\<open>IReadStream\<close>) is a function \<open>read count\<close> on its own state
  that returns a negative code (\<open>Inl\<close>) or the bytes it delivered (\<open>Inr\<close>). \<open>size_t\<close> is 64 bits wide.
  \<open>Undefined\<close> is an access outside a buffer; \<open>new_char n\<close> is the allocation of \<open>n\<close> bytes, \<open>None\<close>
  when it throws; where a loop may run for ever the result is an option and \<open>None\<close> is not returning.
\<close>

section \<open>The frame object\<close>

type_synonym 'r reader = "nat \<Rightarrow> 'r \<Rightarrow> (int + byte list) \<times> 'r"
type_synonym 'w writer = "byte list \<Rightarrow> 'w \<Rightarrow> int \<times> 'w"

datatype State = IF_HEADER | V4L_HEADER | V4L_BODY | DESERIALIZED

datatype frame_error = Bad_alloc | Length_error | Already_deserialized

datatype outcome = Returned bool | Threw frame_error | Undefined

record V4LFrame =
  mDataContainer :: "byte list"
  mTimestamp :: u64
  mName :: "byte list"
  mInputWidth :: u32
  mInputHeight :: u32
  mBytesPerLine :: u32
  mBitsPerPixel :: byte
  mColorFormat :: byte
  mHeader :: "byte list"
  mVideoOffset :: nat
  fr_state :: State
  accumulated :: nat

definition V4LFrame_new :: V4LFrame where
  "V4LFrame_new = \<lparr>mDataContainer = [], mTimestamp = 0, mName = [], mInputWidth = 0, mInputHeight = 0,
     mBytesPerLine = 0, mBitsPerPixel = 0, mColorFormat = 0, mHeader = [], mVideoOffset = 0,
     fr_state = IF_HEADER, accumulated = 0\<rparr>"

definition set_byte :: "byte list \<Rightarrow> nat \<Rightarrow> byte \<Rightarrow> byte list option" where
  "set_byte d off v = (if off < length d then Some (d[off := v]) else None)"

text \<open>\<open>vector::resize\<close> with zero fill.\<close>

definition resize :: "nat \<Rightarrow> byte list \<Rightarrow> byte list" where
  "resize n d = take n d @ replicate (n - length d) 0"

section \<open>Writing\<close>

definition prepareHeader :: "V4LFrame \<Rightarrow> V4LFrame option" where
  "prepareHeader f = do {
     let nameLength = min (length (mName f)) MAX_NAME_LENGTH;
     let videoOffset = FRAME_HEADER_LENGTH + getPaddedSize nameLength;
     let h = replicate (videoOffset + VIDEO_HEADER_LENGTH) 0;
     h \<leftarrow> setU32 h OFFSET_HEADER_SIZE (word_of_nat videoOffset - 4);
     h \<leftarrow> set_byte h OFFSET_HEADER_VERSION HEADER_VERSION;
     h \<leftarrow> set_byte h OFFSET_HEADER_SUBVERSION HEADER_SUBVERSION;
     h \<leftarrow> set_byte h OFFSET_NAME_LENGTH (word_of_nat nameLength);
     h \<leftarrow> set_byte h OFFSET_RESERVED_1 0;
     h \<leftarrow> setU32 h OFFSET_MEDIA_TYPE MEDIA_TYPE_VIDEO;
     h \<leftarrow> setU32 h OFFSET_MEDIA_SUBTYPE MEDIA_SUBTYPE_VIDEO_UNCOMPRESSED;
     let h = take FRAME_HEADER_LENGTH h @ take nameLength (mName f) @ drop (FRAME_HEADER_LENGTH + nameLength) h;
     Some (f\<lparr>mVideoOffset := videoOffset, mHeader := h\<rparr>)
   }"

definition updateFrame :: "V4LFrame \<Rightarrow> V4LFrame option" where
  "updateFrame f = do {
     let h = mHeader f;
     let v = mVideoOffset f;
     h \<leftarrow> setU32 h OFFSET_FRAME_SIZE (word_of_nat (length (mHeader f) + length (mDataContainer f)));
     h \<leftarrow> setU64 h OFFSET_TIMESTAMP (mTimestamp f);
     h \<leftarrow> setU32 h (v + OFFSET_VIDEO_WIDTH) (mInputWidth f);
     h \<leftarrow> setU32 h (v + OFFSET_VIDEO_HEIGHT) (mInputHeight f);
     h \<leftarrow> setU32 h (v + OFFSET_VIDEO_BYTES_PER_LINE) (mBytesPerLine f);
     h \<leftarrow> set_byte h (v + OFFSET_VIDEO_BITS_PER_PIXEL) (mBitsPerPixel f);
     h \<leftarrow> set_byte h (v + OFFSET_VIDEO_COLOR_FORMAT) (mColorFormat f);
     Some (f\<lparr>mHeader := h\<rparr>)
   }"

definition setName :: "byte list \<Rightarrow> V4LFrame \<Rightarrow> V4LFrame option" where
  "setName name f = prepareHeader (f\<lparr>mName := name\<rparr>)"

definition setTimestamp :: "u64 \<Rightarrow> V4LFrame \<Rightarrow> V4LFrame" where
  "setTimestamp t f = f\<lparr>mTimestamp := t\<rparr>"
definition setData :: "byte list \<Rightarrow> V4LFrame \<Rightarrow> V4LFrame" where
  "setData d f = f\<lparr>mDataContainer := d\<rparr>"
definition setInputWidth :: "u32 \<Rightarrow> V4LFrame \<Rightarrow> V4LFrame" where
  "setInputWidth w f = f\<lparr>mInputWidth := w\<rparr>"
definition setInputHeight :: "u32 \<Rightarrow> V4LFrame \<Rightarrow> V4LFrame" where
  "setInputHeight h f = f\<lparr>mInputHeight := h\<rparr>"
definition setBytesPerLine :: "u32 \<Rightarrow> V4LFrame \<Rightarrow> V4LFrame" where
  "setBytesPerLine b f = f\<lparr>mBytesPerLine := b\<rparr>"
definition setBitsPerPixel :: "byte \<Rightarrow> V4LFrame \<Rightarrow> V4LFrame" where
  "setBitsPerPixel b f = f\<lparr>mBitsPerPixel := b\<rparr>"
definition setColorFormat :: "byte \<Rightarrow> V4LFrame \<Rightarrow> V4LFrame" where
  "setColorFormat c f = f\<lparr>mColorFormat := c\<rparr>"

definition frameSize :: "V4LFrame \<Rightarrow> nat" where
  "frameSize f = length (mDataContainer f) + length (mHeader f)"

text \<open>\<open>bytesWritten\<close> and the cast of the sum are 32-bit \<open>int\<close>.\<close>

definition SerializeTo :: "'w writer \<Rightarrow> V4LFrame \<Rightarrow> 'w \<Rightarrow> (bool \<times> V4LFrame \<times> 'w) option" where
  "SerializeTo write f w = do {
     f \<leftarrow> updateFrame f;
     let (n1, w) = write (mHeader f) w;
     let (n2, w) = write (mDataContainer f) w;
     Some (word_of_int (n1 + n2) = (word_of_nat (length (mDataContainer f) + length (mHeader f)) :: u32), f, w)
   }"

section \<open>Reading what has arrived\<close>

function fillupBuffer :: "'r reader \<Rightarrow> byte list \<Rightarrow> nat \<Rightarrow> 'r \<Rightarrow> (bool \<times> byte list \<times> nat \<times> 'r) option" where
  "fillupBuffer read buf act r =
     (if act < length buf then
        (case read (length buf - act) r of
           (Inl e, r) \<Rightarrow> Some (False, buf, act, r)
         | (Inr bs, r) \<Rightarrow>
             if bs = [] then Some (False, buf, act, r)
             else if length buf - act < length bs then None
             else fillupBuffer read (take act buf @ bs @ drop (act + length bs) buf) (act + length bs) r)
      else Some (True, buf, act, r))"
  by pat_completeness auto
termination
  by (relation "measure (\<lambda>(read, buf, act, r). length buf - act)")
     (auto simp: not_less length_greater_0_conv [symmetric] simp del: length_greater_0_conv)

declare fillupBuffer.simps [simp del]

text \<open>
  The sizes that the first eight bytes announce: the header size is computed in 32 bits up to the
  sum with \<open>VIDEO_HEADER_LENGTH\<close>, the data size in 64 bits, where it may wrap; an array of more than
  \<open>2 ^ 63 - 1\<close> bytes is never allocated.
\<close>

definition announced_header :: "byte list \<Rightarrow> nat option" where
  "announced_header h = map_option (\<lambda>s. unat (s + 4) + VIDEO_HEADER_LENGTH) (getU32 h OFFSET_HEADER_SIZE)"

definition announced_data :: "byte list \<Rightarrow> nat \<Rightarrow> u64 option" where
  "announced_data h headerSize =
     map_option (\<lambda>s. ucast s - word_of_nat headerSize) (getU32 h OFFSET_FRAME_SIZE)"

definition allocate :: "(nat \<Rightarrow> byte list option) \<Rightarrow> u64 \<Rightarrow> byte list option" where
  "allocate new_char n = (if 2 ^ 63 \<le> unat n then None else new_char (unat n))"

definition parseIFrameHeader ::
  "(nat \<Rightarrow> byte list option) \<Rightarrow> 'r reader \<Rightarrow> V4LFrame \<Rightarrow> 'r \<Rightarrow> outcome \<times> V4LFrame \<times> 'r" where
  "parseIFrameHeader new_char read f r =
     (let h = (if length (mHeader f) \<noteq> 8 then resize 8 (mHeader f) else mHeader f) in
      case fillupBuffer read h (accumulated f) r of
        None \<Rightarrow> (Undefined, f, r)
      | Some (False, h, acc, r) \<Rightarrow> (Returned False, f\<lparr>mHeader := h, accumulated := acc\<rparr>, r)
      | Some (True, h, acc, r) \<Rightarrow>
          (let f = f\<lparr>mHeader := h, accumulated := acc\<rparr> in
           case announced_header h of
             None \<Rightarrow> (Undefined, f, r)
           | Some headerSize \<Rightarrow>
               (case announced_data h headerSize of
                  None \<Rightarrow> (Undefined, f, r)
                | Some dataSize \<Rightarrow>
                    (case allocate new_char dataSize of
                       None \<Rightarrow> (Threw Bad_alloc, f, r)
                     | Some data \<Rightarrow>
                         (Returned True,
                          f\<lparr>mDataContainer := data, mVideoOffset := headerSize - VIDEO_HEADER_LENGTH,
                            mHeader := resize headerSize h, fr_state := V4L_HEADER\<rparr>, r)))))"

text \<open>
  The fields of a complete header. The name's length is a signed \<open>char\<close> converted to \<open>size_t\<close>, so 128
  and above asks \<open>assign\<close> for more than a string can hold.
\<close>

definition parse_fields :: "V4LFrame \<Rightarrow> outcome \<times> V4LFrame" where
  "parse_fields f =
     (let h = mHeader f; v = mVideoOffset f in
      case getU64 h OFFSET_TIMESTAMP of
        None \<Rightarrow> (Undefined, f)
      | Some ts \<Rightarrow>
          (let f = f\<lparr>mTimestamp := ts\<rparr>; nameLength = h ! OFFSET_NAME_LENGTH in
           if length h \<le> FRAME_HEADER_LENGTH then (Undefined, f)
           else if 128 \<le> unat nameLength then (Threw Length_error, f)
           else if length h < FRAME_HEADER_LENGTH + unat nameLength then (Undefined, f)
           else let f = f\<lparr>mName := take (unat nameLength) (drop FRAME_HEADER_LENGTH h)\<rparr> in
             case (getU32 h (v + OFFSET_VIDEO_WIDTH), getU32 h (v + OFFSET_VIDEO_HEIGHT),
                   getU32 h (v + OFFSET_VIDEO_BYTES_PER_LINE)) of
               (Some w, Some hh, Some bpl) \<Rightarrow>
                 if v + OFFSET_VIDEO_COLOR_FORMAT < length h then
                   (Returned True,
                    f\<lparr>mInputWidth := w, mInputHeight := hh, mBytesPerLine := bpl,
                      mBitsPerPixel := h ! (v + OFFSET_VIDEO_BITS_PER_PIXEL),
                      mColorFormat := h ! (v + OFFSET_VIDEO_COLOR_FORMAT)\<rparr>)
                 else (Undefined, f)
             | _ \<Rightarrow> (Undefined, f)))"

definition parseV4LFrameHeader :: "'r reader \<Rightarrow> V4LFrame \<Rightarrow> 'r \<Rightarrow> outcome \<times> V4LFrame \<times> 'r" where
  "parseV4LFrameHeader read f r =
     (case fillupBuffer read (mHeader f) (accumulated f) r of
        None \<Rightarrow> (Undefined, f, r)
      | Some (False, h, acc, r) \<Rightarrow> (Returned False, f\<lparr>mHeader := h, accumulated := acc\<rparr>, r)
      | Some (True, h, acc, r) \<Rightarrow>
          (case parse_fields (f\<lparr>mHeader := h, accumulated := acc\<rparr>) of
             (Returned True, f) \<Rightarrow> (Returned True, f\<lparr>fr_state := V4L_BODY, accumulated := 0\<rparr>, r)
           | (e, f) \<Rightarrow> (e, f, r)))"

definition parseBody :: "'r reader \<Rightarrow> V4LFrame \<Rightarrow> 'r \<Rightarrow> outcome \<times> V4LFrame \<times> 'r" where
  "parseBody read f r =
     (case fillupBuffer read (mDataContainer f) (accumulated f) r of
        None \<Rightarrow> (Undefined, f, r)
      | Some (result, d, acc, r) \<Rightarrow>
          (let f = f\<lparr>mDataContainer := d, accumulated := acc\<rparr>
           in (Returned result, if result then f\<lparr>fr_state := DESERIALIZED\<rparr> else f, r)))"

fun state_rank :: "State \<Rightarrow> nat" where
  "state_rank IF_HEADER = 3"
| "state_rank V4L_HEADER = 2"
| "state_rank V4L_BODY = 1"
| "state_rank DESERIALIZED = 0"

lemma parse_state:
  "parseIFrameHeader new_char read f r = (Returned True, f', r') \<Longrightarrow> fr_state f' = V4L_HEADER"
  "parseV4LFrameHeader read f r = (Returned True, f', r') \<Longrightarrow> fr_state f' = V4L_BODY"
  by (auto simp: parseIFrameHeader_def parseV4LFrameHeader_def Let_def
      split: option.splits prod.splits bool.splits outcome.splits if_splits)

function AsyncDeserializeFrom ::
  "(nat \<Rightarrow> byte list option) \<Rightarrow> 'r reader \<Rightarrow> V4LFrame \<Rightarrow> 'r \<Rightarrow> outcome \<times> V4LFrame \<times> 'r" where
  "AsyncDeserializeFrom new_char read f r =
     (case fr_state f of
        IF_HEADER \<Rightarrow>
          (case parseIFrameHeader new_char read f r of
             (Returned True, f, r) \<Rightarrow> AsyncDeserializeFrom new_char read f r
           | res \<Rightarrow> res)
      | V4L_HEADER \<Rightarrow>
          (case parseV4LFrameHeader read f r of
             (Returned True, f, r) \<Rightarrow> AsyncDeserializeFrom new_char read f r
           | res \<Rightarrow> res)
      | V4L_BODY \<Rightarrow> parseBody read f r
      | DESERIALIZED \<Rightarrow> (Threw Already_deserialized, f, r))"
  by pat_completeness auto
termination
  by (relation "measure (\<lambda>(new_char, read, f, r). state_rank (fr_state f))")
     (auto dest!: parse_state [OF sym])

declare AsyncDeserializeFrom.simps [simp del]


section \<open>Reading with a blocking stream\<close>

text \<open>
  The three \<open>do\<close>-\<open>while\<close> loops of \<open>DeserializeFrom\<close>: a negative result is an error, a result of zero
  is taken for progress.
\<close>

datatype read_result = Read_done "byte list" | Read_error "byte list" | Read_overrun

partial_function (option) read_exactly :: "'r reader \<Rightarrow> byte list \<Rightarrow> nat \<Rightarrow> 'r \<Rightarrow> (read_result \<times> 'r) option" where
  "read_exactly read buf got r =
     (case read (length buf - got) r of
        (Inl e, r) \<Rightarrow> Some (Read_error buf, r)
      | (Inr bs, r) \<Rightarrow>
          if length buf - got < length bs then Some (Read_overrun, r)
          else let buf = take got buf @ bs @ drop (got + length bs) buf; got = got + length bs in
            if got = length buf then Some (Read_done buf, r)
            else read_exactly read buf got r)"

declare read_exactly.simps [code]

definition DeserializeFrom ::
  "(nat \<Rightarrow> byte list option) \<Rightarrow> 'r reader \<Rightarrow> V4LFrame \<Rightarrow> 'r \<Rightarrow> (outcome \<times> V4LFrame \<times> 'r) option" where
  "DeserializeFrom new_char read f r = do {
     (res, r) \<leftarrow> read_exactly read (resize 8 (mHeader f)) 0 r;
     (case res of
        Read_error h \<Rightarrow> Some (Returned False, f\<lparr>mHeader := h\<rparr>, r)
      | Read_overrun \<Rightarrow> Some (Undefined, f, r)
      | Read_done h \<Rightarrow>
          (let f = f\<lparr>mHeader := h\<rparr> in
           case announced_header h of
             None \<Rightarrow> Some (Undefined, f, r)
           | Some headerSize \<Rightarrow>
             (case Option.bind (announced_data h headerSize) (allocate new_char) of
                None \<Rightarrow> Some (Threw Bad_alloc, f, r)
              | Some data \<Rightarrow> do {
                  let f = f\<lparr>mDataContainer := data, mVideoOffset := headerSize - VIDEO_HEADER_LENGTH,
                            mHeader := resize headerSize h\<rparr>;
                  (res, r) \<leftarrow> read_exactly read (mHeader f) 8 r;
                  (case res of
                     Read_error h \<Rightarrow> Some (Returned False, f\<lparr>mHeader := h\<rparr>, r)
                   | Read_overrun \<Rightarrow> Some (Undefined, f, r)
                   | Read_done h \<Rightarrow>
                       (case parse_fields (f\<lparr>mHeader := h\<rparr>) of
                          (Returned True, f) \<Rightarrow> do {
                            (res, r) \<leftarrow> read_exactly read data 0 r;
                            (case res of
                               Read_error d \<Rightarrow> Some (Returned False, f\<lparr>mDataContainer := d\<rparr>, r)
                             | Read_overrun \<Rightarrow> Some (Undefined, f, r)
                             | Read_done d \<Rightarrow> Some (Returned True, f\<lparr>mDataContainer := d\<rparr>, r))
                          }
                        | (e, f) \<Rightarrow> Some (e, f, r)))
                })))
   }"

section \<open>The layout on the wire\<close>

definition wire_name :: "V4LFrame \<Rightarrow> byte list" where
  "wire_name f = take MAX_NAME_LENGTH (mName f)"

definition wire_video :: "V4LFrame \<Rightarrow> nat" where
  "wire_video f = FRAME_HEADER_LENGTH + getPaddedSize (length (wire_name f))"

definition wire_header :: "V4LFrame \<Rightarrow> byte list" where
  "wire_header f =
     be32 (word_of_nat (wire_video f + VIDEO_HEADER_LENGTH + length (mDataContainer f))) @
     be32 (word_of_nat (wire_video f) - 4) @
     [HEADER_VERSION, HEADER_SUBVERSION, word_of_nat (length (wire_name f)), 0] @
     be32 MEDIA_TYPE_VIDEO @ be32 MEDIA_SUBTYPE_VIDEO_UNCOMPRESSED @ be64 (mTimestamp f) @
     wire_name f @ replicate (getPaddedSize (length (wire_name f)) - length (wire_name f)) 0 @
     be32 (mInputWidth f) @ be32 (mInputHeight f) @ be32 (mBytesPerLine f) @
     [mBitsPerPixel f, mColorFormat f, 0, 0]"

lemma length_wire_name: "length (wire_name f) = min (length (mName f)) MAX_NAME_LENGTH"
  by (simp add: wire_name_def)

lemma take_wire_name: "take (length (wire_name f)) (mName f) = wire_name f"
  by (simp add: wire_name_def min_def)

lemma getPaddedSize_ge [simp]: "n \<le> getPaddedSize n"
  by (rule getPaddedSize_cases [of n]) auto

lemma pad_sum [simp]:
  "n + (getPaddedSize n - n) = getPaddedSize n" "n + (getPaddedSize n - n + k) = getPaddedSize n + k"
  "n + (getPaddedSize n + k - n) = getPaddedSize n + k"
  using getPaddedSize_ge [of n] by linarith+

lemma length_wire_header [simp]: "length (wire_header f) = wire_video f + VIDEO_HEADER_LENGTH"
  by (simp add: wire_header_def wire_video_def layout_consts)

lemma setU32_field:
  "off = length a \<Longrightarrow> length b = 4 \<Longrightarrow> setU32 (a @ b @ c) off v = Some (a @ be32 v @ c)"
  by (simp add: setU32_slice)

lemma setU64_field:
  "off = length a \<Longrightarrow> length b = 8 \<Longrightarrow> setU64 (a @ b @ c) off v = Some (a @ be64 v @ c)"
  by (simp add: setU64_slice)

lemma set_byte_field: "off = length a \<Longrightarrow> set_byte (a @ x # c) off v = Some (a @ v # c)"
  by (simp add: set_byte_def)

text \<open>The header between \<open>prepareHeader\<close> and \<open>updateFrame\<close>: everything but the fields of one frame.\<close>

definition blank_header :: "byte list \<Rightarrow> byte list" where
  "blank_header nm =
     replicate 4 0 @ be32 (word_of_nat (FRAME_HEADER_LENGTH + getPaddedSize (length nm)) - 4) @
     [HEADER_VERSION, HEADER_SUBVERSION, word_of_nat (length nm), 0] @
     be32 MEDIA_TYPE_VIDEO @ be32 MEDIA_SUBTYPE_VIDEO_UNCOMPRESSED @ replicate 8 0 @
     nm @ replicate (getPaddedSize (length nm) - length nm) 0 @ replicate 16 0"

lemma prepareHeader_blank:
  "prepareHeader f = Some (f\<lparr>mVideoOffset := wire_video f, mHeader := blank_header (wire_name f)\<rparr>)"
proof -
  let ?n = "length (wire_name f)"
  let ?P = "getPaddedSize ?n"
  let ?z = "\<lambda>n. replicate n (0 :: byte)"
  let ?s = "be32 (word_of_nat (FRAME_HEADER_LENGTH + ?P) - 4)"
  let ?T = "?z 8 @ ?z ?n @ ?z (?P - ?n) @ ?z 16"
  let ?v = "[HEADER_VERSION, HEADER_SUBVERSION, word_of_nat ?n, 0]"
  have "replicate (FRAME_HEADER_LENGTH + ?P + VIDEO_HEADER_LENGTH) 0 =
      ?z 4 @ ?z 4 @ 0 # 0 # 0 # 0 # ?z 4 @ ?z 4 @ ?T"
    by (simp add: layout_consts flip: replicate_add replicate_Suc del: replicate_Suc)
  moreover have "setU32 (?z 4 @ ?z 4 @ 0 # 0 # 0 # 0 # ?z 4 @ ?z 4 @ ?T) OFFSET_HEADER_SIZE
        (word_of_nat (FRAME_HEADER_LENGTH + ?P) - 4) = Some ((?z 4 @ ?s) @ 0 # 0 # 0 # 0 # ?z 4 @ ?z 4 @ ?T)"
    by (simp add: setU32_field layout_consts)
  moreover have "set_byte ((?z 4 @ ?s) @ 0 # c) OFFSET_HEADER_VERSION HEADER_VERSION =
      Some ((?z 4 @ ?s @ [HEADER_VERSION]) @ c)" for c
    by (subst set_byte_field) (simp_all add: layout_consts)
  moreover have "set_byte ((?z 4 @ ?s @ [HEADER_VERSION]) @ 0 # c) OFFSET_HEADER_SUBVERSION HEADER_SUBVERSION =
      Some ((?z 4 @ ?s @ [HEADER_VERSION, HEADER_SUBVERSION]) @ c)" for c
    by (subst set_byte_field) (simp_all add: layout_consts)
  moreover have "set_byte ((?z 4 @ ?s @ [HEADER_VERSION, HEADER_SUBVERSION]) @ 0 # c) OFFSET_NAME_LENGTH x =
      Some ((?z 4 @ ?s @ [HEADER_VERSION, HEADER_SUBVERSION, x]) @ c)" for c x
    by (subst set_byte_field) (simp_all add: layout_consts)
  moreover have "set_byte ((?z 4 @ ?s @ [HEADER_VERSION, HEADER_SUBVERSION, x]) @ 0 # c) OFFSET_RESERVED_1 0 =
      Some ((?z 4 @ ?s @ [HEADER_VERSION, HEADER_SUBVERSION, x, 0]) @ c)" for c x
    by (subst set_byte_field) (simp_all add: layout_consts)
  moreover have "setU32 ((?z 4 @ ?s @ ?v) @ ?z 4 @ c) OFFSET_MEDIA_TYPE MEDIA_TYPE_VIDEO =
      Some ((?z 4 @ ?s @ ?v @ be32 MEDIA_TYPE_VIDEO) @ c)" for c
    by (subst setU32_field) (simp_all add: layout_consts)
  moreover have "setU32 ((?z 4 @ ?s @ ?v @ be32 MEDIA_TYPE_VIDEO) @ ?z 4 @ c) OFFSET_MEDIA_SUBTYPE
        MEDIA_SUBTYPE_VIDEO_UNCOMPRESSED =
      Some ((?z 4 @ ?s @ ?v @ be32 MEDIA_TYPE_VIDEO @ be32 MEDIA_SUBTYPE_VIDEO_UNCOMPRESSED) @ c)" for c
    by (subst setU32_field) (simp_all add: layout_consts)
  ultimately show ?thesis
    unfolding prepareHeader_def Let_def length_wire_name [symmetric]
    by (simp add: wire_video_def blank_header_def take_wire_name layout_consts drop_Cons')
qed


text \<open>The fields of a video header, set one behind the other.\<close>

lemma set_video_fields:
  assumes "length b = v"
  shows "setU32 (b @ replicate 4 0 @ c) (v + OFFSET_VIDEO_WIDTH) x = Some (b @ be32 x @ c)"
    and "setU32 (b @ be32 x @ replicate 4 0 @ c) (v + OFFSET_VIDEO_HEIGHT) y = Some (b @ be32 x @ be32 y @ c)"
    and "setU32 (b @ be32 x @ be32 y @ replicate 4 0 @ c) (v + OFFSET_VIDEO_BYTES_PER_LINE) l =
      Some (b @ be32 x @ be32 y @ be32 l @ c)"
    and "set_byte (b @ be32 x @ be32 y @ be32 l @ 0 # c) (v + OFFSET_VIDEO_BITS_PER_PIXEL) k =
      Some (b @ be32 x @ be32 y @ be32 l @ k # c)"
    and "set_byte (b @ be32 x @ be32 y @ be32 l @ k # 0 # c) (v + OFFSET_VIDEO_COLOR_FORMAT) k' =
      Some (b @ be32 x @ be32 y @ be32 l @ k # k' # c)"
  using assms setU32_field [of "v + OFFSET_VIDEO_WIDTH" b "replicate 4 0" c x]
    setU32_field [of "v + OFFSET_VIDEO_HEIGHT" "b @ be32 x" "replicate 4 0" c y]
    setU32_field [of "v + OFFSET_VIDEO_BYTES_PER_LINE" "b @ be32 x @ be32 y" "replicate 4 0" c l]
    set_byte_field [of "v + OFFSET_VIDEO_BITS_PER_PIXEL" "b @ be32 x @ be32 y @ be32 l" 0 c k]
    set_byte_field [of "v + OFFSET_VIDEO_COLOR_FORMAT" "b @ be32 x @ be32 y @ be32 l @ [k]" 0 c k']
  by (simp_all add: layout_consts)

lemma updateFrame_wire:
  assumes "mVideoOffset f = wire_video f" "mHeader f = blank_header (wire_name f)"
  shows "updateFrame f = Some (f\<lparr>mHeader := wire_header f\<rparr>)"
proof -
  let ?nm = "wire_name f"
  let ?n = "length ?nm"
  let ?P = "getPaddedSize ?n"
  let ?z = "\<lambda>n. replicate n (0 :: byte)"
  let ?A = "be32 (word_of_nat (FRAME_HEADER_LENGTH + ?P) - 4) @ [HEADER_VERSION, HEADER_SUBVERSION, word_of_nat ?n, 0] @
    be32 MEDIA_TYPE_VIDEO @ be32 MEDIA_SUBTYPE_VIDEO_UNCOMPRESSED"
  let ?N = "?nm @ ?z (?P - ?n)"
  have blank: "blank_header ?nm = [] @ ?z 4 @ ?A @ ?z 8 @ ?N @ ?z 4 @ ?z 4 @ ?z 4 @ [0, 0, 0, 0]"
    by (simp add: blank_header_def) (simp add: numeral_eq_Suc)
  have lN: "length ?N = ?P" by simp
  have lA: "length ?A = 16" by simp
  have s1: "setU32 ([] @ ?z 4 @ c) OFFSET_FRAME_SIZE v = Some (be32 v @ c)" for c v
    by (subst setU32_field) (simp_all add: layout_consts)
  have s2: "setU64 (be32 v @ ?A @ ?z 8 @ c) OFFSET_TIMESTAMP t = Some ((be32 v @ ?A @ be64 t) @ c)" for c v t
    using setU64_field [of OFFSET_TIMESTAMP "be32 v @ ?A" "?z 8" c t] by (simp add: layout_consts)
  let ?B = "be32 (word_of_nat (length (mHeader f) + length (mDataContainer f))) @ ?A @ be64 (mTimestamp f) @ ?N"
  have lB: "length ?B = wire_video f" using lA lN by (simp add: wire_video_def layout_consts)
  have len: "length (blank_header ?nm) = wire_video f + VIDEO_HEADER_LENGTH"
    by (simp add: blank_header_def wire_video_def layout_consts)
  have assoc: "(be32 v @ ?A @ be64 t) @ ?N @ c = (be32 v @ ?A @ be64 t @ ?N) @ c" for v t c by simp
  have "updateFrame f = Some (f\<lparr>mHeader := ?B @ be32 (mInputWidth f) @ be32 (mInputHeight f) @ be32 (mBytesPerLine f) @
      [mBitsPerPixel f, mColorFormat f, 0, 0]\<rparr>)"
    unfolding updateFrame_def Let_def assms(1)
    apply (subst assms(2))
    apply (subst blank)
    apply (simp only: s1 s2 bind.bind_lunit assoc set_video_fields [OF lB])
    done
  then show ?thesis
    by (simp add: wire_header_def assms(2) len wire_video_def)
qed


section \<open>What the layout reads back as\<close>

lemma getU32_field: "off = length a \<Longrightarrow> getU32 (a @ be32 v @ c) off = Some v"
  by (simp add: getU32_slice)

lemma getU64_field: "off = length a \<Longrightarrow> getU64 (a @ be64 v @ c) off = Some v"
  by (simp add: getU64_slice)

lemma wire_name_le [simp]: "length (wire_name f) \<le> 63"
  by (simp add: length_wire_name layout_consts)

lemma wire_video_bounds: "28 \<le> wire_video f" "wire_video f \<le> 92"
  using getPaddedSize_le [OF wire_name_le, of f] by (simp_all add: wire_video_def layout_consts)

text \<open>The header as its fixed part, the name and the video part.\<close>

lemma wire_header_split:
  obtains a b where "wire_header f = a @ be32 (mInputWidth f) @ be32 (mInputHeight f) @ be32 (mBytesPerLine f) @
      [mBitsPerPixel f, mColorFormat f, 0, 0]"
    "length a = wire_video f" "a = b @ be64 (mTimestamp f) @ wire_name f @
       replicate (getPaddedSize (length (wire_name f)) - length (wire_name f)) 0" "length b = 20"
    "b ! 10 = word_of_nat (length (wire_name f))"
proof -
  let ?b = "be32 (word_of_nat (wire_video f + VIDEO_HEADER_LENGTH + length (mDataContainer f))) @
     be32 (word_of_nat (wire_video f) - 4) @
     [HEADER_VERSION, HEADER_SUBVERSION, word_of_nat (length (wire_name f)), 0] @
     be32 MEDIA_TYPE_VIDEO @ be32 MEDIA_SUBTYPE_VIDEO_UNCOMPRESSED"
  let ?a = "?b @ be64 (mTimestamp f) @ wire_name f @
       replicate (getPaddedSize (length (wire_name f)) - length (wire_name f)) 0"
  have "wire_header f = ?a @ be32 (mInputWidth f) @ be32 (mInputHeight f) @ be32 (mBytesPerLine f) @
      [mBitsPerPixel f, mColorFormat f, 0, 0]" by (simp add: wire_header_def)
  moreover have "length ?a = wire_video f" by (simp add: wire_video_def layout_consts)
  moreover have "?b ! 10 = word_of_nat (length (wire_name f))" by (simp add: nth_append)
  ultimately show ?thesis by (intro that [of ?a ?b]) simp_all
qed

lemma parse_fields_wire:
  assumes "mHeader g = wire_header f" "mVideoOffset g = wire_video f"
  shows "parse_fields g = (Returned True, g\<lparr>mTimestamp := mTimestamp f, mName := wire_name f,
           mInputWidth := mInputWidth f, mInputHeight := mInputHeight f, mBytesPerLine := mBytesPerLine f,
           mBitsPerPixel := mBitsPerPixel f, mColorFormat := mColorFormat f\<rparr>)"
proof -
  obtain a b where h: "wire_header f = a @ be32 (mInputWidth f) @ be32 (mInputHeight f) @ be32 (mBytesPerLine f) @
      [mBitsPerPixel f, mColorFormat f, 0, 0]"
    and la: "length a = wire_video f" and a: "a = b @ be64 (mTimestamp f) @ wire_name f @
       replicate (getPaddedSize (length (wire_name f)) - length (wire_name f)) 0" and lb: "length b = 20"
    and b10: "b ! 10 = word_of_nat (length (wire_name f))"
    by (rule wire_header_split)
  have ts: "getU64 (wire_header f) 20 = Some (mTimestamp f)"
    unfolding h a using lb by (simp add: getU64_field)
  have n10: "wire_header f ! 10 = word_of_nat (length (wire_name f))"
    unfolding h a using lb b10 by (simp add: nth_append)
  have n: "unat (word_of_nat (length (wire_name f)) :: byte) = length (wire_name f)"
    by (rule unat_word_of_nat, rule le_less_trans [OF wire_name_le], simp)
  have nm: "take (length (wire_name f)) (drop 28 (wire_header f)) = wire_name f"
    unfolding h a using lb by simp
  have w: "getU32 (wire_header f) (wire_video f) = Some (mInputWidth f)"
    "getU32 (wire_header f) (wire_video f + 4) = Some (mInputHeight f)"
    "getU32 (wire_header f) (wire_video f + 8) = Some (mBytesPerLine f)"
    using getU32_field [of _ a] getU32_field [of _ "a @ be32 (mInputWidth f)"]
      getU32_field [of _ "a @ be32 (mInputWidth f) @ be32 (mInputHeight f)"] la
    unfolding h by simp_all
  have c: "wire_header f ! (wire_video f + 12) = mBitsPerPixel f" "wire_header f ! (wire_video f + 13) = mColorFormat f"
    unfolding h using la by (simp_all add: nth_append)
  have len: "length (wire_header f) = wire_video f + 16" by (simp add: layout_consts)
  have "28 + length (wire_name f) \<le> wire_video f"
    using getPaddedSize_ge [of "length (wire_name f)"] by (simp add: wire_video_def layout_consts)
  then show ?thesis
    using n le_less_trans [OF wire_name_le, of 128 f]
    by (simp add: parse_fields_def assms VIDEO_HEADER_LENGTH_def OFFSET_TIMESTAMP_def OFFSET_NAME_LENGTH_def FRAME_HEADER_LENGTH_def
        OFFSET_VIDEO_WIDTH_def OFFSET_VIDEO_HEIGHT_def OFFSET_VIDEO_BYTES_PER_LINE_def
        OFFSET_VIDEO_BITS_PER_PIXEL_def OFFSET_VIDEO_COLOR_FORMAT_def Let_def ts n10 nm w c len)
qed

lemma ucast_word_of_nat: "n < 2 ^ 32 \<Longrightarrow> ucast (word_of_nat n :: u32) = (word_of_nat n :: u64)"
  by (simp add: word_unat_eq_iff unsigned_ucast_eq unat_of_nat take_bit_nat_def)

lemma announced_wire:
  assumes "wire_video f + VIDEO_HEADER_LENGTH + length (mDataContainer f) < 2 ^ 32"
  shows "announced_header (take 8 (wire_header f)) = Some (wire_video f + VIDEO_HEADER_LENGTH)"
    and "announced_data (take 8 (wire_header f)) (wire_video f + VIDEO_HEADER_LENGTH) =
           Some (word_of_nat (length (mDataContainer f)))"
proof -
  let ?t = "wire_video f + VIDEO_HEADER_LENGTH + length (mDataContainer f)"
  have h8: "take 8 (wire_header f) = be32 (word_of_nat ?t) @ be32 (word_of_nat (wire_video f) - 4)"
    by (simp add: wire_header_def)
  have "unat (word_of_nat (wire_video f) :: u32) = wire_video f"
    using wire_video_bounds(2) [of f] by (intro unat_word_of_nat) simp
  then show "announced_header (take 8 (wire_header f)) = Some (wire_video f + VIDEO_HEADER_LENGTH)"
    unfolding h8 announced_header_def
    using getU32_field [of OFFSET_HEADER_SIZE "be32 (word_of_nat ?t)" "word_of_nat (wire_video f) - 4" "[]"]
    by (simp add: OFFSET_HEADER_SIZE_def)
  have "ucast (word_of_nat ?t :: u32) = (word_of_nat ?t :: u64)"
    using assms by (rule ucast_word_of_nat)
  then show "announced_data (take 8 (wire_header f)) (wire_video f + VIDEO_HEADER_LENGTH) =
           Some (word_of_nat (length (mDataContainer f)))"
    unfolding h8 announced_data_def
    using getU32_field [of OFFSET_FRAME_SIZE "[]" "word_of_nat ?t" "be32 (word_of_nat (wire_video f) - 4)"]
    by (simp add: OFFSET_FRAME_SIZE_def)
qed


section \<open>Streams\<close>

text \<open>
  What the readers need from a stream: it delivers its bytes in order, never more than was asked for,
  and reports no error for bytes it took. \<open>Read\<close> returns an \<open>int\<close>, so this is only asked of requests
  of less than 2 GiB.
\<close>

locale byte_stream =
  fixes read :: "'r reader" and avail :: "'r \<Rightarrow> byte list"
  assumes read_bytes: "n < 2 ^ 31 \<Longrightarrow> read n r = (Inr bs, r') \<Longrightarrow> length bs \<le> n \<and> avail r = bs @ avail r'"
    and read_error: "n < 2 ^ 31 \<Longrightarrow> read n r = (Inl e, r') \<Longrightarrow> avail r' = avail r"
begin

lemma overlay:
  assumes "act + length bs \<le> length buf"
  shows "take (act + length bs) (take act buf @ bs @ drop (act + length bs) buf) = take act buf @ bs"
    and "length (take act buf @ bs @ drop (act + length bs) buf) = length buf"
  using assms by (cases bs; simp add: min_def)+

text \<open>One turn of the loop: nothing comes and it ends, or some bytes are put behind what was there.\<close>

lemma fillupBuffer_turn:
  assumes "act < length buf" "length buf < 2 ^ 31"
  obtains r1 where "fillupBuffer read buf act r = Some (False, buf, act, r1)" "avail r = avail r1"
  | bs r1 where "bs \<noteq> []" "act + length bs \<le> length buf" "avail r = bs @ avail r1"
    "fillupBuffer read buf act r = fillupBuffer read (take act buf @ bs @ drop (act + length bs) buf) (act + length bs) r1"
proof -
  obtain res r1 where res: "read (length buf - act) r = (res, r1)" by fastforce
  have small: "length buf - act < 2 ^ 31" using assms by simp
  show ?thesis
  proof (cases res)
    case (Inl e)
    with res read_error [OF small, of r e r1] assms(1) show ?thesis
      by (intro that(1) [of r1]) (subst fillupBuffer.simps, simp, simp)
  next
    case (Inr bs)
    with read_bytes [OF small, of r bs r1] res assms(1)
    have bs: "act + length bs \<le> length buf" "avail r = bs @ avail r1" by auto
    then have "\<not> length buf - act < length bs" by linarith
    with bs res Inr assms(1) that show ?thesis by (cases "bs = []") (subst (asm) (1 2) fillupBuffer.simps, simp)+
  qed
qed

text \<open>\<open>fillupBuffer\<close> moves a prefix of the stream behind what the buffer already holds.\<close>

lemma fillupBuffer_moves:
  "act \<le> length buf \<Longrightarrow> length buf < 2 ^ 31 \<Longrightarrow>
   \<exists>ok buf' act' r' c. fillupBuffer read buf act r = Some (ok, buf', act', r') \<and>
     length buf' = length buf \<and> act' = act + length c \<and> act' \<le> length buf \<and> ok = (act' = length buf) \<and>
     take act' buf' = take act buf @ c \<and> avail r = c @ avail r'"
proof (induction "length buf - act" arbitrary: buf act r rule: less_induct)
  case less
  show ?case
  proof (cases "act < length buf")
    case False
    with less.prems show ?thesis
      by (intro exI [of _ True] exI [of _ buf] exI [of _ act] exI [of _ r] exI [of _ "[]"])
         (subst fillupBuffer.simps, simp)
  next
    case True
    from True less.prems(2) show ?thesis
    proof (cases rule: fillupBuffer_turn [of act buf r, case_names stop step])
      case (stop r1)
      with True show ?thesis
        by (intro exI [of _ False] exI [of _ buf] exI [of _ act] exI [of _ r1] exI [of _ "[]"]) simp
    next
      case (step bs r1)
      let ?buf = "take act buf @ bs @ drop (act + length bs) buf"
      have "length ?buf - (act + length bs) < length buf - act"
        unfolding overlay(2) [OF step(2)] using step(1) True by (simp add: diff_less_mono2)
      from less.hyps [OF this, of r1] obtain ok buf' act' r' c where
        "fillupBuffer read ?buf (act + length bs) r1 = Some (ok, buf', act', r')"
        "length buf' = length buf" "act' = act + length bs + length c" "act' \<le> length buf"
        "ok = (act' = length buf)" "take act' buf' = (take act buf @ bs) @ c" "avail r1 = c @ avail r'"
        unfolding overlay [OF step(2)] using step(2) less.prems(2) by auto
      with step(3,4) show ?thesis
        by (intro exI [of _ ok] exI [of _ buf'] exI [of _ act'] exI [of _ r'] exI [of _ "bs @ c"]) simp
    qed
  qed
qed

lemma fillupBuffer_fills:
  assumes "length buf = length X" "act \<le> length X" "take act buf = take act X" "avail r = drop act X @ Y"
    and "length X < 2 ^ 31"
  shows "\<exists>buf' act' r'. fillupBuffer read buf act r = Some (act' = length X, buf', act', r') \<and>
           length buf' = length X \<and> act \<le> act' \<and> act' \<le> length X \<and> take act' buf' = take act' X \<and>
           avail r' = drop act' X @ Y"
proof -
  from fillupBuffer_moves [of act buf r] assms(1,2,5) obtain ok buf' act' r' c where
    f: "fillupBuffer read buf act r = Some (ok, buf', act', r')" "length buf' = length X" "act' = act + length c"
      "act' \<le> length X" "ok = (act' = length X)" "take act' buf' = take act buf @ c" "avail r = c @ avail r'"
    by auto
  have "drop act X @ Y = c @ avail r'" using f(7) assms(4) by simp
  then have "c = take (length c) (drop act X)" "avail r' = drop (length c) (drop act X) @ Y"
    using f(3,4) by (auto simp: append_eq_append_conv_if min_def split: if_splits)
  then have "take act' X = take act X @ c" "avail r' = drop act' X @ Y"
    using f(3) by (metis take_add, simp add: add.commute)
  with f assms(3) show ?thesis by auto
qed

end

section \<open>The asynchronous reader\<close>

definition same_fields :: "V4LFrame \<Rightarrow> V4LFrame \<Rightarrow> bool" where
  "same_fields f g \<longleftrightarrow> mTimestamp g = mTimestamp f \<and> mName g = wire_name f \<and> mInputWidth g = mInputWidth f \<and>
     mInputHeight g = mInputHeight f \<and> mBytesPerLine g = mBytesPerLine f \<and>
     mBitsPerPixel g = mBitsPerPixel f \<and> mColorFormat g = mColorFormat f"

text \<open>
  How far a frame object \<open>g\<close> has got with the bytes of frame \<open>f\<close>: what it holds is the part of the
  layout that was read, what the stream holds is the remainder, then \<open>rest\<close>.
\<close>

definition async_at :: "V4LFrame \<Rightarrow> byte list \<Rightarrow> byte list \<Rightarrow> V4LFrame \<Rightarrow> bool" where
  "async_at f rest av g \<longleftrightarrow>
     (let H = wire_header f; D = mDataContainer f; n = accumulated g in
      case fr_state g of
        IF_HEADER \<Rightarrow> n \<le> 8 \<and> (length (mHeader g) = 8 \<or> n = 0) \<and> take n (mHeader g) = take n H \<and>
          av = drop n H @ D @ rest
      | V4L_HEADER \<Rightarrow> length (mHeader g) = length H \<and> n \<le> length H \<and> take n (mHeader g) = take n H \<and>
          length (mDataContainer g) = length D \<and> mVideoOffset g = wire_video f \<and> av = drop n H @ D @ rest
      | V4L_BODY \<Rightarrow> same_fields f g \<and> length (mDataContainer g) = length D \<and> n \<le> length D \<and>
          take n (mDataContainer g) = take n D \<and> av = drop n D @ rest
      | DESERIALIZED \<Rightarrow> same_fields f g \<and> mDataContainer g = D \<and> av = rest)"

definition can_hold :: "(nat \<Rightarrow> byte list option) \<Rightarrow> V4LFrame \<Rightarrow> bool" where
  "can_hold new_char f \<longleftrightarrow>
     wire_video f + VIDEO_HEADER_LENGTH + length (mDataContainer f) < 2 ^ 31 \<and>
     (\<exists>d. new_char (length (mDataContainer f)) = Some d \<and> length d = length (mDataContainer f))"

lemma allocate_data:
  assumes "can_hold new_char f"
  obtains d where "allocate new_char (word_of_nat (length (mDataContainer f))) = Some d"
    "length d = length (mDataContainer f)"
proof -
  have "unat (word_of_nat (length (mDataContainer f)) :: u64) = length (mDataContainer f)"
    using assms by (intro unat_word_of_nat) (simp add: can_hold_def)
  with assms that show ?thesis by (auto simp: can_hold_def allocate_def)
qed

lemma take_resize: "n \<le> length h \<Longrightarrow> n \<le> k \<Longrightarrow> take n (resize k h) = take n h"
  by (simp add: resize_def min_def)

lemma length_resize [simp]: "length (resize k h) = k"
  by (simp add: resize_def)

lemma drop_take_join:
  assumes "n \<le> k"
  shows "drop n (take k xs) @ drop k xs @ ys = drop n xs @ ys"
proof -
  have "drop n (take k xs) @ drop k xs = drop n xs"
    using append_take_drop_id [of "k - n" "drop n xs"] assms by (simp add: drop_take)
  then show ?thesis by (metis append_assoc)
qed

lemma take_all_iff_eq: "length a = length b \<Longrightarrow> take n a = take n b \<Longrightarrow> n = length b \<Longrightarrow> a = b"
  by simp

context byte_stream
begin

lemma parseIFrameHeader_at:
  assumes at: "async_at f rest (avail r) g" and st: "fr_state g = IF_HEADER" and hold: "can_hold new_char f"
  shows "\<exists>b g' r'. parseIFrameHeader new_char read g r = (Returned b, g', r') \<and> async_at f rest (avail r') g' \<and>
           fr_state g' = (if b then V4L_HEADER else IF_HEADER)"
proof -
  let ?H = "wire_header f" and ?D = "mDataContainer f" and ?n = "accumulated g"
  let ?h = "if length (mHeader g) \<noteq> 8 then resize 8 (mHeader g) else mHeader g"
  have H8: "length (take 8 ?H) = 8" using wire_video_bounds [of f] by simp
  have g: "?n \<le> 8" "length (mHeader g) = 8 \<or> ?n = 0" "take ?n (mHeader g) = take ?n ?H"
    "avail r = drop ?n ?H @ ?D @ rest" using at st by (simp_all add: async_at_def Let_def)
  have lh: "length ?h = length (take 8 ?H)" "?n \<le> length (take 8 ?H)" using H8 g(1) by simp_all
  have tk: "take ?n ?h = take ?n (take 8 ?H)" using g(1-3) by (auto simp: min_def)
  have av: "avail r = drop ?n (take 8 ?H) @ drop 8 ?H @ ?D @ rest"
    unfolding drop_take_join [OF g(1)] by (rule g(4))
  have "length (take 8 ?H) < 2 ^ 31" by simp
  from fillupBuffer_fills [OF lh tk av this] obtain h' n' r' where f: "fillupBuffer read ?h ?n r = Some (n' = 8, h', n', r')" "length h' = 8" "n' \<le> 8"
    "take n' h' = take n' (take 8 ?H)" "avail r' = drop n' (take 8 ?H) @ drop 8 ?H @ ?D @ rest"
    unfolding H8 by blast
  have av: "avail r' = drop n' ?H @ ?D @ rest" using f(5) unfolding drop_take_join [OF f(3)] .
  have tk: "take n' h' = take n' ?H" using f(3,4) by (simp add: min_def)
  show ?thesis
  proof (cases "n' = 8")
    case False
    then show ?thesis
      using f av tk st by (intro exI [of _ False]) (simp add: parseIFrameHeader_def async_at_def Let_def)
  next
    case True
    then have "h' = take 8 ?H" using f(2,4) by simp
    obtain d where d: "allocate new_char (word_of_nat (length ?D)) = Some d" "length d = length ?D"
      using hold by (rule allocate_data)
    have "wire_video f + VIDEO_HEADER_LENGTH + length ?D < 2 ^ 32" using hold by (simp add: can_hold_def)
    note ann = announced_wire [OF this]
    have "take 8 (resize (wire_video f + VIDEO_HEADER_LENGTH) h') = take 8 ?H"
      using \<open>h' = take 8 ?H\<close> wire_video_bounds [of f] by (simp add: take_resize)
    then show ?thesis
      using f(1) True \<open>h' = take 8 ?H\<close> ann d av wire_video_bounds [of f]
      by (intro exI [of _ True]) (simp add: parseIFrameHeader_def async_at_def Let_def)
  qed
qed

lemma parseV4LFrameHeader_at:
  assumes at: "async_at f rest (avail r) g" and st: "fr_state g = V4L_HEADER"
  shows "\<exists>b g' r'. parseV4LFrameHeader read g r = (Returned b, g', r') \<and> async_at f rest (avail r') g' \<and>
           fr_state g' = (if b then V4L_BODY else V4L_HEADER)"
proof -
  let ?H = "wire_header f" and ?D = "mDataContainer f" and ?n = "accumulated g"
  have g: "length (mHeader g) = length ?H" "?n \<le> length ?H" "take ?n (mHeader g) = take ?n ?H"
    "avail r = drop ?n ?H @ ?D @ rest" "length (mDataContainer g) = length ?D" "mVideoOffset g = wire_video f"
    using at st by (simp_all add: async_at_def Let_def)
  have "length ?H < 2 ^ 31" using wire_video_bounds(2) [of f] by (simp add: layout_consts)
  from fillupBuffer_fills [OF g(1-4) this] obtain h' n' r' where f:
    "fillupBuffer read (mHeader g) ?n r = Some (n' = length ?H, h', n', r')" "length h' = length ?H"
    "n' \<le> length ?H" "take n' h' = take n' ?H" "avail r' = drop n' ?H @ ?D @ rest" by blast
  show ?thesis
  proof (cases "n' = length ?H")
    case False
    with f(1) have "fillupBuffer read (mHeader g) ?n r = Some (False, h', n', r')" by simp
    then show ?thesis
      using f(2-5) g st by (intro exI [of _ False]) (simp add: parseV4LFrameHeader_def async_at_def Let_def)
  next
    case True
    with f(1) have fill: "fillupBuffer read (mHeader g) ?n r = Some (True, h', n', r')" by simp
    have h': "h' = ?H" and av: "avail r' = ?D @ rest" using f(2,4,5) True by simp_all
    have "parse_fields (g\<lparr>mHeader := h', accumulated := n'\<rparr>) = (Returned True,
        g\<lparr>mHeader := h', accumulated := n', mTimestamp := mTimestamp f, mName := wire_name f,
           mInputWidth := mInputWidth f, mInputHeight := mInputHeight f, mBytesPerLine := mBytesPerLine f,
           mBitsPerPixel := mBitsPerPixel f, mColorFormat := mColorFormat f\<rparr>)"
      by (rule parse_fields_wire) (simp_all add: h' g(6))
    then show ?thesis
      using fill av g(5) by (intro exI [of _ True])
        (simp add: parseV4LFrameHeader_def async_at_def Let_def same_fields_def)
  qed
qed

lemma parseBody_at:
  assumes at: "async_at f rest (avail r) g" and st: "fr_state g = V4L_BODY" and hold: "can_hold new_char f"
  shows "\<exists>b g' r'. parseBody read g r = (Returned b, g', r') \<and> async_at f rest (avail r') g' \<and>
           fr_state g' = (if b then DESERIALIZED else V4L_BODY)"
proof -
  let ?D = "mDataContainer f" and ?n = "accumulated g"
  have g: "length (mDataContainer g) = length ?D" "?n \<le> length ?D" "take ?n (mDataContainer g) = take ?n ?D"
    "avail r = drop ?n ?D @ rest" "same_fields f g"
    using at st by (simp_all add: async_at_def Let_def)
  have "length ?D < 2 ^ 31" using hold by (simp add: can_hold_def)
  from fillupBuffer_fills [OF g(1-4) this] obtain d n' r' where f:
    "fillupBuffer read (mDataContainer g) ?n r = Some (n' = length ?D, d, n', r')" "length d = length ?D"
    "n' \<le> length ?D" "take n' d = take n' ?D" "avail r' = drop n' ?D @ rest" by blast
  show ?thesis
    using f g(5) st
    by (intro exI [of _ "n' = length ?D"]) (auto simp: parseBody_def async_at_def Let_def same_fields_def)
qed

lemma AsyncDeserializeFrom_at:
  assumes at: "async_at f rest (avail r) g" and st: "fr_state g \<noteq> DESERIALIZED" and hold: "can_hold new_char f"
  shows "\<exists>b g' r'. AsyncDeserializeFrom new_char read g r = (Returned b, g', r') \<and>
           async_at f rest (avail r') g' \<and> b = (fr_state g' = DESERIALIZED)"
proof -
  let ?A = "AsyncDeserializeFrom new_char read"
  let ?goal = "\<lambda>g r. \<exists>b g' r'. ?A g r = (Returned b, g', r') \<and>
           async_at f rest (avail r') g' \<and> b = (fr_state g' = DESERIALIZED)"
  have body: "?goal g r" if "async_at f rest (avail r) g" "fr_state g = V4L_BODY" for g r
    using parseBody_at [OF that hold] that(2) by (subst AsyncDeserializeFrom.simps) (auto split: if_splits)
  have head: "?goal g r" if "async_at f rest (avail r) g" "fr_state g = V4L_HEADER" for g r
    using parseV4LFrameHeader_at [OF that] that(2) body
    by (subst AsyncDeserializeFrom.simps) (auto split: if_splits)
  have first: "?goal g r" if "async_at f rest (avail r) g" "fr_state g = IF_HEADER" for g r
    using parseIFrameHeader_at [OF that hold] that(2) head
    by (subst AsyncDeserializeFrom.simps) (auto split: if_splits)
  show ?thesis using first [OF at] head [OF at] body [OF at] st by (cases "fr_state g") auto
qed

lemma async_at_new: "avail r = wire_header f @ mDataContainer f @ rest \<Longrightarrow> async_at f rest (avail r) V4LFrame_new"
  by (simp add: async_at_def V4LFrame_new_def)

end

text \<open>A receiver calls \<open>AsyncDeserializeFrom\<close> again whenever the stream may have more.\<close>

fun async_calls ::
  "nat \<Rightarrow> (nat \<Rightarrow> byte list option) \<Rightarrow> 'r reader \<Rightarrow> V4LFrame \<Rightarrow> 'r \<Rightarrow> outcome \<times> V4LFrame \<times> 'r" where
  "async_calls 0 new_char read f r = (Returned False, f, r)"
| "async_calls (Suc k) new_char read f r =
     (case AsyncDeserializeFrom new_char read f r of
        (Returned False, f, r) \<Rightarrow> async_calls k new_char read f r
      | res \<Rightarrow> res)"

context byte_stream
begin

lemma async_calls_at:
  assumes "can_hold new_char f"
  shows "async_at f rest (avail r) g \<Longrightarrow> fr_state g \<noteq> DESERIALIZED \<Longrightarrow>
    \<exists>b g' r'. async_calls k new_char read g r = (Returned b, g', r') \<and> async_at f rest (avail r') g' \<and>
      b = (fr_state g' = DESERIALIZED)"
proof (induction k arbitrary: g r)
  case 0
  then show ?case by (intro exI [of _ False]) simp
next
  case (Suc k)
  from AsyncDeserializeFrom_at [OF Suc.prems assms] obtain b g1 r1 where
    one: "AsyncDeserializeFrom new_char read g r = (Returned b, g1, r1)" "async_at f rest (avail r1) g1"
      "b = (fr_state g1 = DESERIALIZED)" by blast
  show ?case
  proof (cases b)
    case True
    with one show ?thesis by (intro exI [of _ True]) simp
  next
    case False
    with one Suc.IH [OF one(2)] show ?thesis by simp
  qed
qed

end

text \<open>
  C2. However the bytes of a frame arrive, in pieces of any size spread over any number of calls,
  \<open>AsyncDeserializeFrom\<close> never throws and never touches memory outside its buffers; it reports success
  only when the whole frame is there, and the object then has exactly the sender's fields (the name
  cut to 63 bytes) and data, with the bytes that follow the frame still in the stream.
\<close>

theorem async_reads_any_chunking:
  assumes "byte_stream read avail" and "can_hold new_char f"
    and "avail r = wire_header f @ mDataContainer f @ rest"
  shows "\<exists>b g' r'. async_calls k new_char read V4LFrame_new r = (Returned b, g', r') \<and>
           (if b then same_fields f g' \<and> mDataContainer g' = mDataContainer f \<and> avail r' = rest
            else length rest \<le> length (avail r') \<and> fr_state g' \<noteq> DESERIALIZED)"
proof -
  from byte_stream.async_calls_at [where k = k, OF assms(1,2) byte_stream.async_at_new [OF assms(1,3)]] obtain b g' r' where
    r: "async_calls k new_char read V4LFrame_new r = (Returned b, g', r')" "async_at f rest (avail r') g'"
      "b = (fr_state g' = DESERIALIZED)" by (auto simp: V4LFrame_new_def)
  then have "if b then same_fields f g' \<and> mDataContainer g' = mDataContainer f \<and> avail r' = rest
      else length rest \<le> length (avail r') \<and> fr_state g' \<noteq> DESERIALIZED"
    by (cases "fr_state g'") (auto simp: async_at_def Let_def)
  with r(1) show ?thesis by blast
qed


text \<open>A stream whose bytes arrive by a schedule: each call delivers at most the next number of bytes.\<close>

fun scheduled_read :: "(byte list \<times> nat list) reader" where
  "scheduled_read n (bs, []) = (Inr [], (bs, []))"
| "scheduled_read n (bs, k # ks) = (Inr (take (min n k) bs), (drop (min n k) bs, ks))"

interpretation scheduled: byte_stream scheduled_read fst
proof unfold_locales
  fix n :: nat and r r' :: "byte list \<times> nat list" and bs e
  show "scheduled_read n r = (Inr bs, r') \<Longrightarrow> length bs \<le> n \<and> fst r = bs @ fst r'"
    by (cases "(n, r)" rule: scheduled_read.cases) auto
  show "scheduled_read n r = (Inl e, r') \<Longrightarrow> fst r' = fst r"
    by (cases "(n, r)" rule: scheduled_read.cases) auto
qed

definition small_frame :: V4LFrame where
  "small_frame = V4LFrame_new\<lparr>mDataContainer := [9, 8, 7], mName := [65, 66], mTimestamp := 5\<rparr>"

definition zero_char :: "nat \<Rightarrow> byte list option" where
  "zero_char n = (if n < 2 ^ 20 then Some (replicate n 0) else None)"

lemma can_hold_small: "can_hold zero_char small_frame"
  by (simp add: can_hold_def zero_char_def small_frame_def wire_video_def wire_name_def layout_consts
      getPaddedSize_def V4LFrame_new_def)

theorem async_reads_any_chunking_witness:
  "\<exists>b g' r'. async_calls 4 zero_char scheduled_read V4LFrame_new
       (wire_header small_frame @ mDataContainer small_frame @ [1, 2], [3, 5, 0, 40, 0, 10, 2, 0, 1]) = (Returned b, g', r') \<and>
     (if b then same_fields small_frame g' \<and> mDataContainer g' = mDataContainer small_frame \<and> fst r' = [1, 2]
      else length ([1, 2] :: byte list) \<le> length (fst r') \<and> fr_state g' \<noteq> DESERIALIZED)"
  by (rule async_reads_any_chunking [OF scheduled.byte_stream_axioms can_hold_small]) simp

end
