(* ===== verification/Frame_Progress.thy ===== *)
theory Frame_Progress
  imports V4L_Frame
begin

text \<open>
  The states of the incremental reader in the order of the enumeration: \<open>AsyncDeserializeFrom\<close> only ever
  moves forward in it, whatever the stream delivers, so a caller may compare states, and it reports
  success in the last one only.
\<close>

instantiation State :: linorder
begin

definition less_eq_State :: "State \<Rightarrow> State \<Rightarrow> bool" where
  "less_eq_State a b \<longleftrightarrow> state_rank b \<le> state_rank a"

definition less_State :: "State \<Rightarrow> State \<Rightarrow> bool" where
  "less_State a b \<longleftrightarrow> state_rank b < state_rank a"

instance
proof
  fix a b :: State
  show "a \<le> b \<Longrightarrow> b \<le> a \<Longrightarrow> a = b" by (cases a; cases b) (simp_all add: less_eq_State_def)
qed (auto simp: less_eq_State_def less_State_def)

end

lemma state_order: "IF_HEADER < V4L_HEADER" "V4L_HEADER < V4L_BODY" "V4L_BODY < DESERIALIZED" "IF_HEADER \<le> s" "s \<le> DESERIALIZED"
  by (cases s; simp add: less_eq_State_def less_State_def)+

lemma parse_keeps_state:
  "parseIFrameHeader new_char read f r = (res, f', r') \<Longrightarrow> fr_state f' = (if res = Returned True then V4L_HEADER else fr_state f)"
  "parseV4LFrameHeader read f r = (res, f', r') \<Longrightarrow> fr_state f' = (if res = Returned True then V4L_BODY else fr_state f)"
  "parseBody read f r = (res, f', r') \<Longrightarrow> fr_state f' = (if res = Returned True then DESERIALIZED else fr_state f)"
  by (auto simp: parseIFrameHeader_def parseV4LFrameHeader_def parse_fields_def parseBody_def Let_def
      split: option.splits prod.splits bool.splits if_splits outcome.splits)

text \<open>
  One call never moves a frame object back to an earlier state, on any stream, error or not; it reports
  success exactly when it moves the object into the last state, and an object that is there already
  makes it throw and change nothing.
\<close>

theorem async_state_monotone:
  assumes "AsyncDeserializeFrom new_char read f r = (res, f', r')"
  shows "fr_state f \<le> fr_state f' \<and>
     (res = Returned True \<longleftrightarrow> fr_state f < DESERIALIZED \<and> fr_state f' = DESERIALIZED) \<and>
     (fr_state f = DESERIALIZED \<longrightarrow> res = Threw Already_deserialized \<and> f' = f \<and> r' = r)"
  using assms
proof (induction new_char read f r rule: AsyncDeserializeFrom.induct)
  case (1 new_char read f r)
  show ?case
  proof (cases "fr_state f")
    case IF_HEADER
    obtain res1 f1 r1 where p: "parseIFrameHeader new_char read f r = (res1, f1, r1)"
      by (cases "parseIFrameHeader new_char read f r")
    note st = parse_keeps_state(1) [OF p]
    show ?thesis
    proof (cases "res1 = Returned True")
      case True
      with "1.prems" p IF_HEADER have "AsyncDeserializeFrom new_char read f1 r1 = (res, f', r')"
        by (simp add: AsyncDeserializeFrom.simps [of new_char read f])
      with "1.IH"(1) [OF IF_HEADER p [symmetric] True] True st IF_HEADER state_order show ?thesis by (auto simp: p)
    next
      case False
      with "1.prems" p IF_HEADER have "res = res1" "f' = f1"
        by (auto simp: AsyncDeserializeFrom.simps [of new_char read f] split: outcome.splits bool.splits)
      with False st IF_HEADER show ?thesis by (auto simp: less_State_def)
    qed
  next
    case V4L_HEADER
    obtain res1 f1 r1 where p: "parseV4LFrameHeader read f r = (res1, f1, r1)" by (cases "parseV4LFrameHeader read f r")
    note st = parse_keeps_state(2) [OF p]
    show ?thesis
    proof (cases "res1 = Returned True")
      case True
      with "1.prems" p V4L_HEADER have "AsyncDeserializeFrom new_char read f1 r1 = (res, f', r')"
        by (simp add: AsyncDeserializeFrom.simps [of new_char read f])
      with "1.IH"(2) [OF V4L_HEADER p [symmetric] True] True st V4L_HEADER state_order show ?thesis by (auto simp: p)
    next
      case False
      with "1.prems" p V4L_HEADER have "res = res1" "f' = f1"
        by (auto simp: AsyncDeserializeFrom.simps [of new_char read f] split: outcome.splits bool.splits)
      with False st V4L_HEADER show ?thesis by (auto simp: less_State_def)
    qed
  next
    case V4L_BODY
    with "1.prems" have "parseBody read f r = (res, f', r')" by (simp add: AsyncDeserializeFrom.simps [of new_char read f])
    from parse_keeps_state(3) [OF this] V4L_BODY show ?thesis by (auto simp: less_eq_State_def less_State_def)
  next
    case DESERIALIZED
    with "1.prems" show ?thesis by (auto simp: AsyncDeserializeFrom.simps [of new_char read f])
  qed
qed

theorem async_state_monotone_witness:
  "fr_state small_frame \<le> fr_state (fst (snd (AsyncDeserializeFrom zero_char scheduled_read small_frame ([1, 2], [1]))))"
proof -
  obtain res f' r' where a: "AsyncDeserializeFrom zero_char scheduled_read small_frame ([1, 2], [1]) = (res, f', r')"
    by (cases "AsyncDeserializeFrom zero_char scheduled_read small_frame ([1, 2], [1])")
  from async_state_monotone [OF a] a show ?thesis by simp
qed

end
