(* ===== verification/Data_Container.thy ===== *)
theory Data_Container
  imports Prelude
begin

text \<open>
  \<open>DataContainer\<close>, \<open>OwnedDataContainer\<close> and \<open>CopiedDataContainer\<close> (MLCommon/inc/Types/DataContainer.h):
  a pointer and a size. The heap maps addresses to blocks; \<open>None\<close> is undefined behaviour: deleting or
  reading a block that is not there, reading past its end. A null pointer is \<open>None\<close>.
\<close>

section \<open>Heap and containers\<close>

record char_heap =
  block :: "nat \<rightharpoonup> byte list"
  fresh :: nat

definition new_block :: "byte list \<Rightarrow> char_heap \<Rightarrow> nat \<times> char_heap" where
  "new_block bs h = (fresh h, \<lparr>block = (block h)(fresh h \<mapsto> bs), fresh = fresh h + 1\<rparr>)"

definition delete_block :: "nat option \<Rightarrow> char_heap \<Rightarrow> char_heap option" where
  "delete_block p h =
     (case p of
        None \<Rightarrow> Some h
      | Some a \<Rightarrow> (case block h a of None \<Rightarrow> None | Some _ \<Rightarrow> Some (h\<lparr>block := (block h)(a := None)\<rparr>)))"

definition read_block :: "nat option \<Rightarrow> nat \<Rightarrow> char_heap \<Rightarrow> byte list option" where
  "read_block p n h =
     (if n = 0 then Some []
      else do { a \<leftarrow> p; bs \<leftarrow> block h a; if n \<le> length bs then Some (take n bs) else None })"

record DataContainer =
  mData :: "nat option"
  mDataSize :: nat

definition DataContainer_new :: DataContainer where
  "DataContainer_new = \<lparr>mData = None, mDataSize = 0\<rparr>"

definition DataContainer_SetData :: "nat option \<Rightarrow> nat \<Rightarrow> DataContainer \<Rightarrow> DataContainer" where
  "DataContainer_SetData p n c = c\<lparr>mData := p, mDataSize := n\<rparr>"

text \<open>The destructor of \<open>OwnedDataContainer\<close> calls the callback, if one was set, on the pointer.\<close>

definition OwnedDataContainer_destroy :: "(nat option \<Rightarrow> 'w \<Rightarrow> 'w) option \<Rightarrow> DataContainer \<Rightarrow> 'w \<Rightarrow> 'w" where
  "OwnedDataContainer_destroy onDestroy c w = (case onDestroy of None \<Rightarrow> w | Some f \<Rightarrow> f (mData c) w)"

definition CopiedDataContainer_new :: "byte list \<Rightarrow> char_heap \<Rightarrow> DataContainer \<times> char_heap" where
  "CopiedDataContainer_new data h =
     (case new_block data h of (a, h) \<Rightarrow> (\<lparr>mData = Some a, mDataSize = length data\<rparr>, h))"

definition CopiedDataContainer_copy :: "DataContainer \<Rightarrow> char_heap \<Rightarrow> (DataContainer \<times> char_heap) option" where
  "CopiedDataContainer_copy other h = do {
     data \<leftarrow> read_block (mData other) (mDataSize other) h;
     Some (CopiedDataContainer_new data h)
   }"

text \<open>Copy assignment; the caller has checked that the two objects are different.\<close>

definition CopiedDataContainer_assign ::
  "DataContainer \<Rightarrow> DataContainer \<Rightarrow> char_heap \<Rightarrow> (DataContainer \<times> char_heap) option" where
  "CopiedDataContainer_assign self src h = do {
     h \<leftarrow> delete_block (mData self) h;
     data \<leftarrow> read_block (mData src) (mDataSize src) h;
     (case new_block data h of (a, h) \<Rightarrow> Some (self\<lparr>mData := Some a, mDataSize := mDataSize src\<rparr>, h))
   }"

definition CopiedDataContainer_destroy :: "DataContainer \<Rightarrow> char_heap \<Rightarrow> char_heap option" where
  "CopiedDataContainer_destroy c h = delete_block (mData c) h"

section \<open>Programs over containers\<close>

text \<open>The objects of a program by name, and its operations on them. Moves are swaps.\<close>

datatype container_op =
    Construct nat "byte list"
  | Copy nat nat
  | Move_construct nat nat
  | Assign nat nat
  | Move_assign nat nat
  | Destroy nat

type_synonym program_state = "(nat \<rightharpoonup> DataContainer) \<times> char_heap"

fun container_step :: "container_op \<Rightarrow> program_state \<Rightarrow> program_state option" where
  "container_step (Construct x data) (vars, h) =
     (if vars x \<noteq> None then None
      else case CopiedDataContainer_new data h of (c, h) \<Rightarrow> Some (vars(x \<mapsto> c), h))"
| "container_step (Copy x y) (vars, h) = do {
     c \<leftarrow> vars y;
     if vars x \<noteq> None then None
     else do { (c, h) \<leftarrow> CopiedDataContainer_copy c h; Some (vars(x \<mapsto> c), h) }
   }"
| "container_step (Move_construct x y) (vars, h) = do {
     c \<leftarrow> vars y;
     if vars x \<noteq> None then None else Some (vars(x \<mapsto> c, y \<mapsto> DataContainer_new), h)
   }"
| "container_step (Assign x y) (vars, h) = do {
     self \<leftarrow> vars x;
     src \<leftarrow> vars y;
     if x = y then Some (vars, h)
     else do { (c, h) \<leftarrow> CopiedDataContainer_assign self src h; Some (vars(x \<mapsto> c), h) }
   }"
| "container_step (Move_assign x y) (vars, h) = do {
     self \<leftarrow> vars x;
     src \<leftarrow> vars y;
     Some (vars(x \<mapsto> src, y \<mapsto> self), h)
   }"
| "container_step (Destroy x) (vars, h) = do {
     c \<leftarrow> vars x;
     h \<leftarrow> CopiedDataContainer_destroy c h;
     Some (vars(x := None), h)
   }"

text \<open>Operations that the type system allows: of live objects, constructing under a new name.\<close>

fun well_named :: "container_op \<Rightarrow> nat set \<Rightarrow> bool" where
  "well_named (Construct x data) L \<longleftrightarrow> x \<notin> L"
| "well_named (Copy x y) L \<longleftrightarrow> x \<notin> L \<and> y \<in> L"
| "well_named (Move_construct x y) L \<longleftrightarrow> x \<notin> L \<and> y \<in> L"
| "well_named (Assign x y) L \<longleftrightarrow> x \<in> L \<and> y \<in> L"
| "well_named (Move_assign x y) L \<longleftrightarrow> x \<in> L \<and> y \<in> L"
| "well_named (Destroy x) L \<longleftrightarrow> x \<in> L"

text \<open>
  Every block is owned by one object: a null pointer has size zero, a pointer leads to a block of the
  object's size, no two objects share one, and every block has its owner (nothing leaks).
\<close>

definition owns :: "program_state \<Rightarrow> bool" where
  "owns s \<longleftrightarrow> (case s of (vars, h) \<Rightarrow>
     (\<forall>x c. vars x = Some c \<longrightarrow> mData c = None \<longrightarrow> mDataSize c = 0) \<and>
     (\<forall>x c a. vars x = Some c \<longrightarrow> mData c = Some a \<longrightarrow>
        a < fresh h \<and> (\<exists>bs. block h a = Some bs \<and> length bs = mDataSize c)) \<and>
     (\<forall>x y c d a. vars x = Some c \<longrightarrow> vars y = Some d \<longrightarrow> mData c = Some a \<longrightarrow> mData d = Some a \<longrightarrow> x = y) \<and>
     (\<forall>a bs. block h a = Some bs \<longrightarrow> (\<exists>x c. vars x = Some c \<and> mData c = Some a)))"

definition contents :: "program_state \<Rightarrow> nat \<Rightarrow> byte list option" where
  "contents s x = (case s of (vars, h) \<Rightarrow>
     do { c \<leftarrow> vars x; case mData c of None \<Rightarrow> Some [] | Some a \<Rightarrow> block h a })"


text \<open>The contract: values.\<close>

fun value_step :: "container_op \<Rightarrow> (nat \<rightharpoonup> byte list) \<Rightarrow> (nat \<rightharpoonup> byte list)" where
  "value_step (Construct x data) m = m(x \<mapsto> data)"
| "value_step (Copy x y) m = m(x := m y)"
| "value_step (Move_construct x y) m = m(x := m y, y := Some [])"
| "value_step (Assign x y) m = m(x := m y)"
| "value_step (Move_assign x y) m = m(x := m y, y := m x)"
| "value_step (Destroy x) m = m(x := None)"

section \<open>Ownership\<close>

definition held :: "char_heap \<Rightarrow> DataContainer \<Rightarrow> byte list" where
  "held h c = (case mData c of None \<Rightarrow> [] | Some a \<Rightarrow> the (block h a))"

lemma ownsD:
  assumes "owns (vars, h)"
  shows "vars x = Some c \<Longrightarrow> mData c = None \<Longrightarrow> mDataSize c = 0"
    and "vars x = Some c \<Longrightarrow> mData c = Some a \<Longrightarrow> a < fresh h \<and> (\<exists>bs. block h a = Some bs \<and> length bs = mDataSize c)"
    and "vars x = Some c \<Longrightarrow> vars y = Some d \<Longrightarrow> mData c = Some a \<Longrightarrow> mData d = Some a \<Longrightarrow> x = y"
    and "block h a = Some bs \<Longrightarrow> \<exists>x c. vars x = Some c \<and> mData c = Some a"
  using assms unfolding owns_def prod.case by blast+

lemma owns_read:
  assumes "owns (vars, h)" "vars x = Some c"
  shows "read_block (mData c) (mDataSize c) h = Some (held h c) \<and> contents (vars, h) x = Some (held h c) \<and>
         length (held h c) = mDataSize c"
proof (cases "mData c")
  case None
  with ownsD(1) [OF assms] assms(2) show ?thesis by (simp add: read_block_def contents_def held_def)
next
  case (Some a)
  with ownsD(2) [OF assms Some] assms(2) show ?thesis by (auto simp: read_block_def contents_def held_def)
qed

lemma owns_delete:
  assumes "owns (vars, h)" "vars x = Some c"
  shows "\<exists>h'. delete_block (mData c) h = Some h' \<and> fresh h' = fresh h \<and>
           block h' = (\<lambda>a. if mData c = Some a then None else block h a)"
  using ownsD(2) [OF assms] by (cases "mData c") (auto simp: delete_block_def fun_eq_iff)

text \<open>The heap without the block of one name.\<close>

lemma owns_remove:
  assumes own: "owns (vars, h)" and h': "fresh h' = fresh h"
    "block h' = (\<lambda>a. if \<exists>c. vars x = Some c \<and> mData c = Some a then None else block h a)"
  shows "owns (vars(x := None), h')"
  unfolding owns_def prod.case
proof (intro conjI allI impI)
  fix y c assume "(vars(x := None)) y = Some c" "mData c = None"
  then show "mDataSize c = 0" using ownsD(1) [OF own] by (auto split: if_splits)
next
  fix y c a assume y: "(vars(x := None)) y = Some c" "mData c = Some a"
  then have "y \<noteq> x" "vars y = Some c" by (auto split: if_splits)
  with y(2) ownsD(2,3) [OF own] show "a < fresh h'" "\<exists>bs. block h' a = Some bs \<and> length bs = mDataSize c"
    unfolding h' by metis+
next
  fix y z c d a
  assume "(vars(x := None)) y = Some c" "(vars(x := None)) z = Some d" "mData c = Some a" "mData d = Some a"
  then show "y = z" using ownsD(3) [OF own] by (auto split: if_splits)
next
  fix a bs assume a: "block h' a = Some bs"
  then obtain y c where y: "vars y = Some c" "mData c = Some a" using ownsD(4) [OF own] unfolding h'
    by (metis option.distinct(1))
  with a have "y \<noteq> x" unfolding h' by auto
  with y show "\<exists>y c. (vars(x := None)) y = Some c \<and> mData c = Some a" by auto
qed

lemma owns_add:
  assumes own: "owns (vars, h)" and "vars x = None"
  shows "owns (vars(x \<mapsto> \<lparr>mData = Some (fresh h), mDataSize = length data\<rparr>),
           \<lparr>block = (block h)(fresh h \<mapsto> data), fresh = fresh h + 1\<rparr>)"
proof -
  have new: "vars y = Some c \<Longrightarrow> mData c \<noteq> Some (fresh h)" for y c
    using ownsD(2) [OF own, of y c "fresh h"] by auto
  show ?thesis
    unfolding owns_def prod.case
  proof (intro conjI allI impI, goal_cases)
    case (1 y c)
    then show ?case using ownsD(1) [OF own] by (auto split: if_splits)
  next
    case (2 y c a)
    then show ?case using ownsD(2) [OF own, of y c a] by (auto split: if_splits)
  next
    case (3 y c a)
    then show ?case using ownsD(2) [OF own, of y c a] new [of y c] by (auto split: if_splits)
  next
    case (4 y z c d a)
    then show ?case using ownsD(3) [OF own, of y c z d a] new [of y c] new [of z d] by (auto split: if_splits)
  next
    case (5 a bs)
    then show ?case using ownsD(4) [OF own, of a bs] assms(2) by (auto split: if_splits) (metis option.distinct(1))
  qed
qed

lemma contents_eq:
  "contents (vars, h) = (\<lambda>x. map_option (held h) (vars x))" if "owns (vars, h)"
proof
  fix x
  show "contents (vars, h) x = map_option (held h) (vars x)"
    using owns_read [OF that, of x] by (cases "vars x") (auto simp: contents_def)
qed

lemma contents_remove:
  assumes own: "owns (vars, h)" and h': "block h' = (\<lambda>a. if \<exists>c. vars x = Some c \<and> mData c = Some a then None else block h a)"
    and "vars y = Some c" "y \<noteq> x"
  shows "held h' c = held h c"
  using ownsD(3) [OF own, of y c x] assms(3,4) by (auto simp: held_def h' split: option.split)

lemma held_new: "owns (vars, h) \<Longrightarrow> vars y = Some c \<Longrightarrow> held \<lparr>block = (block h)(fresh h \<mapsto> data), fresh = k\<rparr> c = held h c"
  using ownsD(2) [of vars h y c "fresh h"] ownsD(2) [of vars h y c]
  by (auto simp: held_def split: option.split)


lemma owns_move:
  assumes own: "owns (vars, h)" "vars y = Some c" "vars x = None"
  shows "owns (vars(x \<mapsto> c, y \<mapsto> DataContainer_new), h)"
proof -
  have ne: "x \<noteq> y" using own by auto
  have old: "z = x \<and> d = c \<or> z \<noteq> x \<and> z \<noteq> y \<and> vars z = Some d"
    if "(vars(x \<mapsto> c, y \<mapsto> DataContainer_new)) z = Some d" "mData d = Some a" for z d a
    using that ne by (auto simp: DataContainer_new_def split: if_splits)
  show ?thesis
    unfolding owns_def prod.case
  proof (intro conjI allI impI, goal_cases)
    case (1 z d)
    then show ?case using ownsD(1) [OF own(1)] own(2) by (auto simp: DataContainer_new_def split: if_splits)
  next
    case (2 z d a)
    from old [OF this] ownsD(2) [OF own(1)] own(2) 2 show ?case by blast
  next
    case (3 z d a)
    from old [OF this] ownsD(2) [OF own(1)] own(2) 3 show ?case by blast
  next
    case (4 z u d e a)
    from old [OF 4(1,3)] old [OF 4(2,4)] ownsD(3) [OF own(1)] own(2) 4(3,4) show ?case by metis
  next
    case (5 a bs)
    then obtain z d where z: "vars z = Some d" "mData d = Some a" using ownsD(4) [OF own(1)] by blast
    show ?case
    proof (cases "z = y")
      case True
      with z own(2) ne show ?thesis by (intro exI [of _ x] exI [of _ c]) simp
    next
      case False
      moreover have "z \<noteq> x" using z own(3) by auto
      ultimately show ?thesis using z by (intro exI [of _ z] exI [of _ d]) simp
    qed
  qed
qed

lemma owns_swap:
  assumes own: "owns (vars, h)" "vars x = Some c" "vars y = Some d"
  shows "owns (vars(x \<mapsto> d, y \<mapsto> c), h)"
  unfolding owns_def prod.case
proof (intro conjI allI impI, goal_cases)
  case (1 z e)
  then show ?case using ownsD(1) [OF own(1)] own by (auto split: if_splits)
next
  case (2 z e a)
  then show ?case using ownsD(2) [OF own(1)] own by (auto split: if_splits)
next
  case (3 z e a)
  then show ?case using ownsD(2) [OF own(1)] own by (auto split: if_splits)
next
  case (4 z u e f a)
  then show ?case using ownsD(3) [OF own(1)] own by (auto split: if_splits)
next
  case (5 a bs)
  then obtain z e where z: "vars z = Some e" "mData e = Some a" using ownsD(4) [OF own(1)] by blast
  consider "z = x" | "z = y" "z \<noteq> x" | "z \<noteq> x" "z \<noteq> y" by blast
  then show ?case
  proof cases
    case 1
    with z own show ?thesis by (intro exI [of _ y] exI [of _ c]) simp
  next
    case 2
    with z own show ?thesis by (intro exI [of _ x] exI [of _ d]) simp
  next
    case 3
    with z show ?thesis by (intro exI [of _ z] exI [of _ e]) simp
  qed
qed

lemma owns_allocate:
  assumes own: "owns (vars, h)" and new: "vars x = None"
  shows "\<exists>s'. Some (vars(x \<mapsto> \<lparr>mData = Some (fresh h), mDataSize = length data\<rparr>),
      \<lparr>block = (block h)(fresh h \<mapsto> data), fresh = fresh h + 1\<rparr>) = Some s' \<and> owns s' \<and>
      contents s' = (contents (vars, h))(x \<mapsto> data)"
  using owns_add [OF own new, of data] own new
  by (auto simp: contents_eq fun_eq_iff held_new held_def [of _ "\<lparr>mData = Some (fresh h), mDataSize = length data\<rparr>"]
      intro!: map_option_cong split: option.split)

lemma assign_values:
  assumes own: "owns (vars, h)" and c: "vars x = Some c" "vars y = Some d" and False: "x \<noteq> y"
  shows "\<exists>s'. container_step (Assign x y) (vars, h) = Some s' \<and> owns s' \<and>
      contents s' = value_step (Assign x y) (contents (vars, h))"
proof -
  obtain h1 where h1: "delete_block (mData c) h = Some h1" "fresh h1 = fresh h"
    "block h1 = (\<lambda>a. if mData c = Some a then None else block h a)"
    using owns_delete [OF own c(1)] by blast
  then have h1': "block h1 = (\<lambda>a. if \<exists>c. vars x = Some c \<and> mData c = Some a then None else block h a)"
    using c(1) by simp
  note rem = owns_remove [OF own h1(2) h1']
  have keep: "vars z = Some e \<Longrightarrow> z \<noteq> x \<Longrightarrow> held h1 e = held h e" for z e
    by (rule contents_remove [OF own h1'])
  have rd: "read_block (mData d) (mDataSize d) h1 = Some (held h d)"
    using owns_read [OF rem, of y d] c(2) False keep by auto
  have len: "length (held h d) = mDataSize d" using owns_read [OF own c(2)] by simp
  have add1: "owns (vars(x \<mapsto> \<lparr>mData = Some (fresh h), mDataSize = mDataSize d\<rparr>),
      \<lparr>block = (block h1)(fresh h \<mapsto> held h d), fresh = fresh h + 1\<rparr>)"
    using owns_add [OF rem, of x "held h d"] h1(2) len by simp
  have new: "vars z = Some e \<Longrightarrow> z \<noteq> x \<Longrightarrow>
      held \<lparr>block = (block h1)(fresh h \<mapsto> held h d), fresh = fresh h + 1\<rparr> e = held h e" for z e
    using held_new [OF rem, of z e "held h d" "fresh h + 1"] keep h1(2) by auto
  have "contents (vars(x \<mapsto> \<lparr>mData = Some (fresh h), mDataSize = mDataSize d\<rparr>),
      \<lparr>block = (block h1)(fresh h \<mapsto> held h d), fresh = fresh h + 1\<rparr>) = (contents (vars, h))(x := contents (vars, h) y)"
    unfolding contents_eq [OF add1] contents_eq [OF own]
    using c new
    by (auto simp: fun_eq_iff held_def [of _ "\<lparr>mData = Some (fresh h), mDataSize = mDataSize d\<rparr>"]
        intro!: map_option_cong)
  moreover have rec: "c\<lparr>mData := p, mDataSize := n\<rparr> = \<lparr>mData = p, mDataSize = n\<rparr>" for p n by (cases c) simp
  ultimately show ?thesis using add1 c False h1 rd
    by (simp add: CopiedDataContainer_assign_def new_block_def rec)
qed

lemma destroy_values:
  assumes own: "owns (vars, h)" and c: "vars x = Some c"
  shows "\<exists>s'. container_step (Destroy x) (vars, h) = Some s' \<and> owns s' \<and>
      contents s' = value_step (Destroy x) (contents (vars, h))"
proof -
  obtain h1 where h1: "delete_block (mData c) h = Some h1" "fresh h1 = fresh h"
    "block h1 = (\<lambda>a. if mData c = Some a then None else block h a)"
    using owns_delete [OF own c(1)] by blast
  then have h1': "block h1 = (\<lambda>a. if \<exists>c. vars x = Some c \<and> mData c = Some a then None else block h a)"
    using c(1) by simp
  note rem = owns_remove [OF own h1(2) h1']
  have "contents (vars(x := None), h1) = (contents (vars, h))(x := None)"
    unfolding contents_eq [OF rem] contents_eq [OF own]
    using contents_remove [OF own h1'] by (auto simp: fun_eq_iff intro!: map_option_cong)
  with rem c h1 show ?thesis by (simp add: CopiedDataContainer_destroy_def)
qed


definition two_containers :: program_state where
  "two_containers =
     ([0 \<mapsto> \<lparr>mData = Some 0, mDataSize = 1\<rparr>, 1 \<mapsto> \<lparr>mData = Some 1, mDataSize = 2\<rparr>],
      \<lparr>block = [0 \<mapsto> [5], 1 \<mapsto> [6, 7]], fresh = 2\<rparr>)"


end
