(* ===== verification/Tools_Utils.thy ===== *)
theory Tools_Utils
  imports Prelude
begin

text \<open>
  The small tools of MLCommon: \<open>Utils\<close>, \<open>MemWritter\<close>, \<open>JsonReader\<close>, \<open>ConfigManager\<close>, \<open>Module\<close>
  and \<open>SensorId\<close>. What a directory, a file's status, an XML element or a JSON object contains is an
  argument.
\<close>

section \<open>Names of files\<close>

definition endsWith :: "string \<Rightarrow> string \<Rightarrow> bool" where
  "endsWith str suffix \<longleftrightarrow>
     length suffix \<le> length str \<and> take (length suffix) (drop (length str - length suffix) str) = suffix"

definition removeFileExtension :: "string \<Rightarrow> string" where
  "removeFileExtension filePath =
     (case str_find_last filePath CHR ''.'' of None \<Rightarrow> filePath | Some pos \<Rightarrow> substr filePath 0 pos)"

definition separator :: char where
  "separator = CHR ''/''"

text \<open>A directory's entries as \<open>readdir\<close> delivers them; \<open>None\<close> when \<open>opendir\<close> fails.\<close>

datatype d_type = DT_DIR | DT_REG | DT_OTHER

fun forEachDirectory_loop :: "(d_type \<times> string) list \<Rightarrow> string list" where
  "forEachDirectory_loop [] = []"
| "forEachDirectory_loop ((t, name) # es) =
     (if t = DT_DIR \<and> take 2 name \<noteq> ''..'' \<and> take 1 name \<noteq> ''.'' then name # forEachDirectory_loop es
      else forEachDirectory_loop es)"

definition forEachDirectory :: "(d_type \<times> string) list option \<Rightarrow> string list" where
  "forEachDirectory dir = (case dir of None \<Rightarrow> [] | Some es \<Rightarrow> forEachDirectory_loop es)"

fun forEachFile_loop :: "(d_type \<times> string) list \<Rightarrow> string list" where
  "forEachFile_loop [] = []"
| "forEachFile_loop ((t, name) # es) = (if t = DT_REG then name # forEachFile_loop es else forEachFile_loop es)"

definition forEachFile :: "(d_type \<times> string) list option \<Rightarrow> string list" where
  "forEachFile dir = (case dir of None \<Rightarrow> [] | Some es \<Rightarrow> forEachFile_loop es)"

definition getLastModificationTime :: "(string \<Rightarrow> int option) \<Rightarrow> string \<Rightarrow> int" where
  "getLastModificationTime stat filePath = (case stat filePath of None \<Rightarrow> 0 | Some st_mtime \<Rightarrow> st_mtime)"

text \<open>
  On Windows an entry carries attributes: \<open>forEachDirectory\<close> then hands over \<open>.\<close>, \<open>..\<close> and what Linux
  hides, and \<open>forEachFile\<close> asks for an attribute that only a file without any other has. \<open>None\<close> is a
  search that finds nothing.
\<close>

definition FILE_ATTRIBUTE_DIRECTORY :: u32 where "FILE_ATTRIBUTE_DIRECTORY = 0x10"
definition FILE_ATTRIBUTE_NORMAL :: u32 where "FILE_ATTRIBUTE_NORMAL = 0x80"

fun windows_entries :: "u32 \<Rightarrow> (u32 \<times> string) list \<Rightarrow> string list" where
  "windows_entries attribute [] = []"
| "windows_entries attribute ((dwFileAttributes, cFileName) # es) =
     (if dwFileAttributes AND attribute \<noteq> 0 then cFileName # windows_entries attribute es else windows_entries attribute es)"

definition windows_forEachDirectory :: "(u32 \<times> string) list option \<Rightarrow> string list" where
  "windows_forEachDirectory found = (case found of None \<Rightarrow> [] | Some es \<Rightarrow> windows_entries FILE_ATTRIBUTE_DIRECTORY es)"

definition windows_forEachFile :: "(u32 \<times> string) list option \<Rightarrow> string list" where
  "windows_forEachFile found = (case found of None \<Rightarrow> [] | Some es \<Rightarrow> windows_entries FILE_ATTRIBUTE_NORMAL es)"

definition windows_separator :: char where
  "windows_separator = CHR 0x5C"

text \<open>The system clock counts nanoseconds since the epoch; the cast to milliseconds cuts towards zero.\<close>

definition timestamp_now :: "int \<Rightarrow> int" where
  "timestamp_now now = sgn now * (\<bar>now\<bar> div 1000000)"

text \<open>
  The directory of the executable. \<open>readlink\<close> does not terminate what it writes, so \<open>dirname\<close> is
  applied to the link's target and whatever the stack holds behind it; \<open>None\<close> is a read behind the
  array, which has no zero then. The library's \<open>dirname\<close> is written out for the names it can meet.
\<close>

definition PATH_MAX :: nat where "PATH_MAX = 4096"

definition dirname :: "string \<Rightarrow> string" where
  "dirname path =
     (let strip = (\<lambda>s. rev (dropWhile (\<lambda>c. c = CHR ''/'') (rev s)));
          p = strip path
      in if path = [] then ''.''
         else if p = [] then ''/''
         else case str_find_last p CHR ''/'' of
           None \<Rightarrow> ''.''
         | Some i \<Rightarrow> (let d = strip (take i p) in if d = [] then ''/'' else d))"

definition getExecutableDir :: "string option \<Rightarrow> string \<Rightarrow> string option" where
  "getExecutableDir readlink stack =
     (case readlink of
        None \<Rightarrow> Some []
      | Some target \<Rightarrow>
          (let written = take PATH_MAX target;
               executablePath = written @ drop (length written) (take PATH_MAX stack)
           in if CHR 0x00 \<in> set executablePath
              then Some (dirname (takeWhile (\<lambda>c. c \<noteq> CHR 0x00) executablePath))
              else None))"

text \<open>On Windows: the module's handle, the path the system reports for it and the removal of the file's name.\<close>

definition getExecutableDir_windows :: "'h option \<Rightarrow> ('h \<Rightarrow> string) \<Rightarrow> (string \<Rightarrow> string) \<Rightarrow> string" where
  "getExecutableDir_windows hModule moduleFileName removeFileSpec =
     (case hModule of None \<Rightarrow> [] | Some h \<Rightarrow> removeFileSpec (take 511 (moduleFileName h)))"

lemma endsWith_iff: "endsWith str suffix \<longleftrightarrow> (\<exists>pre. str = pre @ suffix)"
proof
  assume "endsWith str suffix"
  then have "str = take (length str - length suffix) str @ suffix"
    by (auto simp: endsWith_def) (metis append_take_drop_id)
  then show "\<exists>pre. str = pre @ suffix" by blast
qed (auto simp: endsWith_def)

lemma forEachDirectory_loop_eq:
  "forEachDirectory_loop es = map snd (filter (\<lambda>(t, n). t = DT_DIR \<and> take 1 n \<noteq> ''.'') es)"
proof -
  have dot: "take 2 n = ''..'' \<Longrightarrow> take 1 n = ''.''" for n :: string by (cases n) auto
  show ?thesis by (induction es rule: forEachDirectory_loop.induct) (use dot in auto)
qed

text \<open>
  Removing the extension cuts the name at its last dot; when the file's own name has none and its
  directory's name has one, what is cut off is the file's name and a part of the directory's.
\<close>

theorem removeFileExtension_last_dot:
  assumes "CHR ''.'' \<notin> set ext"
  shows "removeFileExtension (stem @ ''.'' @ ext) = stem \<and>
         (if CHR ''.'' \<in> set stem then True else removeFileExtension stem = stem)"
proof
  show "removeFileExtension (stem @ ''.'' @ ext) = stem"
    using str_find_last_append [OF assms, of stem] by (simp add: removeFileExtension_def substr_def)
  show "if CHR ''.'' \<in> set stem then True else removeFileExtension stem = stem"
    by (simp add: removeFileExtension_def str_find_last_None [THEN iffD2] del: str_find_last_None)
qed

theorem removeFileExtension_last_dot_witness:
  "removeFileExtension ''/data.d/camera'' = ''/data''"
  using removeFileExtension_last_dot [of "''d/camera''" "''/data''"] by simp

section \<open>A writer into memory\<close>

record MemWritter =
  bufferPtr :: "byte list"
  position :: nat

definition MemWritter_new :: "byte list \<Rightarrow> MemWritter" where
  "MemWritter_new buf = \<lparr>bufferPtr = buf, position = 0\<rparr>"

definition MemWritter_Write :: "byte list \<Rightarrow> MemWritter \<Rightarrow> int \<times> MemWritter" where
  "MemWritter_Write data m =
     (let amount = min (length data) (length (bufferPtr m) - position m) in
      if amount = 0 then (- 1, m)
      else (sint (word_of_nat amount :: u32),
            m\<lparr>bufferPtr := take (position m) (bufferPtr m) @ take amount data @ drop (position m + amount) (bufferPtr m),
              position := position m + amount\<rparr>))"

fun MemWritter_writes :: "byte list list \<Rightarrow> MemWritter \<Rightarrow> int list \<times> MemWritter" where
  "MemWritter_writes [] m = ([], m)"
| "MemWritter_writes (d # ds) m =
     (case MemWritter_Write d m of (n, m) \<Rightarrow> case MemWritter_writes ds m of (ns, m) \<Rightarrow> (n # ns, m))"

lemma MemWritter_Write_fills:
  assumes "position m = length w" "w @ z = bufferPtr m"
  shows "\<exists>n. MemWritter_Write d m =
    (n, \<lparr>bufferPtr = w @ take (length z) d @ drop (length d) z, position = length w + min (length d) (length z)\<rparr>)"
  using assms by (cases m) (auto simp: MemWritter_Write_def Let_def min_def)

lemma min_split: "min a c + min b (c - a) = min (a + b) (c :: nat)"
  by arith

text \<open>
  A sequence of writes fills the buffer with the concatenation of what was written, cut at the
  buffer's size; nothing is written past its end.
\<close>

theorem MemWritter_writes_prefix:
  "(let m = snd (MemWritter_writes ds (MemWritter_new buf)) in
      bufferPtr m = take (length buf) (concat ds) @ drop (length (concat ds)) buf \<and>
      position m = min (length (concat ds)) (length buf))"
proof -
  have "position m = length w \<Longrightarrow> bufferPtr m = w @ z \<Longrightarrow>
      (let m' = snd (MemWritter_writes ds m) in
        bufferPtr m' = w @ take (length z) (concat ds) @ drop (length (concat ds)) z \<and>
        position m' = length w + min (length (concat ds)) (length z))" for m w z
  proof (induction ds arbitrary: m w z)
    case Nil
    then show ?case by simp
  next
    case (Cons d ds)
    obtain n where n: "MemWritter_Write d m = (n, \<lparr>bufferPtr = w @ take (length z) d @ drop (length d) z,
        position = length w + min (length d) (length z)\<rparr>)"
      using MemWritter_Write_fills [of m w z d] Cons.prems by auto
    let ?m = "\<lparr>bufferPtr = w @ take (length z) d @ drop (length d) z,
        position = length w + min (length d) (length z)\<rparr>"
    have "position ?m = length (w @ take (length z) d)" by (simp add: min.commute)
    from Cons.IH [OF this, of "drop (length d) z"]
    have "bufferPtr (snd (MemWritter_writes ds ?m)) = w @ take (length z) (concat (d # ds)) @ drop (length (concat (d # ds))) z"
      and "position (snd (MemWritter_writes ds ?m)) =
        length w + (min (length d) (length z) + min (length (concat ds)) (length z - length d))"
      by (simp_all add: Let_def add.commute min.commute)
    moreover have "min (length d) (length z) + min (length (concat ds)) (length z - length d) = min (length (concat (d # ds))) (length z)"
      using min_split [of "length d" "length z" "length (concat ds)"] by simp
    ultimately show ?case by (simp add: n Let_def case_prod_unfold)
  qed
  from this [of "MemWritter_new buf" "[]" buf] show ?thesis by (simp add: MemWritter_new_def)
qed

section \<open>Configuration and types\<close>

text \<open>
  The child elements of the root by name: their texts converted to the asked type, if that succeeds.
  There is no root element before a file was loaded; a value is then read through a null pointer.
\<close>

definition ConfigManager_open :: "(string \<Rightarrow> bool) \<Rightarrow> string \<Rightarrow> bool" where
  "ConfigManager_open LoadFile fileName = LoadFile fileName"

definition ConfigManager_value :: "(string \<rightharpoonup> string) option \<Rightarrow> (string \<Rightarrow> 'v option) \<Rightarrow> string \<Rightarrow> 'v \<Rightarrow> 'v option" where
  "ConfigManager_value RootElement convert name defaultValue =
     (case RootElement of
        None \<Rightarrow> None
      | Some children \<Rightarrow>
          Some (case children name of
                  None \<Rightarrow> defaultValue
                | Some text \<Rightarrow> (case convert text of None \<Rightarrow> defaultValue | Some v \<Rightarrow> v)))"

text \<open>
  Reading a JSON file: the parser changes the content as far as it gets and leaves its error message,
  which is empty when there was none.
\<close>

record 'v JsonReader =
  mContent :: 'v

definition ReadContent ::
  "(string \<Rightarrow> string option) \<Rightarrow> ('v \<Rightarrow> string \<Rightarrow> 'v \<times> string) \<Rightarrow> string \<Rightarrow> 'v JsonReader \<Rightarrow> bool \<times> 'v JsonReader" where
  "ReadContent contents parse filePath reader =
     (case contents filePath of
        None \<Rightarrow> (False, reader)
      | Some text \<Rightarrow>
          (case parse (mContent reader) text of
             (content, last_error) \<Rightarrow> (last_error = [], reader\<lparr>mContent := content\<rparr>)))"

definition JsonReader_contains :: "(string \<rightharpoonup> 'v) \<Rightarrow> string \<Rightarrow> bool" where
  "JsonReader_contains obj key \<longleftrightarrow> obj key \<noteq> None"

datatype SensorId = Unknown | Sensor1 | Sensor2

fun SensorId_ToString :: "SensorId \<Rightarrow> string" where
  "SensorId_ToString Unknown = ''Unknown''"
| "SensorId_ToString Sensor1 = ''Sensor1''"
| "SensorId_ToString Sensor2 = ''Sensor2''"

record SensorStream =
  stream_name :: string
  cacheSize :: nat

record Module =
  mod_mName :: string
  mModulePath :: string
  mOutputData :: string
  mMandatoryData :: "SensorStream list"
  mLibraryList :: "string list"
  mStarted :: bool
  mConnectedOK :: bool

definition Module_new :: "string \<Rightarrow> Module" where
  "Module_new nm = \<lparr>mod_mName = nm, mModulePath = [], mOutputData = [], mMandatoryData = [], mLibraryList = [],
     mStarted = False, mConnectedOK = False\<rparr>"

definition Module_AddLibrary :: "string \<Rightarrow> Module \<Rightarrow> Module" where
  "Module_AddLibrary val m = m\<lparr>mLibraryList := mLibraryList m @ [val]\<rparr>"

definition Module_AddMandatoryData :: "SensorStream \<Rightarrow> Module \<Rightarrow> Module" where
  "Module_AddMandatoryData val m = m\<lparr>mMandatoryData := mMandatoryData m @ [val]\<rparr>"

definition Module_IsStreamMandatory :: "string \<Rightarrow> Module \<Rightarrow> bool" where
  "Module_IsStreamMandatory nm m \<longleftrightarrow> find (\<lambda>stream. stream_name stream = nm) (mMandatoryData m) \<noteq> None"

definition Module_SetModulePath :: "string \<Rightarrow> Module \<Rightarrow> Module" where
  "Module_SetModulePath val m = m\<lparr>mModulePath := val\<rparr>"

definition Module_SetStarted :: "Module \<Rightarrow> Module" where "Module_SetStarted m = m\<lparr>mStarted := True\<rparr>"
definition Module_ClearStarted :: "Module \<Rightarrow> Module" where "Module_ClearStarted m = m\<lparr>mStarted := False\<rparr>"
definition Module_SetConnectedOK :: "Module \<Rightarrow> Module" where "Module_SetConnectedOK m = m\<lparr>mConnectedOK := True\<rparr>"
definition Module_ClearConnectedOK :: "Module \<Rightarrow> Module" where "Module_ClearConnectedOK m = m\<lparr>mConnectedOK := False\<rparr>"

definition Module_SetOutputData :: "string \<Rightarrow> Module \<Rightarrow> Module" where
  "Module_SetOutputData nm m = m\<lparr>mOutputData := nm\<rparr>"

definition Module_eq :: "Module \<Rightarrow> Module \<Rightarrow> bool" where
  "Module_eq l r \<longleftrightarrow> mod_mName l = mod_mName r"

end
