(* ===== verification/Dat_File.thy ===== *)
theory Dat_File
  imports V4L_Frame Tools_Utils
begin

text \<open>
  Recording and replaying frames (MLCommon/src/SensorData/DatFile): \<open>FileReadStream\<close>,
  \<open>DatFileWriter\<close> and \<open>DatFileReader\<close>. The contents of files and whether a name can be opened are
  arguments. Exceptions of the streams are not enabled by the code, so a failure only sets a flag.
  \<open>long\<close> and \<open>streamsize\<close> are signed and 64 bits wide; the index file holds their bytes as a
  little-endian machine stores them.
\<close>

section \<open>Reading a file\<close>

record ifstream =
  in_content :: "byte list"
  in_pos :: nat
  in_failed :: bool

text \<open>\<open>seekg\<close> does nothing on a failed stream and fails on a negative position; past the end is legal.\<close>

definition seekg :: "int \<Rightarrow> ifstream \<Rightarrow> ifstream" where
  "seekg offs s =
     (if in_failed s then s
      else if offs < 0 then s\<lparr>in_failed := True\<rparr>
      else s\<lparr>in_pos := nat offs\<rparr>)"

text \<open>\<open>istream::read\<close> and \<open>gcount\<close>: a short read sets the flag, and a failed stream delivers nothing.\<close>

definition istream_read :: "nat \<Rightarrow> ifstream \<Rightarrow> byte list \<times> ifstream" where
  "istream_read count s =
     (if in_failed s then ([], s)
      else let bs = take count (drop (in_pos s) (in_content s))
        in (bs, s\<lparr>in_pos := in_pos s + length bs, in_failed := length bs < count\<rparr>))"

definition FileReadStream_new :: "ifstream \<Rightarrow> int \<Rightarrow> ifstream" where
  "FileReadStream_new s offs = seekg offs s"

text \<open>\<open>gcount\<close> is converted to \<open>int\<close>.\<close>

definition FileReadStream_Read :: "ifstream reader" where
  "FileReadStream_Read count s =
     (case istream_read count s of
        (bs, s) \<Rightarrow>
          (let result = sint (word_of_nat (length bs) :: u32)
           in (if result < 0 then Inl result else Inr (take (nat result) bs), s)))"

definition unread_bytes :: "ifstream \<Rightarrow> byte list" where
  "unread_bytes s = (if in_failed s then [] else drop (in_pos s) (in_content s))"

text \<open>A stream that never reports an error and delivers something while there is something.\<close>

locale blocking_stream = byte_stream read avail
  for read :: "'r reader" and avail :: "'r \<Rightarrow> byte list" +
  assumes never_fails: "n < 2 ^ 31 \<Longrightarrow> \<exists>bs r'. read n r = (Inr bs, r')"
    and progress: "n < 2 ^ 31 \<Longrightarrow> 0 < n \<Longrightarrow> avail r \<noteq> [] \<Longrightarrow> read n r = (Inr bs, r') \<Longrightarrow> bs \<noteq> []"
begin

text \<open>Enough bytes: the loop ends with the buffer full.\<close>

lemma read_exactly_enough:
  "got \<le> length buf \<Longrightarrow> length buf < 2 ^ 31 \<Longrightarrow> length buf - got \<le> length (avail r) \<Longrightarrow>
   \<exists>r'. read_exactly read buf got r = Some (Read_done (take got buf @ take (length buf - got) (avail r)), r') \<and>
     avail r' = drop (length buf - got) (avail r)"
proof (induction "length buf - got" arbitrary: buf got r rule: less_induct)
  case less
  have small: "length buf - got < 2 ^ 31" using less.prems by simp
  obtain bs r1 where rd: "read (length buf - got) r = (Inr bs, r1)" using never_fails [OF small] by blast
  from read_bytes [OF small rd] have bs: "length bs \<le> length buf - got" "avail r = bs @ avail r1" by auto
  let ?buf = "take got buf @ bs @ drop (got + length bs) buf"
  have le: "got + length bs \<le> length buf" using bs(1) less.prems(1) by linarith
  note ov = overlay [OF le]
  show ?case
  proof (cases "got + length bs = length buf")
    case True
    then have "length buf - got = length bs" by linarith
    moreover from True have "?buf = take got buf @ bs" by simp
    ultimately show ?thesis using rd bs ov(2) True
      by (subst read_exactly.simps) (simp add: Let_def not_less)
  next
    case False
    then have "avail r \<noteq> []" "0 < length buf - got" using less.prems le bs by auto
    from progress [OF small this(2,1) rd] have ne: "bs \<noteq> []" .
    have step: "read_exactly read buf got r = read_exactly read ?buf (got + length bs) r1"
      using rd bs(1) ov(2) False by (subst read_exactly.simps) (simp add: Let_def not_less)
    have "length ?buf - (got + length bs) < length buf - got"
      unfolding ov(2) using ne False le by (simp add: diff_less_mono2)
    from less.hyps [OF this, of r1] obtain r' where
      "read_exactly read ?buf (got + length bs) r1 = Some (Read_done ((take got buf @ bs) @
         take (length buf - (got + length bs)) (avail r1)), r')"
      "avail r' = drop (length buf - (got + length bs)) (avail r1)"
      unfolding ov using le less.prems bs(2) by (auto simp: le_diff_conv)
    then show ?thesis unfolding step bs(2) using bs(1) by (simp add: add.commute)
  qed
qed

text \<open>Too few bytes: the loop has no result, because zero bytes are not taken for an error.\<close>

lemma read_exactly_short:
  assumes "got \<le> length buf" "length buf < 2 ^ 31" "length (avail r) < length buf - got"
  shows "read_exactly read buf got r = None"
proof (rule ccontr)
  assume "read_exactly read buf got r \<noteq> None"
  then obtain y where y: "read_exactly read buf got r = Some y" by auto
  have "got \<le> length buf \<Longrightarrow> length buf < 2 ^ 31 \<Longrightarrow> length buf - got \<le> length (avail r)"
  proof (rule read_exactly.raw_induct [where P = "\<lambda>rd buf got r y. rd = read \<longrightarrow> got \<le> length buf \<longrightarrow>
        length buf < 2 ^ 31 \<longrightarrow> length buf - got \<le> length (avail r)", OF _ y, rule_format], goal_cases)
    case (1 F rd buf got r y)
    then have "length buf < 2 ^ 31" by blast
    then have small: "length buf - got < 2 ^ 31" by simp
    obtain bs r1 where rd: "read (length buf - got) r = (Inr bs, r1)" using never_fails [OF small] by blast
    from read_bytes [OF small rd] have bs: "length bs \<le> length buf - got" "avail r = bs @ avail r1" by auto
    have le: "got + length bs \<le> length buf" using bs(1) 1(6) by linarith
    note ov = overlay [OF le]
    show ?case
    proof (cases "got + length bs = length buf")
      case True
      then show ?thesis using bs(2) by simp
    next
      case False
      then have "F read (take got buf @ bs @ drop (got + length bs) buf) (got + length bs) r1 = Some y"
        using 1(4) 1(5) rd bs(1) ov(2) by (simp add: Let_def not_less)
      from 1(3) [OF this] show ?thesis using ov(2) le 1(7) bs(2) by simp
    qed
  qed simp_all
  with assms show False by simp
qed

end

lemma small_int: "n < 2 ^ 31 \<Longrightarrow> sint (word_of_nat n :: u32) = int n"
  by (simp add: sint_uint unsigned_of_nat take_bit_nat_eq_self signed_take_bit_int_eq_self uint_nat unat_of_nat)

interpretation ifs: blocking_stream FileReadStream_Read unread_bytes
proof unfold_locales
  fix n :: nat and r r' :: ifstream and bs e
  assume n: "n < 2 ^ 31"
  have len: "length (take n (drop (in_pos r) (in_content r))) < 2 ^ 31" using n by simp
  show "FileReadStream_Read n r = (Inr bs, r') \<Longrightarrow> length bs \<le> n \<and> unread_bytes r = bs @ unread_bytes r'"
    using small_int [OF len] n
    by (auto simp: FileReadStream_Read_def istream_read_def unread_bytes_def Let_def add.commute
        simp flip: drop_drop split: if_splits)
  show "FileReadStream_Read n r = (Inl e, r') \<Longrightarrow> unread_bytes r' = unread_bytes r"
    using small_int [OF len] by (auto simp: FileReadStream_Read_def istream_read_def Let_def split: if_splits)
  show "\<exists>bs r'. FileReadStream_Read n r = (Inr bs, r')"
    using small_int [OF len] by (auto simp: FileReadStream_Read_def istream_read_def Let_def)
  show "0 < n \<Longrightarrow> unread_bytes r \<noteq> [] \<Longrightarrow> FileReadStream_Read n r = (Inr bs, r') \<Longrightarrow> bs \<noteq> []"
    using small_int [OF len] by (auto simp: FileReadStream_Read_def istream_read_def unread_bytes_def Let_def split: if_splits)
qed

section \<open>One frame from a blocking stream\<close>

context blocking_stream
begin

lemma read_exactly_prefix:
  assumes "got \<le> length X" "length buf = length X" "take got buf = take got X" "avail r = drop got X @ Y"
    "length X < 2 ^ 31"
  shows "\<exists>r'. read_exactly read buf got r = Some (Read_done X, r') \<and> avail r' = Y"
  using read_exactly_enough [of got buf r] assms by simp

lemma read_wire_header:
  assumes "avail r = wire_header f @ Y"
  shows "\<exists>r1 r2. read_exactly read (resize 8 h) 0 r = Some (Read_done (take 8 (wire_header f)), r1) \<and>
    read_exactly read (resize (wire_video f + VIDEO_HEADER_LENGTH) (take 8 (wire_header f))) 8 r1 =
      Some (Read_done (wire_header f), r2) \<and> avail r2 = Y"
proof -
  let ?H = "wire_header f"
  have H8: "8 \<le> length ?H" "length ?H < 2 ^ 31" using wire_video_bounds [of f] by (simp_all add: layout_consts)
  obtain r1 where r1: "read_exactly read (resize 8 h) 0 r = Some (Read_done (take 8 ?H), r1)" "avail r1 = drop 8 ?H @ Y"
    using read_exactly_prefix [of 0 "take 8 ?H" "resize 8 h" r "drop 8 ?H @ Y"] H8 assms by auto
  have "take 8 (resize (wire_video f + VIDEO_HEADER_LENGTH) (take 8 ?H)) = take 8 ?H"
    using H8 by (simp add: take_resize)
  then obtain r2 where "read_exactly read (resize (wire_video f + VIDEO_HEADER_LENGTH) (take 8 ?H)) 8 r1 =
      Some (Read_done ?H, r2)" "avail r2 = Y"
    using read_exactly_prefix [OF H8(1) _ _ r1(2) H8(2), of "resize (wire_video f + VIDEO_HEADER_LENGTH) (take 8 ?H)"]
    by auto
  with r1(1) show ?thesis by blast
qed

lemma DeserializeFrom_wire:
  assumes hold: "can_hold new_char f" and av: "avail r = wire_header f @ mDataContainer f @ rest"
  shows "\<exists>g' r'. DeserializeFrom new_char read g r = Some (Returned True, g', r') \<and>
     same_fields f g' \<and> mDataContainer g' = mDataContainer f \<and> avail r' = rest"
proof -
  let ?H = "wire_header f" and ?D = "mDataContainer f"
  obtain r1 r2 where r1: "read_exactly read (resize 8 (mHeader g)) 0 r = Some (Read_done (take 8 ?H), r1)"
    and r2: "read_exactly read (resize (wire_video f + VIDEO_HEADER_LENGTH) (take 8 ?H)) 8 r1 = Some (Read_done ?H, r2)"
      "avail r2 = ?D @ rest"
    using read_wire_header [OF av] by blast
  obtain d where d: "allocate new_char (word_of_nat (length ?D)) = Some d" "length d = length ?D"
    using hold by (rule allocate_data)
  have bound: "wire_video f + VIDEO_HEADER_LENGTH + length ?D < 2 ^ 31" using hold by (simp add: can_hold_def)
  then have "wire_video f + VIDEO_HEADER_LENGTH + length ?D < 2 ^ 32" by simp
  note ann = announced_wire [OF this]
  obtain r3 where r3: "read_exactly read d 0 r2 = Some (Read_done ?D, r3)" "avail r3 = rest"
    using read_exactly_enough [of 0 d r2] r2(2) d(2) bound by auto
  let ?g = "g\<lparr>mHeader := take 8 ?H, mDataContainer := d, mVideoOffset := wire_video f, mHeader := ?H\<rparr>"
  have pf: "parse_fields ?g = (Returned True, ?g\<lparr>mTimestamp := mTimestamp f, mName := wire_name f,
      mInputWidth := mInputWidth f, mInputHeight := mInputHeight f, mBytesPerLine := mBytesPerLine f,
      mBitsPerPixel := mBitsPerPixel f, mColorFormat := mColorFormat f\<rparr>)"
    by (rule parse_fields_wire) simp_all
  show ?thesis
    using r1 r2(1) r3 ann d(1) pf
    by (simp add: DeserializeFrom_def Let_def same_fields_def)
qed

lemma DeserializeFrom_cut_body:
  assumes hold: "can_hold new_char f" and av: "avail r = wire_header f @ d" and cut: "length d < length (mDataContainer f)"
  shows "DeserializeFrom new_char read g r = None"
proof -
  let ?H = "wire_header f" and ?D = "mDataContainer f"
  obtain r1 r2 where r1: "read_exactly read (resize 8 (mHeader g)) 0 r = Some (Read_done (take 8 ?H), r1)"
    and r2: "read_exactly read (resize (wire_video f + VIDEO_HEADER_LENGTH) (take 8 ?H)) 8 r1 = Some (Read_done ?H, r2)"
      "avail r2 = d"
    using read_wire_header [OF av] by blast
  obtain b where b: "allocate new_char (word_of_nat (length ?D)) = Some b" "length b = length ?D"
    using hold by (rule allocate_data)
  have bound: "wire_video f + VIDEO_HEADER_LENGTH + length ?D < 2 ^ 31" using hold by (simp add: can_hold_def)
  then have "wire_video f + VIDEO_HEADER_LENGTH + length ?D < 2 ^ 32" by simp
  note ann = announced_wire [OF this]
  have r3: "read_exactly read b 0 r2 = None"
    using read_exactly_short [of 0 b r2] r2(2) b(2) cut bound by simp
  let ?g = "g\<lparr>mHeader := take 8 ?H, mDataContainer := b, mVideoOffset := wire_video f, mHeader := ?H\<rparr>"
  have pf: "parse_fields ?g = (Returned True, ?g\<lparr>mTimestamp := mTimestamp f, mName := wire_name f,
      mInputWidth := mInputWidth f, mInputHeight := mInputHeight f, mBytesPerLine := mBytesPerLine f,
      mBitsPerPixel := mBitsPerPixel f, mColorFormat := mColorFormat f\<rparr>)"
    by (rule parse_fields_wire) simp_all
  show ?thesis
    using r1 r2(1) r3 ann b(1) pf
    by (simp add: DeserializeFrom_def Let_def)
qed

lemma DeserializeFrom_cut_header:
  assumes hold: "can_hold new_char f" and av: "avail r = take n (wire_header f)" and cut: "n < length (wire_header f)"
  shows "DeserializeFrom new_char read g r = None"
proof (cases "n < 8")
  case True
  then have "read_exactly read (resize 8 (mHeader g)) 0 r = None"
    by (intro read_exactly_short) (simp_all add: av)
  then show ?thesis by (simp add: DeserializeFrom_def)
next
  case False
  let ?H = "wire_header f" and ?D = "mDataContainer f"
  have H8: "8 \<le> length ?H" "length ?H < 2 ^ 31" using wire_video_bounds [of f] by (simp_all add: layout_consts)
  obtain r1 where r1: "read_exactly read (resize 8 (mHeader g)) 0 r = Some (Read_done (take 8 ?H), r1)"
    "avail r1 = drop 8 (take n ?H)"
    using read_exactly_prefix [of 0 "take 8 ?H" "resize 8 (mHeader g)" r "drop 8 (take n ?H)"] H8 av False
      append_take_drop_id [of 8 "take n ?H"] min_absorb2 [OF H8(1)] by auto
  obtain b where b: "allocate new_char (word_of_nat (length ?D)) = Some b"
    using hold by (rule allocate_data)
  have "wire_video f + VIDEO_HEADER_LENGTH + length ?D < 2 ^ 31" using hold by (simp add: can_hold_def)
  then have "wire_video f + VIDEO_HEADER_LENGTH + length ?D < 2 ^ 32" by simp
  note ann = announced_wire [OF this]
  have "read_exactly read (resize (wire_video f + VIDEO_HEADER_LENGTH) (take 8 ?H)) 8 r1 = None"
    using H8 cut False by (intro read_exactly_short) (auto simp: r1(2))
  with r1(1) ann b show ?thesis by (simp add: DeserializeFrom_def Let_def)
qed

end

text \<open>
  C40. A frame that a file holds in full is read back, from any position and whatever the frame object
  held before; a frame that the file holds only in part is never given up: \<open>Read\<close> returns zero at the
  end of the file, which the loops do not take for an error, so \<open>DeserializeFrom\<close> does not return.
\<close>

theorem file_frame_or_forever:
  assumes "can_hold new_char f"
  shows "(let bytes = wire_header f @ mDataContainer f;
              s = FileReadStream_new \<lparr>in_content = pre @ take n bytes @ rest, in_pos = p, in_failed = False\<rparr> (int (length pre))
          in if length bytes \<le> n then
               \<exists>g' s'. DeserializeFrom new_char FileReadStream_Read g s = Some (Returned True, g', s') \<and>
                 same_fields f g' \<and> mDataContainer g' = mDataContainer f \<and> unread_bytes s' = rest
             else rest = [] \<longrightarrow> DeserializeFrom new_char FileReadStream_Read g s = None)"
proof -
  let ?H = "wire_header f" and ?D = "mDataContainer f"
  let ?s = "FileReadStream_new \<lparr>in_content = pre @ take n (?H @ ?D) @ rest, in_pos = p, in_failed = False\<rparr> (int (length pre))"
  have av: "unread_bytes ?s = take n (?H @ ?D) @ rest"
    by (simp add: FileReadStream_new_def seekg_def unread_bytes_def)
  show ?thesis
  proof (cases "length (?H @ ?D) \<le> n")
    case True
    with av have "unread_bytes ?s = ?H @ ?D @ rest" by simp
    from ifs.DeserializeFrom_wire [OF assms this, of g] True show ?thesis by (simp add: Let_def)
  next
    case False
    have "DeserializeFrom new_char FileReadStream_Read g ?s = None" if rest: "rest = []"
    proof (cases "n < length ?H")
      case True
      then show ?thesis using av rest by (intro ifs.DeserializeFrom_cut_header [OF assms]) simp_all
    next
      case 2: False
      then show ?thesis using av rest False
        by (intro ifs.DeserializeFrom_cut_body [OF assms, where d = "take (n - length ?H) ?D"]) simp_all
    qed
    with False show ?thesis by (simp add: Let_def)
  qed
qed

theorem file_frame_or_forever_witness:
  "DeserializeFrom zero_char FileReadStream_Read V4LFrame_new
     (FileReadStream_new \<lparr>in_content = [1, 2] @ take 20 (wire_header small_frame @ mDataContainer small_frame),
        in_pos = 0, in_failed = False\<rparr> 2) = None"
  using file_frame_or_forever [OF can_hold_small, of "[1, 2]" 20 "[]" 0 V4LFrame_new] wire_video_bounds [of small_frame]
  by (simp add: Let_def layout_consts)

end
