(* ===== verification/Dat_Record.thy ===== *)
theory Dat_Record
  imports Dat_File
begin

text \<open>
  \<open>DatFileWriter\<close> and \<open>DatFileReader\<close>: a raw file with the frames and an index file with one record
  of a timestamp and an offset per frame. An \<open>ofstream\<close> is the content its file has once its buffer
  is written, whether it could be opened, and how much of the content is known to be flushed.
\<close>

section \<open>Writing\<close>

record ofstream =
  out_content :: "byte list"
  out_ok :: bool
  out_synced :: nat

definition ostream_write :: "byte list \<Rightarrow> ofstream \<Rightarrow> ofstream" where
  "ostream_write bs s = (if out_ok s then s\<lparr>out_content := out_content s @ bs\<rparr> else s)"

definition ostream_flush :: "ofstream \<Rightarrow> ofstream" where
  "ostream_flush s = (if out_ok s then s\<lparr>out_synced := length (out_content s)\<rparr> else s)"

text \<open>The bytes of a 64-bit integer in memory.\<close>

definition raw64 :: "u64 \<Rightarrow> byte list" where
  "raw64 v = rev (be64 v)"

definition of_raw64 :: "byte list \<Rightarrow> u64" where
  "of_raw64 bs = of_be64 (rev bs)"

lemma raw64_simps [simp]: "length (raw64 v) = 8" "of_raw64 (raw64 v) = v"
  by (simp_all add: raw64_def of_raw64_def)

datatype WritingStrategy = Append | Truncate

record DatFileWriter =
  mRawDataFile :: string
  mIndiciesFile :: string
  mRawDataStream :: ofstream
  mIndiciesStream :: ofstream
  mRawDataStreamSize :: u64
  mFramesWritten :: u16
  dw_FilesOpened :: bool
  mStrategy :: WritingStrategy

definition closed_stream :: ofstream where
  "closed_stream = \<lparr>out_content = [], out_ok = False, out_synced = 0\<rparr>"

definition FramesCountToFlush :: u16 where
  "FramesCountToFlush = 10"

definition DatFileWriter_new :: "string \<Rightarrow> WritingStrategy \<Rightarrow> DatFileWriter" where
  "DatFileWriter_new rawDataFile strategy =
     \<lparr>mRawDataFile = rawDataFile, mIndiciesFile = removeFileExtension rawDataFile @ ''.idx'',
      mRawDataStream = closed_stream, mIndiciesStream = closed_stream, mRawDataStreamSize = 0,
      mFramesWritten = 0, dw_FilesOpened = False, mStrategy = strategy\<rparr>"

text \<open>\<open>disk\<close> is what the files hold before, \<open>can_open\<close> whether a name opens for writing.\<close>

definition ofstream_open :: "(string \<Rightarrow> bool) \<Rightarrow> (string \<Rightarrow> byte list) \<Rightarrow> WritingStrategy \<Rightarrow> string \<Rightarrow> ofstream" where
  "ofstream_open can_open disk strategy name =
     (let old = (case strategy of Append \<Rightarrow> disk name | Truncate \<Rightarrow> [])
      in if can_open name then \<lparr>out_content = old, out_ok = True, out_synced = length old\<rparr> else closed_stream)"

definition OpenFiles :: "(string \<Rightarrow> bool) \<Rightarrow> (string \<Rightarrow> byte list) \<Rightarrow> DatFileWriter \<Rightarrow> bool \<times> DatFileWriter" where
  "OpenFiles can_open disk w =
     (if dw_FilesOpened w then (True, w)
      else (True, w\<lparr>mRawDataStream := ofstream_open can_open disk (mStrategy w) (mRawDataFile w),
                    mIndiciesStream := ofstream_open can_open disk (mStrategy w) (mIndiciesFile w),
                    dw_FilesOpened := True\<rparr>))"

definition SaveMetaData :: "u64 \<Rightarrow> u64 \<Rightarrow> DatFileWriter \<Rightarrow> DatFileWriter" where
  "SaveMetaData ts frameSz w =
     (if \<not> dw_FilesOpened w then w
      else w\<lparr>mIndiciesStream := ostream_write (raw64 (mRawDataStreamSize w)) (ostream_write (raw64 ts) (mIndiciesStream w)),
             mRawDataStreamSize := mRawDataStreamSize w + frameSz\<rparr>)"

definition DatFileWriter_Write :: "byte list \<Rightarrow> DatFileWriter \<Rightarrow> int \<times> DatFileWriter" where
  "DatFileWriter_Write data w =
     (if \<not> dw_FilesOpened w then (- 1, w)
      else let w = w\<lparr>mRawDataStream := ostream_write data (mRawDataStream w), mFramesWritten := mFramesWritten w + 1\<rparr>;
               w = (if mFramesWritten w = FramesCountToFlush
                    then w\<lparr>mRawDataStream := ostream_flush (mRawDataStream w),
                           mIndiciesStream := ostream_flush (mIndiciesStream w), mFramesWritten := 0\<rparr>
                    else w)
           in (sint (word_of_nat (length data) :: u32), w))"

section \<open>The index of a replay\<close>

text \<open>\<open>std::map\<close>: pairs in ascending order of the key; \<open>insert\<close> keeps what is there.\<close>

type_synonym IndiciesMap = "(int \<times> int) list"

fun map_insert :: "int \<Rightarrow> int \<Rightarrow> IndiciesMap \<Rightarrow> IndiciesMap" where
  "map_insert k v [] = [(k, v)]"
| "map_insert k v ((k', v') # m) =
     (if k < k' then (k, v) # (k', v') # m
      else if k = k' then (k', v') # m
      else (k', v') # map_insert k v m)"

definition ascending :: "IndiciesMap \<Rightarrow> bool" where
  "ascending m \<longleftrightarrow> sorted_wrt (<) (map fst m)"

lemma keys_map_insert: "fst ` set (map_insert k v m) = insert k (fst ` set m)"
  by (induction k v m rule: map_insert.induct) auto

lemma ascending_map_insert: "ascending m \<Longrightarrow> ascending (map_insert k v m)"
proof (induction k v m rule: map_insert.induct)
  case (2 k v k' v' m)
  then show ?case using keys_map_insert [of k v m] by (auto simp: ascending_def)
qed (simp add: ascending_def)

lemma ascending_least: "ascending ((k, v) # m) \<Longrightarrow> x < k \<Longrightarrow> map_of m x = None"
  by (force simp: ascending_def map_of_eq_None_iff)

lemma map_of_map_insert:
  "ascending m \<Longrightarrow> map_of (map_insert k v m) = (if map_of m k = None then (map_of m)(k \<mapsto> v) else map_of m)"
proof (induction k v m rule: map_insert.induct)
  case (2 k v k' v' m)
  then show ?case
    using ascending_least [of k' v' m k] by (auto simp: fun_eq_iff ascending_def)
qed simp

text \<open>
  A read that comes short overwrites only the first bytes of the variable; the loop's test is
  \<open>good()\<close>, so what the variables hold is inserted once more after the last record, and once for an
  empty file. \<open>timestamp\<close> and \<open>frameSize\<close> hold \<open>ts\<close> and \<open>sz\<close> before the loop, where the code leaves
  them uninitialised.
\<close>

function ReadIndicies_loop :: "byte list \<Rightarrow> byte list \<Rightarrow> IndiciesMap \<Rightarrow> ifstream \<Rightarrow> IndiciesMap" where
  "ReadIndicies_loop ts sz m s =
     (if in_failed s then m
      else let (b, s) = istream_read 8 s; ts = b @ drop (length b) ts;
               (b, s) = istream_read 8 s; sz = b @ drop (length b) sz
           in ReadIndicies_loop ts sz (map_insert (sint (of_raw64 ts)) (sint (of_raw64 sz)) m) s)"
  by pat_completeness auto
termination
  by (relation "measure (\<lambda>(ts, sz, m, s). if in_failed s then 0 else Suc (length (in_content s) - in_pos s))")
     (auto simp: istream_read_def Let_def split: if_splits)

declare ReadIndicies_loop.simps [simp del]

text \<open>A file that cannot be opened gives a failed stream, and an empty map.\<close>

definition ifstream_open :: "byte list option \<Rightarrow> ifstream" where
  "ifstream_open file =
     (case file of
        None \<Rightarrow> \<lparr>in_content = [], in_pos = 0, in_failed = True\<rparr>
      | Some bs \<Rightarrow> \<lparr>in_content = bs, in_pos = 0, in_failed = False\<rparr>)"

definition ReadIndicies :: "byte list \<Rightarrow> byte list \<Rightarrow> byte list option \<Rightarrow> IndiciesMap list \<Rightarrow> bool \<times> IndiciesMap list" where
  "ReadIndicies ts sz file mIndicies =
     (True, mIndicies @ [ReadIndicies_loop ts sz [] (ifstream_open file)])"

definition index_record :: "u64 \<times> u64 \<Rightarrow> byte list" where
  "index_record r = raw64 (fst r) @ raw64 (snd r)"

definition insert_record :: "u64 \<times> u64 \<Rightarrow> IndiciesMap \<Rightarrow> IndiciesMap" where
  "insert_record r = map_insert (sint (fst r)) (sint (snd r))"

lemma istream_read_raw:
  assumes "\<not> in_failed s" "unread_bytes s = raw64 v @ bs"
  shows "\<exists>s'. istream_read 8 s = (raw64 v, s') \<and> \<not> in_failed s' \<and> unread_bytes s' = bs"
proof -
  have d: "drop (in_pos s) (in_content s) = raw64 v @ bs" using assms by (simp add: unread_bytes_def)
  have "drop (in_pos s + 8) (in_content s) = drop 8 (drop (in_pos s) (in_content s))" by (simp only: drop_drop add.commute)
  then have "drop (in_pos s + 8) (in_content s) = bs" by (simp add: d)
  with d assms(1) show ?thesis by (simp add: istream_read_def unread_bytes_def)
qed

lemma istream_read_end:
  assumes "unread_bytes s = []"
  shows "\<exists>s'. istream_read 8 s = ([], s') \<and> in_failed s'"
  using assms by (auto simp: istream_read_def unread_bytes_def Let_def split: if_splits)

lemma ReadIndicies_loop_records:
  "\<not> in_failed s \<Longrightarrow> unread_bytes s = concat (map index_record rs) \<Longrightarrow> length ts = 8 \<Longrightarrow> length sz = 8 \<Longrightarrow>
   ReadIndicies_loop ts sz m s =
     (let m' = fold insert_record rs m in
      if rs = [] then map_insert (sint (of_raw64 ts)) (sint (of_raw64 sz)) m' else insert_record (last rs) m')"
proof (induction rs arbitrary: ts sz m s)
  case Nil
  then obtain s1 where s1: "istream_read 8 s = ([], s1)" "in_failed s1" using istream_read_end by fastforce
  then have s2: "istream_read 8 s1 = ([], s1)" by (simp add: istream_read_def)
  show ?case
    using s1 s2 Nil.prems by (subst ReadIndicies_loop.simps) (simp add: ReadIndicies_loop.simps)
next
  case (Cons r rs)
  then have "unread_bytes s = raw64 (fst r) @ raw64 (snd r) @ concat (map index_record rs)"
    by (simp add: index_record_def [of r])
  from istream_read_raw [OF Cons.prems(1) this] obtain s1 where
    s1: "istream_read 8 s = (raw64 (fst r), s1)" "\<not> in_failed s1" "unread_bytes s1 = raw64 (snd r) @ concat (map index_record rs)"
    by blast
  from istream_read_raw [OF s1(2,3)] obtain s2 where
    s2: "istream_read 8 s1 = (raw64 (snd r), s2)" "\<not> in_failed s2" "unread_bytes s2 = concat (map index_record rs)"
    by blast
  have "ReadIndicies_loop ts sz m s = ReadIndicies_loop (raw64 (fst r)) (raw64 (snd r)) (insert_record r m) s2"
    using s1 s2 Cons.prems by (subst ReadIndicies_loop.simps) (simp add: insert_record_def)
  then show ?case
    using Cons.IH [OF s2(2,3), of "raw64 (fst r)" "raw64 (snd r)" "insert_record r m"]
    by (simp add: Let_def insert_record_def)
qed

lemma map_insert_again: "k \<in> fst ` set m \<Longrightarrow> ascending m \<Longrightarrow> map_insert k v m = m"
proof (induction k v m rule: map_insert.induct)
  case (2 k v k' v' m)
  then show ?case by (force simp: ascending_def)
qed simp

lemma insert_records:
  assumes "ascending m"
  shows "ascending (fold insert_record rs m)" "fst ` set (fold insert_record rs m) = (sint \<circ> fst) ` set rs \<union> fst ` set m"
  using assms
proof (induction rs arbitrary: m)
  case (Cons r rs)
  case 1
  then show ?case using Cons(1) [of "insert_record r m"] by (simp add: insert_record_def ascending_map_insert)
next
  case (Cons r rs)
  case 2
  then show ?case using Cons(2) [of "insert_record r m"]
    by (auto simp: insert_record_def ascending_map_insert keys_map_insert)
qed simp_all

text \<open>The index file of a recording with at least one record is read back as its records.\<close>

lemma ReadIndicies_records:
  assumes "rs \<noteq> []" "length ts = 8" "length sz = 8"
  shows "ReadIndicies ts sz (Some (concat (map index_record rs))) ms = (True, ms @ [fold insert_record rs []])"
proof -
  have "sint (fst (last rs)) \<in> fst ` set (fold insert_record rs [])"
    using insert_records(2) [of "[]" rs] assms(1) by (auto simp: ascending_def intro!: imageI)
  moreover have "ascending (fold insert_record rs [])" using insert_records(1) by (simp add: ascending_def)
  ultimately have "insert_record (last rs) (fold insert_record rs []) = fold insert_record rs []"
    by (simp add: insert_record_def map_insert_again)
  then show ?thesis
    using ReadIndicies_loop_records [of "\<lparr>in_content = concat (map index_record rs), in_pos = 0, in_failed = False\<rparr>" rs ts sz "[]"]
      assms by (simp add: ReadIndicies_def ifstream_open_def unread_bytes_def Let_def)
qed

lemma insert_record_keeps:
  assumes "map_of m k = Some x" "ascending m"
  shows "map_of (insert_record r m) k = Some x" "ascending (insert_record r m)"
  using assms by (auto simp: insert_record_def map_of_map_insert ascending_map_insert)

lemma insert_records_keep:
  "map_of m k = Some x \<Longrightarrow> ascending m \<Longrightarrow> map_of (fold insert_record rs m) k = Some x"
proof (induction rs arbitrary: m)
  case (Cons r rs)
  from Cons.IH [OF insert_record_keeps [OF Cons.prems]] show ?case by simp
qed simp

lemma map_of_records:
  assumes "ascending m" "distinct (map fst rs)" "(sint \<circ> fst) ` set rs \<inter> fst ` set m = {}" "(t, v) \<in> set rs"
  shows "map_of (fold insert_record rs m) (sint t) = Some (sint v)"
  using assms
proof (induction rs arbitrary: m)
  case (Cons r rs)
  have asc: "ascending (insert_record r m)" using Cons.prems(1) by (simp add: insert_record_def ascending_map_insert)
  show ?case
  proof (cases "r = (t, v)")
    case True
    have "map_of m (sint t) = None" using Cons.prems(3) True by (auto simp: map_of_eq_None_iff)
    then have "map_of (insert_record r m) (sint t) = Some (sint v)"
      using Cons.prems(1) True by (simp add: insert_record_def map_of_map_insert)
    from insert_records_keep [OF this asc] show ?thesis by simp
  next
    case False
    then have mem: "(t, v) \<in> set rs" using Cons.prems(4) by auto
    have "(sint \<circ> fst) ` set rs \<inter> fst ` set (insert_record r m) = {}"
    proof -
      have "fst ` set (insert_record r m) = insert (sint (fst r)) (fst ` set m)"
        by (simp add: insert_record_def keys_map_insert)
      moreover have "sint (fst r) \<notin> (sint \<circ> fst) ` set rs"
      proof
        assume "sint (fst r) \<in> (sint \<circ> fst) ` set rs"
        then obtain q where "q \<in> set rs" "sint (fst q) = sint (fst r)" by auto
        then have "fst r \<in> fst ` set rs" by (metis image_eqI word_eq_iff_signed)
        then show False using Cons.prems(2) by simp
      qed
      ultimately show ?thesis using Cons.prems(3) by auto
    qed
    from Cons.IH [OF asc _ this mem] Cons.prems(2) show ?thesis by simp
  qed
qed simp

section \<open>Recording and reading back\<close>

text \<open>How a recorder uses the writer: the frame's timestamp and size, then the frame itself.\<close>

definition record_frame :: "V4LFrame \<Rightarrow> DatFileWriter \<Rightarrow> DatFileWriter option" where
  "record_frame f w = do {
     g \<leftarrow> setName (mName f) f;
     (_, _, w) \<leftarrow> SerializeTo DatFileWriter_Write g (SaveMetaData (mTimestamp g) (word_of_nat (frameSize g)) w);
     Some w
   }"

fun record_frames :: "V4LFrame list \<Rightarrow> DatFileWriter \<Rightarrow> DatFileWriter option" where
  "record_frames [] w = Some w"
| "record_frames (f # fs) w = do { w \<leftarrow> record_frame f w; record_frames fs w }"

definition frame_bytes :: "V4LFrame \<Rightarrow> byte list" where
  "frame_bytes f = wire_header f @ mDataContainer f"

fun offsets :: "u64 \<Rightarrow> V4LFrame list \<Rightarrow> (u64 \<times> u64) list" where
  "offsets off [] = []"
| "offsets off (f # fs) = (mTimestamp f, off) # offsets (off + word_of_nat (length (frame_bytes f))) fs"

definition writing :: "byte list \<Rightarrow> byte list \<Rightarrow> u64 \<Rightarrow> DatFileWriter \<Rightarrow> bool" where
  "writing raw idx off w \<longleftrightarrow> dw_FilesOpened w \<and> out_ok (mRawDataStream w) \<and> out_ok (mIndiciesStream w) \<and>
     out_content (mRawDataStream w) = raw \<and> out_content (mIndiciesStream w) = idx \<and> mRawDataStreamSize w = off"

lemma writing_Write: "writing raw idx off w \<Longrightarrow> writing (raw @ d) idx off (snd (DatFileWriter_Write d w))"
  by (auto simp: writing_def DatFileWriter_Write_def Let_def ostream_write_def ostream_flush_def)

lemma writing_SaveMetaData:
  "writing raw idx off w \<Longrightarrow> writing raw (idx @ index_record (ts, off)) (off + n) (SaveMetaData ts n w)"
  by (auto simp: writing_def SaveMetaData_def ostream_write_def index_record_def)

lemma writing_open:
  assumes "can_open name" "can_open (removeFileExtension name @ ''.idx'')"
  shows "writing (case strategy of Append \<Rightarrow> disk name | Truncate \<Rightarrow> [])
    (case strategy of Append \<Rightarrow> disk (removeFileExtension name @ ''.idx'') | Truncate \<Rightarrow> []) 0
    (snd (OpenFiles can_open disk (DatFileWriter_new name strategy)))"
  using assms by (simp add: writing_def OpenFiles_def DatFileWriter_new_def ofstream_open_def Let_def split: WritingStrategy.split)

lemma wire_prepared:
  "wire_header (f\<lparr>mVideoOffset := v, mHeader := h\<rparr>) = wire_header f"
  "wire_name (f\<lparr>mVideoOffset := v, mHeader := h\<rparr>) = wire_name f"
  "wire_video (f\<lparr>mVideoOffset := v, mHeader := h\<rparr>) = wire_video f"
  by (simp_all add: wire_header_def wire_name_def wire_video_def)

lemma setName_ready:
  "setName (mName f) f = Some (f\<lparr>mVideoOffset := wire_video f, mHeader := blank_header (wire_name f)\<rparr>)"
  by (simp add: setName_def prepareHeader_blank)

lemma length_blank_header: "length (blank_header (wire_name f)) = length (wire_header f)"
  by (simp add: blank_header_def wire_video_def layout_consts)

lemma record_frame_writes:
  assumes "writing raw idx off w"
  shows "\<exists>w'. record_frame f w = Some w' \<and>
    writing (raw @ frame_bytes f) (idx @ index_record (mTimestamp f, off)) (off + word_of_nat (length (frame_bytes f))) w'"
proof -
  let ?g = "f\<lparr>mVideoOffset := wire_video f, mHeader := blank_header (wire_name f)\<rparr>"
  have up: "updateFrame ?g = Some (?g\<lparr>mHeader := wire_header f\<rparr>)"
    using updateFrame_wire [of ?g] by (simp add: wire_prepared)
  define w1 where "w1 = SaveMetaData (mTimestamp f) (word_of_nat (length (frame_bytes f))) w"
  have w1: "writing raw (idx @ index_record (mTimestamp f, off)) (off + word_of_nat (length (frame_bytes f))) w1"
    unfolding w1_def by (rule writing_SaveMetaData [OF assms])
  have "frameSize ?g = length (frame_bytes f)"
    using length_blank_header [of f] by (simp add: frameSize_def frame_bytes_def)
  moreover obtain n1 w2 where w2: "DatFileWriter_Write (wire_header f) w1 = (n1, w2)" by fastforce
  moreover obtain n2 w3 where w3: "DatFileWriter_Write (mDataContainer f) w2 = (n2, w3)" by fastforce
  ultimately have "record_frame f w = Some w3"
    by (simp add: record_frame_def setName_ready SerializeTo_def up flip: w1_def)
  moreover have "writing (raw @ frame_bytes f) (idx @ index_record (mTimestamp f, off)) (off + word_of_nat (length (frame_bytes f))) w3"
    using writing_Write [OF writing_Write [OF w1], of "wire_header f" "mDataContainer f"] w2 w3
    by (simp add: frame_bytes_def)
  ultimately show ?thesis by blast
qed

lemma record_frames_write:
  "writing raw idx off w \<Longrightarrow>
   \<exists>w' off'. record_frames fs w = Some w' \<and>
     writing (raw @ concat (map frame_bytes fs)) (idx @ concat (map index_record (offsets off fs))) off' w'"
proof (induction fs arbitrary: raw idx off w)
  case (Cons f fs)
  from record_frame_writes [OF Cons.prems, of f] obtain w1 where
    "record_frame f w = Some w1"
    "writing (raw @ frame_bytes f) (idx @ index_record (mTimestamp f, off)) (off + word_of_nat (length (frame_bytes f))) w1"
    by blast
  with Cons.IH [OF this(2)] show ?case by simp
qed auto

lemma fst_offsets: "map fst (offsets off fs) = map mTimestamp fs"
  by (induction fs arbitrary: off) auto

lemma offsets_split:
  "offsets off (fs @ f # gs) = offsets off fs @ (mTimestamp f, off + word_of_nat (length (concat (map frame_bytes fs)))) #
     offsets (off + word_of_nat (length (concat (map frame_bytes (fs @ [f]))))) gs"
  by (induction fs arbitrary: off) (simp_all add: add.assoc)

lemma sint_word_of_nat: "n < 2 ^ 63 \<Longrightarrow> sint (word_of_nat n :: u64) = int n"
  by (simp add: sint_uint unsigned_of_nat take_bit_nat_eq_self signed_take_bit_int_eq_self uint_nat unat_of_nat)

definition opened_writer :: "(string \<Rightarrow> bool) \<Rightarrow> (string \<Rightarrow> byte list) \<Rightarrow> string \<Rightarrow> WritingStrategy \<Rightarrow> DatFileWriter" where
  "opened_writer can_open disk name strategy = snd (OpenFiles can_open disk (DatFileWriter_new name strategy))"

text \<open>
  C7. What \<open>DatFileWriter\<close> records into fresh files, \<open>ReadIndicies\<close> and \<open>DeserializeFrom\<close> find again:
  the index file read back maps every timestamp (of distinct ones) to the offset at which the raw file
  delivers the frame with that timestamp, field by field and with its data.
\<close>

theorem dat_file_roundtrip:
  assumes "can_open name" "can_open (removeFileExtension name @ ''.idx'')"
    and "distinct (map mTimestamp fs)" "f \<in> set fs" "can_hold new_char f"
    and "length (concat (map frame_bytes fs)) < 2 ^ 63" "length ts = 8" "length sz = 8"
  shows "\<exists>w m off g s. record_frames fs (opened_writer can_open disk name Truncate) = Some w \<and>
     ReadIndicies ts sz (Some (out_content (mIndiciesStream w))) [] = (True, [m]) \<and>
     map_of m (sint (mTimestamp f)) = Some off \<and>
     DeserializeFrom new_char FileReadStream_Read V4LFrame_new
       (FileReadStream_new (ifstream_open (Some (out_content (mRawDataStream w)))) off) = Some (Returned True, g, s) \<and>
     same_fields f g \<and> mDataContainer g = mDataContainer f"
proof -
  obtain as bs where fs: "fs = as @ f # bs" using assms(4) by (meson split_list)
  have wr: "writing [] [] 0 (opened_writer can_open disk name Truncate)"
    unfolding opened_writer_def using writing_open [OF assms(1,2), of disk Truncate] by simp
  obtain w off where w: "record_frames fs (opened_writer can_open disk name Truncate) = Some w"
    "writing (concat (map frame_bytes fs)) (concat (map index_record (offsets 0 fs))) off w"
    using record_frames_write [OF wr, of fs] by auto
  let ?o = "length (concat (map frame_bytes as))"
  have "(mTimestamp f, word_of_nat ?o) \<in> set (offsets 0 fs)" unfolding fs offsets_split by simp
  then have m: "map_of (fold insert_record (offsets 0 fs) []) (sint (mTimestamp f)) = Some (sint (word_of_nat ?o :: u64))"
    using assms(3) by (intro map_of_records) (simp_all add: fst_offsets ascending_def)
  have "?o < 2 ^ 63" using assms(6) by (simp add: fs)
  note o = sint_word_of_nat [OF this]
  have "offsets 0 fs \<noteq> []" unfolding fs offsets_split by simp
  note idx = ReadIndicies_records [OF this assms(7,8), of "[]"]
  let ?s = "FileReadStream_new (ifstream_open (Some (concat (map frame_bytes fs)))) (int ?o)"
  have "unread_bytes ?s = wire_header f @ mDataContainer f @ concat (map frame_bytes bs)"
    by (simp add: FileReadStream_new_def seekg_def ifstream_open_def unread_bytes_def fs frame_bytes_def)
  from ifs.DeserializeFrom_wire [OF assms(5) this, of V4LFrame_new]
  show ?thesis using w m idx unfolding o writing_def by auto
qed

definition other_frame :: V4LFrame where
  "other_frame = small_frame\<lparr>mTimestamp := 1005, mDataContainer := [1, 2]\<rparr>"

theorem dat_file_roundtrip_witness:
  "\<exists>w m off g s. record_frames [small_frame, other_frame] (opened_writer (\<lambda>_. True) (\<lambda>_. [1]) ''a.dat'' Truncate) = Some w \<and>
     ReadIndicies (replicate 8 0) (replicate 8 0) (Some (out_content (mIndiciesStream w))) [] = (True, [m]) \<and>
     map_of m (sint (mTimestamp small_frame)) = Some off \<and>
     DeserializeFrom zero_char FileReadStream_Read V4LFrame_new
       (FileReadStream_new (ifstream_open (Some (out_content (mRawDataStream w)))) off) = Some (Returned True, g, s) \<and>
     same_fields small_frame g \<and> mDataContainer g = mDataContainer small_frame"
proof (rule dat_file_roundtrip)
  show "length (concat (map frame_bytes [small_frame, other_frame])) < 2 ^ 63"
    using wire_video_bounds(2) [of small_frame] wire_video_bounds(2) [of other_frame]
    by (simp add: frame_bytes_def layout_consts other_frame_def small_frame_def)
qed (simp_all add: can_hold_small, simp add: other_frame_def small_frame_def)

text \<open>
  In append mode the offsets of a new recording start at zero again while its frames are put
  behind the old ones, so what the new index record designates is the oldest frame of the file, not
  the frame that was recorded.
\<close>

theorem append_offset_names_old_frame:
  assumes "can_open name" "can_open (removeFileExtension name @ ''.idx'')"
    and "disk name = frame_bytes f0 @ rest" "can_hold new_char f0"
  shows "\<exists>w g s. record_frames [f] (opened_writer can_open disk name Append) = Some w \<and>
     out_content (mRawDataStream w) = disk name @ frame_bytes f \<and>
     out_content (mIndiciesStream w) = disk (removeFileExtension name @ ''.idx'') @ index_record (mTimestamp f, 0) \<and>
     DeserializeFrom new_char FileReadStream_Read V4LFrame_new
       (FileReadStream_new (ifstream_open (Some (out_content (mRawDataStream w)))) 0) = Some (Returned True, g, s) \<and>
     same_fields f0 g \<and> mDataContainer g = mDataContainer f0"
proof -
  have wr: "writing (disk name) (disk (removeFileExtension name @ ''.idx'')) 0 (opened_writer can_open disk name Append)"
    unfolding opened_writer_def using writing_open [OF assms(1,2), of disk Append] by simp
  obtain w off where w: "record_frames [f] (opened_writer can_open disk name Append) = Some w"
    "writing (disk name @ frame_bytes f) (disk (removeFileExtension name @ ''.idx'') @ index_record (mTimestamp f, 0)) off w"
    using record_frames_write [OF wr, of "[f]"] by auto
  have "unread_bytes (FileReadStream_new (ifstream_open (Some (disk name @ frame_bytes f))) 0) =
      wire_header f0 @ mDataContainer f0 @ rest @ frame_bytes f"
    by (simp add: FileReadStream_new_def seekg_def ifstream_open_def unread_bytes_def assms(3) frame_bytes_def)
  from ifs.DeserializeFrom_wire [OF assms(4) this, of V4LFrame_new]
  show ?thesis using w unfolding writing_def by auto
qed

theorem append_offset_names_old_frame_witness:
  "\<exists>w g s. record_frames [other_frame] (opened_writer (\<lambda>_. True)
        (\<lambda>n. if n = ''a.dat'' then frame_bytes small_frame else []) ''a.dat'' Append) = Some w \<and>
     DeserializeFrom zero_char FileReadStream_Read V4LFrame_new
       (FileReadStream_new (ifstream_open (Some (out_content (mRawDataStream w)))) 0) = Some (Returned True, g, s) \<and>
     same_fields small_frame g"
  using append_offset_names_old_frame [of "\<lambda>_. True" "''a.dat''"
      "\<lambda>n. if n = ''a.dat'' then frame_bytes small_frame else []" small_frame "[]" zero_char other_frame] can_hold_small
  by (simp add: ex_disj_distrib) blast

end
