(* ===== verification/Dat_Replay.thy ===== *)
theory Dat_Replay
  imports Dat_Record
begin

text \<open>
  \<open>DatFileReader\<close>: opening a set of recordings, the time span of their indices, and the replay loop.
  \<open>GetFramesAtTimestamp\<close> erases from the map the element on which the iterator of \<open>for_each\<close> stands;
  the increment that follows has no defined behaviour, which is the outcome \<open>Frames_undefined\<close>. Clocks
  and the pause between two packets are left out. A result of \<open>None\<close> is not returning.
\<close>

record DatFileReader =
  mDatFiles :: "string list"
  mDataStreams :: "ifstream list"
  dr_FilesOpened :: bool
  mIndicies :: "IndiciesMap list"
  mCopyIndicies :: "IndiciesMap list"
  mStartTimestamp :: int
  mEndTimestamp :: int
  mReadInfinitely :: bool
  dr_running :: bool

definition DatFileReader_new :: "string list \<Rightarrow> bool \<Rightarrow> DatFileReader" where
  "DatFileReader_new datFiles readInfinitely =
     \<lparr>mDatFiles = datFiles, mDataStreams = [], dr_FilesOpened = False, mIndicies = [], mCopyIndicies = [],
      mStartTimestamp = 2 ^ 63 - 1, mEndTimestamp = 0, mReadInfinitely = readInfinitely, dr_running = False\<rparr>"

text \<open>Opening never fails: the exceptions that the code catches are not enabled.\<close>

definition OpenDatFile :: "(string \<Rightarrow> byte list option) \<Rightarrow> string \<Rightarrow> DatFileReader \<Rightarrow> bool \<times> DatFileReader" where
  "OpenDatFile files filePath r = (True, r\<lparr>mDataStreams := mDataStreams r @ [ifstream_open (files filePath)]\<rparr>)"

fun GetTimestampPeeks_loop :: "IndiciesMap list \<Rightarrow> int \<times> int \<Rightarrow> int \<times> int" where
  "GetTimestampPeeks_loop [] se = se"
| "GetTimestampPeeks_loop (m # ms) (s, e) =
     GetTimestampPeeks_loop ms (if m = [] then (s, e) else (min (fst (hd m)) s, max (fst (last m)) e))"

definition GetTimestampPeeks :: "DatFileReader \<Rightarrow> bool \<times> DatFileReader" where
  "GetTimestampPeeks r =
     (if mIndicies r = [] then (False, r)
      else case GetTimestampPeeks_loop (mIndicies r) (mStartTimestamp r, mEndTimestamp r) of
        (s, e) \<Rightarrow> (True, r\<lparr>mStartTimestamp := s, mEndTimestamp := e\<rparr>))"

text \<open>\<open>ts\<close> and \<open>sz\<close> are the uninitialised variables of \<open>ReadIndicies\<close>.\<close>

fun Start_files :: "byte list \<Rightarrow> byte list \<Rightarrow> (string \<Rightarrow> byte list option) \<Rightarrow> string list \<Rightarrow> DatFileReader \<Rightarrow> DatFileReader" where
  "Start_files ts sz files [] r = r"
| "Start_files ts sz files (d # ds) r =
     (let r = snd (OpenDatFile files d r);
          r = r\<lparr>mIndicies := snd (ReadIndicies ts sz (files (removeFileExtension d @ ''.idx'')) (mIndicies r))\<rparr>
      in Start_files ts sz files ds r)"

definition DatFileReader_Start :: "byte list \<Rightarrow> byte list \<Rightarrow> (string \<Rightarrow> byte list option) \<Rightarrow> DatFileReader \<Rightarrow> DatFileReader" where
  "DatFileReader_Start ts sz files r =
     (if mDatFiles r = [] then r
      else let r = (Start_files ts sz files (mDatFiles r) r)\<lparr>dr_FilesOpened := True\<rparr>;
               r = (if mReadInfinitely r then r\<lparr>mCopyIndicies := mIndicies r\<rparr> else r)
        in case GetTimestampPeeks r of
             (False, r) \<Rightarrow> r
           | (True, r) \<Rightarrow> r\<lparr>dr_running := True\<rparr>)"

definition DatFileReader_Stop :: "DatFileReader \<Rightarrow> DatFileReader" where
  "DatFileReader_Stop r = r\<lparr>dr_running := False, dr_FilesOpened := False, mDataStreams := []\<rparr>"

section \<open>Replaying\<close>

datatype frames_result = No_frames | Frames_threw frame_error | Frames_undefined

text \<open>The entries from \<open>begin()\<close> up to, and without, the last one below the timestamp.\<close>

definition due :: "int \<Rightarrow> IndiciesMap \<Rightarrow> IndiciesMap" where
  "due timestamp m = butlast (takeWhile (\<lambda>(k, _). k < timestamp) m)"

fun GetFrames_range ::
  "(nat \<Rightarrow> byte list option) \<Rightarrow> IndiciesMap \<Rightarrow> ifstream \<Rightarrow> (frames_result \<times> ifstream) option" where
  "GetFrames_range new_char [] s = Some (No_frames, s)"
| "GetFrames_range new_char ((k, off) # ps) s = do {
     (res, _, s) \<leftarrow> DeserializeFrom new_char FileReadStream_Read V4LFrame_new (FileReadStream_new s off);
     (case res of
        Returned False \<Rightarrow> GetFrames_range new_char ps s
      | Returned True \<Rightarrow> Some (Frames_undefined, s)
      | Threw e \<Rightarrow> Some (Frames_threw e, s)
      | Undefined \<Rightarrow> Some (Frames_undefined, s))
   }"

text \<open>The loop over \<open>index\<close>; a map without a stream of its index is an access outside the vector.\<close>

fun GetFrames_loop ::
  "(nat \<Rightarrow> byte list option) \<Rightarrow> int \<Rightarrow> IndiciesMap list \<Rightarrow> ifstream list \<Rightarrow> (frames_result \<times> ifstream list) option" where
  "GetFrames_loop new_char timestamp [] ss = Some (No_frames, ss)"
| "GetFrames_loop new_char timestamp (m # ms) ss =
     (if due timestamp m = [] then
        map_option (\<lambda>(res, ss'). (res, take 1 ss @ ss')) (GetFrames_loop new_char timestamp ms (drop 1 ss))
      else case ss of
        [] \<Rightarrow> Some (Frames_undefined, [])
      | s # ss \<Rightarrow> do {
          (res, s) \<leftarrow> GetFrames_range new_char (due timestamp m) s;
          (if res = No_frames
           then map_option (\<lambda>(res, ss'). (res, s # ss')) (GetFrames_loop new_char timestamp ms ss)
           else Some (res, s # ss))
        })"

definition GetFramesAtTimestamp ::
  "(nat \<Rightarrow> byte list option) \<Rightarrow> int \<Rightarrow> DatFileReader \<Rightarrow> (frames_result \<times> DatFileReader) option" where
  "GetFramesAtTimestamp new_char timestamp r =
     map_option (\<lambda>(res, ss). (res, r\<lparr>mDataStreams := ss\<rparr>))
       (GetFrames_loop new_char timestamp (mIndicies r) (mDataStreams r))"

definition TimestampStep :: int where
  "TimestampStep = 1000"

function Loop_from ::
  "(nat \<Rightarrow> byte list option) \<Rightarrow> int \<Rightarrow> int \<Rightarrow> DatFileReader \<Rightarrow> (frames_result \<times> DatFileReader) option" where
  "Loop_from new_char end_ts currentTimestamp r =
     (if currentTimestamp < end_ts then do {
        (res, r) \<leftarrow> GetFramesAtTimestamp new_char currentTimestamp r;
        (if res = No_frames then Loop_from new_char end_ts (currentTimestamp + TimestampStep) r else Some (res, r))
      } else Some (No_frames, r))"
  by pat_completeness auto
termination
  by (relation "measure (\<lambda>(c, e, t, r). nat (e - t))") (auto simp: TimestampStep_def)

declare Loop_from.simps [simp del]

definition DatFileReader_Loop :: "(nat \<Rightarrow> byte list option) \<Rightarrow> DatFileReader \<Rightarrow> (frames_result \<times> DatFileReader) option" where
  "DatFileReader_Loop new_char r = do {
     (res, r) \<leftarrow> Loop_from new_char (mEndTimestamp r) (mStartTimestamp r) r;
     Some (res, if res = No_frames \<and> mReadInfinitely r then r\<lparr>mIndicies := mCopyIndicies r\<rparr> else r)
   }"

section \<open>What a replay delivers\<close>

lemma due_two:
  assumes "k1 < ts" "k2 < ts"
  shows "\<exists>ps. due ts ((k1, o1) # (k2, o2) # m) = (k1, o1) # ps"
  using assms by (simp add: due_def)

lemma GetFrames_range_intact:
  assumes "can_hold new_char f" "\<not> in_failed s" "drop n (in_content s) = frame_bytes f @ rest"
  shows "\<exists>s'. GetFrames_range new_char ((k, int n) # ps) s = Some (Frames_undefined, s')"
proof -
  have "unread_bytes (FileReadStream_new s (int n)) = wire_header f @ mDataContainer f @ rest"
    using assms(2,3) by (simp add: FileReadStream_new_def seekg_def unread_bytes_def frame_bytes_def)
  from ifs.DeserializeFrom_wire [OF assms(1) this, of V4LFrame_new] show ?thesis by auto
qed

text \<open>
  A recording cannot be replayed: at every timestamp with two index entries of a recording below
  it, the first of which designates an intact frame, reading that frame ends in the use of an
  invalidated iterator.
\<close>

theorem replay_first_frame_undefined:
  assumes "can_hold new_char f" "mIndicies r = ((k1, int n) # (k2, o2) # m) # ms" "mDataStreams r = s # ss"
    and "k1 < timestamp" "k2 < timestamp"
    and "\<not> in_failed s" "drop n (in_content s) = frame_bytes f @ rest"
  shows "\<exists>r'. GetFramesAtTimestamp new_char timestamp r = Some (Frames_undefined, r')"
proof -
  obtain ps where due: "due timestamp ((k1, int n) # (k2, o2) # m) = (k1, int n) # ps"
    using due_two [OF assms(4,5)] by blast
  obtain s' where "GetFrames_range new_char ((k1, int n) # ps) s = Some (Frames_undefined, s')"
    using GetFrames_range_intact [OF assms(1,6,7)] by blast
  then show ?thesis
    by (simp add: GetFramesAtTimestamp_def assms(2,3) due del: GetFrames_range.simps)
qed

text \<open>The reader that \<open>Start\<close> makes of a recording of two frames, the second a second later.\<close>

definition two_frames :: "string \<Rightarrow> byte list option" where
  "two_frames name =
     (if name = ''a.dat'' then Some (frame_bytes small_frame @ frame_bytes other_frame)
      else if name = ''a.idx'' then Some (concat (map index_record (offsets 0 [small_frame, other_frame])))
      else None)"

lemma start_two_frames:
  "mIndicies (DatFileReader_Start (replicate 8 0) (replicate 8 0) two_frames (DatFileReader_new [''a.dat''] False)) =
     [[(5, 0), (1005, int (length (frame_bytes small_frame)))]]"
  "mDataStreams (DatFileReader_Start (replicate 8 0) (replicate 8 0) two_frames (DatFileReader_new [''a.dat''] False)) =
     [ifstream_open (two_frames ''a.dat'')]"
proof -
  have rf: "removeFileExtension ''a.dat'' = ''a''" by (simp add: removeFileExtension_def substr_def)
  have idx: "two_frames ''a.idx'' = Some (concat (map index_record (offsets 0 [small_frame, other_frame])))"
    by (simp add: two_frames_def)
  have "offsets 0 [small_frame, other_frame] \<noteq> []" by simp
  note recs = ReadIndicies_records [OF this, of "replicate 8 0" "replicate 8 0" "[]"]
  have "length (frame_bytes small_frame) < 2 ^ 63"
    using wire_video_bounds(2) [of small_frame] by (simp add: frame_bytes_def layout_consts small_frame_def)
  note off = sint_word_of_nat [OF this]
  have map: "fold insert_record (offsets 0 [small_frame, other_frame]) [] =
      [(5, 0), (1005, int (length (frame_bytes small_frame)))]"
    by (simp add: insert_record_def other_frame_def off) (simp add: small_frame_def)
  show "mIndicies (DatFileReader_Start (replicate 8 0) (replicate 8 0) two_frames (DatFileReader_new [''a.dat''] False)) =
     [[(5, 0), (1005, int (length (frame_bytes small_frame)))]]"
    "mDataStreams (DatFileReader_Start (replicate 8 0) (replicate 8 0) two_frames (DatFileReader_new [''a.dat''] False)) =
     [ifstream_open (two_frames ''a.dat'')]"
    using recs map
    by (simp_all add: DatFileReader_Start_def DatFileReader_new_def OpenDatFile_def Let_def rf idx GetTimestampPeeks_def
        split: prod.split)
qed

theorem replay_first_frame_undefined_witness:
  "\<exists>r'. GetFramesAtTimestamp zero_char 1006
      (DatFileReader_Start (replicate 8 0) (replicate 8 0) two_frames (DatFileReader_new [''a.dat''] False)) =
    Some (Frames_undefined, r')"
  by (rule replay_first_frame_undefined [OF can_hold_small, where n = 0 and ?k1.0 = 5 and ?k2.0 = 1005 and rest = "frame_bytes other_frame" and ms = "[]" and ss = "[]" and m = "[]" and ?o2.0 = "int (length (frame_bytes small_frame))" and s = "ifstream_open (two_frames ''a.dat'')"])
     (simp_all add: start_two_frames ifstream_open_def two_frames_def)

end
