(* ===== verification/Dat_Durability.thy ===== *)
theory Dat_Durability
  imports Dat_Record
begin

text \<open>
  How much of a recording survives. \<open>DatFileWriter\<close> flushes its files with every tenth call of
  \<open>Write\<close> and closes them in its destructor; what is not flushed is lost when the process ends
  otherwise. \<open>out_synced\<close> is the length of what is safe.
\<close>

definition isFileOpened :: "DatFileWriter \<Rightarrow> bool" where
  "isFileOpened w \<longleftrightarrow> dw_FilesOpened w"

text \<open>\<open>close\<close> writes what is buffered; a stream that never opened is not open.\<close>

definition ostream_close :: "ofstream \<Rightarrow> ofstream" where
  "ostream_close s = (ostream_flush s)\<lparr>out_ok := False\<rparr>"

definition DatFileWriter_destroy :: "DatFileWriter \<Rightarrow> DatFileWriter" where
  "DatFileWriter_destroy w =
     (let w = (if out_ok (mRawDataStream w) then w\<lparr>mRawDataStream := ostream_close (mRawDataStream w)\<rparr> else w)
      in if out_ok (mIndiciesStream w) then w\<lparr>mIndiciesStream := ostream_close (mIndiciesStream w)\<rparr> else w)"

text \<open>The calls of a recording, and the data they hand over.\<close>

datatype writer_op = Save_meta u64 u64 | Put "byte list"

fun writer_step :: "writer_op \<Rightarrow> DatFileWriter \<Rightarrow> DatFileWriter" where
  "writer_step (Save_meta ts frameSz) w = SaveMetaData ts frameSz w"
| "writer_step (Put data) w = snd (DatFileWriter_Write data w)"

fun puts :: "writer_op list \<Rightarrow> byte list list" where
  "puts [] = []"
| "puts (Save_meta ts frameSz # ops) = puts ops"
| "puts (Put data # ops) = data # puts ops"

lemma puts_append [simp]: "puts (xs @ ys) = puts xs @ puts ys"
  by (induction xs rule: puts.induct) auto

lemma puts_replicate: "puts (replicate n (Put d)) = replicate n d"
  by (induction n) auto

definition safe_calls :: "byte list list \<Rightarrow> byte list list" where
  "safe_calls ds = take (10 * (length ds div 10)) ds"

text \<open>What a writer is after some calls of \<open>Write\<close>: ten of them are one flush.\<close>

definition flushing :: "byte list \<Rightarrow> byte list list \<Rightarrow> DatFileWriter \<Rightarrow> bool" where
  "flushing old ds w \<longleftrightarrow> dw_FilesOpened w \<and> out_ok (mRawDataStream w) \<and>
     mFramesWritten w = word_of_nat (length ds mod 10) \<and>
     out_content (mRawDataStream w) = old @ concat ds \<and>
     out_synced (mRawDataStream w) = length (old @ concat (safe_calls ds))"

lemma small_frames:
  assumes "k < 10"
  shows "word_of_nat k + 1 = FramesCountToFlush \<longleftrightarrow> k = 9"
proof -
  from assms have "k \<in> {0, 1, 2, 3, 4, 5, 6, 7, 8, 9}" by auto
  then show ?thesis by (elim insertE emptyE) (simp_all add: FramesCountToFlush_def)
qed

lemma safe_calls_snoc:
  "safe_calls (ds @ [d]) = (if length ds mod 10 = 9 then ds @ [d] else safe_calls ds)"
proof (cases "length ds mod 10 = 9")
  case True
  then have "10 * (Suc (length ds) div 10) = Suc (length ds)" by presburger
  with True show ?thesis by (simp add: safe_calls_def)
next
  case False
  then have "Suc (length ds) div 10 = length ds div 10" by presburger
  moreover have "10 * (length ds div 10) \<le> length ds" by simp
  ultimately show ?thesis using False by (simp add: safe_calls_def)
qed

lemma flushing_step:
  assumes "flushing old ds w"
  shows "flushing old (ds @ puts [p]) (writer_step p w)"
proof (cases p)
  case (Save_meta ts frameSz)
  with assms show ?thesis by (simp add: flushing_def SaveMetaData_def)
next
  case (Put d)
  have nine: "mFramesWritten w + 1 = FramesCountToFlush \<longleftrightarrow> length ds mod 10 = 9"
    using assms by (simp add: flushing_def small_frames)
  show ?thesis
  proof (cases "length ds mod 10 = 9")
    case True
    then have "Suc (length ds) mod 10 = 0" by presburger
    with True assms nine show ?thesis
      by (simp add: Put flushing_def DatFileWriter_Write_def Let_def ostream_write_def ostream_flush_def safe_calls_snoc)
  next
    case False
    then have "Suc (length ds) mod 10 = Suc (length ds mod 10)" by presburger
    with False assms nine show ?thesis
      by (simp add: Put flushing_def DatFileWriter_Write_def Let_def ostream_write_def safe_calls_snoc add.commute)
  qed
qed

lemma flushing_run: "flushing old ds w \<Longrightarrow> flushing old (ds @ puts ops) (fold writer_step ops w)"
proof (induction ops arbitrary: ds w)
  case (Cons p ops)
  from Cons.IH [OF flushing_step [OF Cons.prems, of p]] show ?case by (cases p) simp_all
qed simp

text \<open>
  C36. Of a recording whose raw file could be opened everything up to the last tenth call of \<open>Write\<close> is safe
  at any moment, so less than ten calls are ever at stake, however the index records are written in
  between; the destructor makes the rest safe as well.
\<close>

theorem unflushed_calls_bounded:
  assumes "can_open name"
  shows "let old = (case strategy of Append \<Rightarrow> disk name | Truncate \<Rightarrow> []);
      w = fold writer_step ops (snd (OpenFiles can_open disk (DatFileWriter_new name strategy)));
      s = mRawDataStream w; closed = mRawDataStream (DatFileWriter_destroy w)
    in out_content s = old @ concat (puts ops) \<and> out_synced s = length (old @ concat (safe_calls (puts ops))) \<and>
       length (puts ops) < length (safe_calls (puts ops)) + 10 \<and>
       out_content closed = out_content s \<and> out_synced closed = length (out_content s)"
proof -
  let ?old = "case strategy of Append \<Rightarrow> disk name | Truncate \<Rightarrow> []"
  let ?w = "fold writer_step ops (snd (OpenFiles can_open disk (DatFileWriter_new name strategy)))"
  have "flushing ?old [] (snd (OpenFiles can_open disk (DatFileWriter_new name strategy)))"
    using assms by (simp add: flushing_def OpenFiles_def DatFileWriter_new_def ofstream_open_def Let_def safe_calls_def)
  from flushing_run [OF this, of ops] have w: "flushing ?old (puts ops) ?w" by simp
  have "length (puts ops) < length (safe_calls (puts ops)) + 10" by (simp add: safe_calls_def)
  with w show ?thesis
    by (simp add: flushing_def DatFileWriter_destroy_def ostream_close_def ostream_flush_def Let_def)
qed

theorem unflushed_calls_bounded_witness:
  "out_synced (mRawDataStream (fold writer_step (replicate 12 (Put [1, 2]))
     (snd (OpenFiles (\<lambda>_. True) (\<lambda>_. []) (DatFileWriter_new ''a.dat'' Truncate))))) = 20"
proof -
  obtain ops where ops: "ops = replicate 12 (Put [1, 2])" by blast
  have "safe_calls (puts ops) = replicate 10 [1, 2]" by (simp add: ops puts_replicate safe_calls_def)
  moreover have "length (concat (replicate 10 [1 :: byte, 2])) = 20" by (simp add: length_concat sum_list_replicate)
  ultimately show ?thesis
    using unflushed_calls_bounded [where can_open = "\<lambda>_. True" and name = "''a.dat''" and ops = ops
        and disk = "\<lambda>_. []" and strategy = Truncate]
    unfolding ops [symmetric] by (simp add: Let_def del: length_concat)
qed

end
