(* ===== verification/Tcp_Socket.thy ===== *)
theory Tcp_Socket
  imports Os_Calls
begin

text \<open>
  The TCP sockets of MLCommon: \<open>Socket\<close> on Linux (unix\_socket.cpp) and on Windows
  (windows\_socket.cpp), \<open>TcpClient\<close> on top of it, and \<open>NetworkSetup\<close>. A socket object is its
  descriptor. Objects are returned without a copy.
\<close>

section \<open>Linux\<close>

definition unix_INVALID_SOCKET :: int where
  "unix_INVALID_SOCKET = - 1"

definition unix_Socket_new :: int where
  "unix_Socket_new = unix_INVALID_SOCKET"

definition unix_Socket_bool :: "int \<Rightarrow> bool" where
  "unix_Socket_bool d \<longleftrightarrow> d \<noteq> unix_INVALID_SOCKET"

definition unix_Socket_close :: "(int, 'z) os_scheme \<Rightarrow> int \<Rightarrow> int trace \<Rightarrow> int \<times> int trace" where
  "unix_Socket_close os d tr =
     (if d \<noteq> unix_INVALID_SOCKET then (unix_INVALID_SOCKET, snd (sys os (Shutdown d) tr)) else (d, tr))"

definition unix_Socket_listen ::
  "(int, 'z) os_scheme \<Rightarrow> u16 \<Rightarrow> int \<Rightarrow> int \<Rightarrow> int trace \<Rightarrow> bool \<times> int \<times> int trace" where
  "unix_Socket_listen os port maxConnectionCount d tr =
     (let (d, tr) = unix_Socket_close os d tr;
          (d, tr) = sys os Socket_call tr
      in if d < 0 then (False, unix_Socket_close os d tr)
         else let (b, tr) = sys os (Bind_port d port) tr
           in if b < 0 then (False, unix_Socket_close os d tr)
              else let (l, tr) = sys os (Listen d maxConnectionCount) tr
                in if l < 0 then (False, unix_Socket_close os d tr) else (True, d, tr))"

definition unix_Socket_waitForNewConnection :: "(int, 'z) os_scheme \<Rightarrow> int \<Rightarrow> int trace \<Rightarrow> int \<times> int trace" where
  "unix_Socket_waitForNewConnection os d tr =
     (if d \<noteq> unix_INVALID_SOCKET then sys os (Accept d) tr else (unix_Socket_new, tr))"

definition unix_Socket_connectToHost ::
  "(int, 'z) os_scheme \<Rightarrow> string \<Rightarrow> u16 \<Rightarrow> int \<Rightarrow> int trace \<Rightarrow> bool \<times> int \<times> int trace" where
  "unix_Socket_connectToHost os ip port d tr =
     (let (d, tr) = unix_Socket_close os d tr;
          (d, tr) = sys os Socket_call tr
      in if d = unix_INVALID_SOCKET then (False, unix_Socket_close os d tr)
         else let (c, tr) = sys os (Connect d ip port) tr in (c = 0, d, tr))"

definition unix_Socket_readData :: "(int, 'z) os_scheme \<Rightarrow> nat \<Rightarrow> int \<Rightarrow> int trace \<Rightarrow> (int + byte list) \<times> int trace" where
  "unix_Socket_readData os n d tr =
     (if d = unix_INVALID_SOCKET then (Inl (- 1), tr)
      else let (r, tr') = sys os (Recv_call d n) tr
        in (if r < 0 then Inl r else Inr (take (nat r) (bytes_in os tr (Recv_call d n))), tr'))"

text \<open>
  Every round of the loop sends the buffer from its beginning; \<open>writtenBytes\<close> is an \<open>int\<close> whose
  conversion to \<open>size_t\<close> extends the sign.
\<close>

partial_function (option) unix_writeData_loop ::
  "(int, 'z) os_scheme \<Rightarrow> byte list \<Rightarrow> int \<Rightarrow> u32 \<Rightarrow> int trace \<Rightarrow> (int \<times> int trace) option" where
  "unix_writeData_loop os buffer d writtenBytes tr =
     (let (writtenChunk, tr) = sys os (Send_call d buffer) tr
      in if writtenChunk < 0 then Some (- 1, tr)
         else let writtenBytes = writtenBytes + word_of_int writtenChunk
           in if unat (scast writtenBytes :: u64) < length buffer then unix_writeData_loop os buffer d writtenBytes tr
              else Some (sint writtenBytes, tr))"

declare unix_writeData_loop.simps [code]

definition unix_Socket_writeData ::
  "(int, 'z) os_scheme \<Rightarrow> byte list \<Rightarrow> int \<Rightarrow> int trace \<Rightarrow> (int \<times> int trace) option" where
  "unix_Socket_writeData os buffer d tr =
     (if d = unix_INVALID_SOCKET then Some (- 1, tr) else unix_writeData_loop os buffer d 0 tr)"

section \<open>Windows\<close>

definition windows_Socket_bool :: "SOCKET \<Rightarrow> bool" where
  "windows_Socket_bool d \<longleftrightarrow> d \<noteq> INVALID_SOCKET"

definition windows_Socket_close :: "(SOCKET, 'z) os_scheme \<Rightarrow> SOCKET \<Rightarrow> SOCKET trace \<Rightarrow> SOCKET \<times> SOCKET trace" where
  "windows_Socket_close os d tr =
     (if d \<noteq> INVALID_SOCKET then (INVALID_SOCKET, snd (sys os (Close d) tr)) else (d, tr))"

text \<open>\<open>SOCKET_ERROR\<close> is \<open>- 1\<close>; \<open>socket\<close> and \<open>accept\<close> return the descriptor's bits.\<close>

definition windows_Socket_listen ::
  "(SOCKET, 'z) os_scheme \<Rightarrow> u16 \<Rightarrow> int \<Rightarrow> SOCKET \<Rightarrow> SOCKET trace \<Rightarrow> bool \<times> SOCKET \<times> SOCKET trace" where
  "windows_Socket_listen os port maxConnectionCount d tr =
     (let (d, tr) = windows_Socket_close os d tr;
          (r, tr) = sys os Socket_call tr;
          d = word_of_int r
      in if d = INVALID_SOCKET then (False, d, tr)
         else let (b, tr) = sys os (Bind_port d port) tr
           in if b = - 1 then (False, d, tr)
              else let (l, tr) = sys os (Listen d maxConnectionCount) tr in (l \<noteq> - 1, d, tr))"

definition windows_Socket_waitForNewConnection ::
  "(SOCKET, 'z) os_scheme \<Rightarrow> SOCKET \<Rightarrow> SOCKET trace \<Rightarrow> SOCKET \<times> SOCKET trace" where
  "windows_Socket_waitForNewConnection os d tr =
     (if d \<noteq> INVALID_SOCKET then case sys os (Accept d) tr of (r, tr) \<Rightarrow> (word_of_int r, tr)
      else (INVALID_SOCKET, tr))"

definition windows_Socket_connectToHost ::
  "(SOCKET, 'z) os_scheme \<Rightarrow> string \<Rightarrow> u16 \<Rightarrow> SOCKET \<Rightarrow> SOCKET trace \<Rightarrow> bool \<times> SOCKET \<times> SOCKET trace" where
  "windows_Socket_connectToHost os ip port d tr =
     (let (d, tr) = windows_Socket_close os d tr;
          (r, tr) = sys os Socket_call tr;
          d = word_of_int r
      in if d = INVALID_SOCKET then (False, d, tr)
         else let (c, tr) = sys os (Connect d ip port) tr in (c = 0, d, tr))"

text \<open>The length is converted to \<open>int\<close>.\<close>

definition windows_Socket_readData ::
  "(SOCKET, 'z) os_scheme \<Rightarrow> nat \<Rightarrow> SOCKET \<Rightarrow> SOCKET trace \<Rightarrow> (int + byte list) \<times> SOCKET trace" where
  "windows_Socket_readData os n d tr =
     (if d = INVALID_SOCKET then (Inl (- 1), tr)
      else let c = Recv_call d (nat (sint (word_of_nat n :: u32)));
               (r, tr') = sys os c tr
        in (if r < 0 then Inl r else Inr (take (nat r) (bytes_in os tr c)), tr'))"

partial_function (option) windows_writeData_loop ::
  "(SOCKET, 'z) os_scheme \<Rightarrow> byte list \<Rightarrow> SOCKET \<Rightarrow> u32 \<Rightarrow> SOCKET trace \<Rightarrow> (int \<times> SOCKET trace) option" where
  "windows_writeData_loop os buffer d writtenBytes tr =
     (let (writtenChunk, tr) = sys os (Send_call d (take (nat (sint (word_of_nat (length buffer) :: u32))) buffer)) tr
      in if writtenChunk = - 1 then Some (- 1, tr)
         else let writtenBytes = writtenBytes + word_of_int writtenChunk
           in if unat (scast writtenBytes :: u64) < length buffer then windows_writeData_loop os buffer d writtenBytes tr
              else Some (sint writtenBytes, tr))"

definition windows_Socket_writeData ::
  "(SOCKET, 'z) os_scheme \<Rightarrow> byte list \<Rightarrow> SOCKET \<Rightarrow> SOCKET trace \<Rightarrow> (int \<times> SOCKET trace) option" where
  "windows_Socket_writeData os buffer d tr =
     (if d = INVALID_SOCKET then Some (- 1, tr) else windows_writeData_loop os buffer d 0 tr)"

text \<open>
  \<open>NetworkSetup\<close>: how many shared pointers to the instance there are; \<open>None\<close> when the constructor
  throws. The last owner cleans up.
\<close>

definition initNetwork :: "(SOCKET, 'z) os_scheme \<Rightarrow> nat \<times> SOCKET trace \<Rightarrow> (nat \<times> SOCKET trace) option" where
  "initNetwork os st =
     (case st of (owners, tr) \<Rightarrow>
        if 0 < owners then Some (owners + 1, tr)
        else if ret os tr Wsa_startup = 0 then Some (1, tr @ [Wsa_startup]) else None)"

definition releaseNetwork :: "nat \<times> SOCKET trace \<Rightarrow> nat \<times> SOCKET trace" where
  "releaseNetwork st =
     (case st of (owners, tr) \<Rightarrow> if owners = 1 then (0, tr @ [Wsa_cleanup]) else (owners - 1, tr))"

section \<open>TcpClient\<close>

definition TcpClient_connect ::
  "(int, 'z) os_scheme \<Rightarrow> string \<Rightarrow> u16 \<Rightarrow> int \<Rightarrow> int trace \<Rightarrow> bool \<times> int \<times> int trace" where
  "TcpClient_connect = unix_Socket_connectToHost"

definition TcpClient_readData ::
  "(int, 'z) os_scheme \<Rightarrow> nat \<Rightarrow> int \<Rightarrow> int trace \<Rightarrow> (int + byte list) \<times> int trace" where
  "TcpClient_readData = unix_Socket_readData"

definition TcpClient_writeData ::
  "(int, 'z) os_scheme \<Rightarrow> byte list \<Rightarrow> int \<Rightarrow> int trace \<Rightarrow> (int \<times> int trace) option" where
  "TcpClient_writeData = unix_Socket_writeData"

definition TcpClient_closeConnection :: "(int, 'z) os_scheme \<Rightarrow> int \<Rightarrow> int trace \<Rightarrow> int \<times> int trace" where
  "TcpClient_closeConnection = unix_Socket_close"

definition TcpClient_Write ::
  "(int, 'z) os_scheme \<Rightarrow> byte list \<Rightarrow> int \<Rightarrow> int trace \<Rightarrow> (int \<times> int trace) option" where
  "TcpClient_Write os data d tr = TcpClient_writeData os data d tr"

section \<open>Sending\<close>

text \<open>What the peer is given by a list of sends: each delivers as many bytes as its result says.\<close>

fun delivered :: "(int, 'z) os_scheme \<Rightarrow> int trace \<Rightarrow> int os_call list \<Rightarrow> byte list" where
  "delivered os tr [] = []"
| "delivered os tr (Send_call d bs # cs) = take (nat (ret os tr (Send_call d bs))) bs @ delivered os (tr @ [Send_call d bs]) cs"
| "delivered os tr (c # cs) = delivered os (tr @ [c]) cs"

lemma written_small: "n < 2 ^ 31 \<Longrightarrow> unat (scast (word_of_nat n :: u32) :: u64) = n"
  "n < 2 ^ 31 \<Longrightarrow> sint (word_of_nat n :: u32) = int n"
proof -
  assume n: "n < 2 ^ 31"
  show s: "sint (word_of_nat n :: u32) = int n"
    using n by (simp add: sint_uint unsigned_of_nat take_bit_nat_eq_self signed_take_bit_int_eq_self uint_nat unat_of_nat)
  have "(scast (word_of_nat n :: u32) :: u64) = word_of_int (sint (word_of_nat n :: u32))" by simp
  also have "\<dots> = word_of_nat n" by (simp add: s)
  finally show "unat (scast (word_of_nat n :: u32) :: u64) = n" using n by (simp add: unat_of_nat)
qed

lemma writeData_whole:
  assumes "unix_Socket_bool d" "length buffer < 2 ^ 31" "ret os tr (Send_call d buffer) = int (length buffer)"
  shows "unix_Socket_writeData os buffer d tr = Some (int (length buffer), tr @ [Send_call d buffer])"
  using assms
  by (simp add: unix_Socket_writeData_def unix_Socket_bool_def unix_writeData_loop.simps sys_def written_small)

text \<open>
  \<open>writeData\<close> on Linux is right when the kernel takes the whole buffer at once; when it takes only
  the first \<open>k\<close> bytes and then the rest's number, the call reports the full length although the peer
  got the first \<open>k\<close> bytes and then the beginning of the buffer again.
\<close>

theorem writeData_restarts_after_short_send:
  assumes "unix_Socket_bool d" "length buffer < 2 ^ 31" "k \<le> length buffer"
    and "ret os tr (Send_call d buffer) = int k"
    and "ret os (tr @ [Send_call d buffer]) (Send_call d buffer) = int (length buffer - k)"
  shows "\<exists>cs. unix_Socket_writeData os buffer d tr = Some (int (length buffer), tr @ cs) \<and>
     delivered os tr cs = (if k = length buffer then buffer else take k buffer @ take (length buffer - k) buffer)"
proof (cases "k = length buffer")
  case True
  then show ?thesis using assms
    by (intro exI [of _ "[Send_call d buffer]"]) (simp add: writeData_whole)
next
  case False
  have w: "word_of_nat k + word_of_nat (length buffer - k) = (word_of_nat (length buffer) :: u32)"
    using assms(3) by (simp flip: of_nat_add)
  have "unix_writeData_loop os buffer d (word_of_nat k) (tr @ [Send_call d buffer]) =
      Some (int (length buffer), tr @ [Send_call d buffer, Send_call d buffer])"
    by (subst unix_writeData_loop.simps) (simp add: sys_def assms(5) w written_small [OF assms(2)])
  moreover have "k < 2 ^ 31" "k < length buffer" using assms(2,3) False by simp_all
  ultimately show ?thesis using assms False
    by (intro exI [of _ "[Send_call d buffer, Send_call d buffer]"])
       (simp add: unix_Socket_writeData_def unix_Socket_bool_def unix_writeData_loop.simps [of os buffer d 0] sys_def written_small nat_diff_distrib)
qed

definition two_then_one :: "int os" where
  "two_then_one = \<lparr>ret = (\<lambda>tr c. case c of Send_call d bs \<Rightarrow> if tr = [] then 2 else 1 | _ \<Rightarrow> 0),
     bytes_in = (\<lambda>tr c. []), events_in = (\<lambda>tr c. []), ready_in = (\<lambda>tr c. {})\<rparr>"

theorem writeData_restarts_after_short_send_witness:
  "\<exists>cs. unix_Socket_writeData two_then_one [7, 8, 9] 4 [] = Some (3, cs) \<and>
     delivered two_then_one [] cs = [7, 8, 7]"
  using writeData_restarts_after_short_send [of 4 "[7, 8, 9]" 2 two_then_one "[]"]
  by (simp add: two_then_one_def unix_Socket_bool_def unix_INVALID_SOCKET_def)

section \<open>Failures of listen\<close>

text \<open>
  On Linux a socket is valid after \<open>listen\<close> exactly if \<open>listen\<close> reported success, whatever the
  kernel answers; on Windows a socket that could not be bound or could not listen stays valid, and
  no descriptor of it is released by the failed call.
\<close>

theorem listen_failure_state:
  "(case unix_Socket_listen os port n d tr of (ok, d', tr') \<Rightarrow> unix_Socket_bool d' = ok) \<and>
   (case windows_Socket_listen wos port n INVALID_SOCKET wtr of (ok, d', tr') \<Rightarrow>
      (windows_Socket_bool d' = (word_of_int (ret wos wtr Socket_call) \<noteq> INVALID_SOCKET)) \<and>
      (\<forall>s. count_list tr' (Close s) = count_list wtr (Close s)))"
  by (auto simp: unix_Socket_listen_def unix_Socket_close_def unix_Socket_bool_def unix_INVALID_SOCKET_def
      windows_Socket_listen_def windows_Socket_close_def windows_Socket_bool_def sys_def Let_def)

end
