(* ===== verification/Socket_Lifetimes.thy ===== *)
theory Socket_Lifetimes
  imports Tcp_Socket
begin

text \<open>
  Copies and destruction of \<open>Socket\<close> objects. The class can be copied, copies share the descriptor and
  every object closes it: on Linux this shuts the connection down under the other copies, on Windows it
  closes a descriptor that others still use. On Windows every object also owns a share of the network
  layer; that part is balanced.
\<close>

section \<open>Linux\<close>

definition unix_Socket_copy :: "int \<Rightarrow> int" where
  "unix_Socket_copy socket = socket"

definition unix_Socket_assign :: "int \<Rightarrow> int \<Rightarrow> int" where
  "unix_Socket_assign this other = other"

definition unix_Socket_destroy :: "(int, 'z) os_scheme \<Rightarrow> int \<Rightarrow> int trace \<Rightarrow> int trace" where
  "unix_Socket_destroy os d tr = snd (unix_Socket_close os d tr)"

definition unix_Socket_Read :: "(int, 'z) os_scheme \<Rightarrow> nat \<Rightarrow> int \<Rightarrow> int trace \<Rightarrow> (int + byte list) \<times> int trace" where
  "unix_Socket_Read os count d tr = unix_Socket_readData os count d tr"

lemma unix_destroy_shuts: "unix_Socket_bool d \<Longrightarrow> unix_Socket_destroy os d tr = tr @ [Shutdown d]"
  by (simp add: unix_Socket_destroy_def unix_Socket_close_def unix_Socket_bool_def)

text \<open>
  A connection that is accepted and assigned to an existing object is lost: the temporary the call
  returned shares the descriptor and shuts the connection down at the end of the statement, and what
  the object held before is not even shut down. The object still converts to true.
\<close>

theorem accepted_connection_lost:
  assumes "unix_Socket_bool server" and "unix_Socket_bool (ret os tr (Accept server))"
  shows "case unix_Socket_waitForNewConnection os server tr of (temporary, tr') \<Rightarrow>
     unix_Socket_bool (unix_Socket_assign client temporary) \<and>
     unix_Socket_destroy os temporary tr' = tr @ [Accept server, Shutdown (unix_Socket_assign client temporary)]"
  using assms by (auto simp: unix_Socket_waitForNewConnection_def unix_Socket_assign_def unix_destroy_shuts sys_def unix_Socket_bool_def)

definition accepting_os :: "int os" where
  "accepting_os = \<lparr>ret = (\<lambda>tr c. 5), bytes_in = (\<lambda>tr c. []), events_in = (\<lambda>tr c. []), ready_in = (\<lambda>tr c. {})\<rparr>"

theorem accepted_connection_lost_witness:
  "unix_Socket_destroy accepting_os 5 [Accept 4] = [Accept 4, Shutdown 5] \<and> unix_Socket_bool (unix_Socket_assign 9 5)"
  using accepted_connection_lost [of 4 accepting_os "[]" 9]
  by (simp add: accepting_os_def unix_Socket_bool_def unix_INVALID_SOCKET_def unix_Socket_waitForNewConnection_def
        unix_Socket_assign_def sys_def)

section \<open>Windows\<close>

text \<open>Every \<open>PrivateImpl\<close> holds a shared pointer to the network layer. \<open>None\<close>: its constructor throws.\<close>

definition windows_Socket_new :: "(SOCKET, 'z) os_scheme \<Rightarrow> nat \<times> SOCKET trace \<Rightarrow> (SOCKET \<times> nat \<times> SOCKET trace) option" where
  "windows_Socket_new os net = map_option (\<lambda>net. (INVALID_SOCKET, net)) (initNetwork os net)"

definition windows_Socket_copy ::
  "(SOCKET, 'z) os_scheme \<Rightarrow> SOCKET \<Rightarrow> nat \<times> SOCKET trace \<Rightarrow> (SOCKET \<times> nat \<times> SOCKET trace) option" where
  "windows_Socket_copy os socket net = map_option (\<lambda>net. (socket, net)) (initNetwork os net)"

definition windows_Socket_assign :: "SOCKET \<Rightarrow> SOCKET \<Rightarrow> SOCKET" where
  "windows_Socket_assign this other = other"

definition windows_Socket_destroy ::
  "(SOCKET, 'z) os_scheme \<Rightarrow> SOCKET \<Rightarrow> nat \<times> SOCKET trace \<Rightarrow> nat \<times> SOCKET trace" where
  "windows_Socket_destroy os d net =
     (case net of (owners, tr) \<Rightarrow> releaseNetwork (owners, snd (windows_Socket_close os d tr)))"

definition windows_Socket_Read ::
  "(SOCKET, 'z) os_scheme \<Rightarrow> nat \<Rightarrow> SOCKET \<Rightarrow> SOCKET trace \<Rightarrow> (int + byte list) \<times> SOCKET trace" where
  "windows_Socket_Read os count d tr =
     (if d \<noteq> INVALID_SOCKET then windows_Socket_readData os count d tr else (Inl (- 1), tr))"

text \<open>Programs over such objects.\<close>

datatype socket_op = Create | Copy nat | Assign_from nat nat | Connect_to nat string u16 | Listen_on nat u16 int | Drop nat

type_synonym socket_state = "SOCKET option list \<times> nat \<times> SOCKET trace"

fun socket_step :: "(SOCKET, 'z) os_scheme \<Rightarrow> socket_op \<Rightarrow> socket_state \<Rightarrow> socket_state option" where
  "socket_step os Create (objs, net) = map_option (\<lambda>(d, net). (objs @ [Some d], net)) (windows_Socket_new os net)"
| "socket_step os (Copy i) (objs, net) = do {
     d \<leftarrow> alive i objs;
     (d, net) \<leftarrow> windows_Socket_copy os d net;
     Some (objs @ [Some d], net)
   }"
| "socket_step os (Assign_from i j) (objs, net) = do {
     this \<leftarrow> alive i objs;
     other \<leftarrow> alive j objs;
     Some (objs[i := Some (windows_Socket_assign this other)], net)
   }"
| "socket_step os (Connect_to i ip port) (objs, owners, tr) = do {
     d \<leftarrow> alive i objs;
     let (ok, d, tr) = windows_Socket_connectToHost os ip port d tr;
     Some (objs[i := Some d], owners, tr)
   }"
| "socket_step os (Listen_on i port n) (objs, owners, tr) = do {
     d \<leftarrow> alive i objs;
     let (ok, d, tr) = windows_Socket_listen os port n d tr;
     Some (objs[i := Some d], owners, tr)
   }"
| "socket_step os (Drop i) (objs, net) = do {
     d \<leftarrow> alive i objs;
     Some (objs[i := None], windows_Socket_destroy os d net)
   }"

fun socket_run :: "(SOCKET, 'z) os_scheme \<Rightarrow> socket_op list \<Rightarrow> socket_state \<Rightarrow> socket_state option" where
  "socket_run os [] st = Some st"
| "socket_run os (p # ps) st = do { st \<leftarrow> socket_step os p st; socket_run os ps st }"

text \<open>Whether the network layer is up after a trace; \<open>None\<close> if a call was made while it was not.\<close>

fun network_after :: "bool \<Rightarrow> SOCKET trace \<Rightarrow> bool option" where
  "network_after up [] = Some up"
| "network_after up (c # cs) =
     (if c = Wsa_startup then (if up then None else network_after True cs)
      else if \<not> up then None
      else network_after (c \<noteq> Wsa_cleanup) cs)"

lemma network_after_append: "network_after up (xs @ ys) = network_after up xs \<bind> (\<lambda>up. network_after up ys)"
  by (induction xs arbitrary: up) auto

definition owners_of :: "SOCKET option list \<Rightarrow> nat" where
  "owners_of objs = length (filter (\<lambda>obj. obj \<noteq> None) objs)"

definition network_inv :: "socket_state \<Rightarrow> bool" where
  "network_inv st \<longleftrightarrow> (case st of (objs, owners, tr) \<Rightarrow>
     owners = owners_of objs \<and> network_after False tr = Some (0 < owners))"

lemma owners_of_update:
  "alive i objs = Some d \<Longrightarrow>
   owners_of (objs[i := new]) = (if new = None then owners_of objs - 1 else owners_of objs) \<and> 0 < owners_of objs"
proof (induction objs arbitrary: i)
  case (Cons x objs)
  then show ?case
    by (cases i) (fastforce simp: owners_of_def alive_def split: if_splits)+
qed (simp add: alive_def)

lemma owners_of_append [simp]: "owners_of (objs @ [Some d]) = Suc (owners_of objs)"
  by (simp add: owners_of_def)

lemma initNetwork_inv:
  assumes "network_inv (objs, net)" "initNetwork os net = Some net'"
  shows "network_inv (objs @ [Some d], net')"
  using assms by (auto simp: network_inv_def initNetwork_def network_after_append split: if_splits prod.splits)

lemma connect_trace:
  "windows_Socket_connectToHost os ip port d tr = (ok, d', tr') \<Longrightarrow>
   \<exists>cs. tr' = tr @ cs \<and> network_after True cs = Some True"
  by (auto simp: windows_Socket_connectToHost_def windows_Socket_close_def sys_def Let_def split: if_splits)

lemma listen_trace:
  "windows_Socket_listen os port n d tr = (ok, d', tr') \<Longrightarrow>
   \<exists>cs. tr' = tr @ cs \<and> network_after True cs = Some True"
  by (auto simp: windows_Socket_listen_def windows_Socket_close_def sys_def Let_def split: if_splits)

lemma destroy_inv:
  assumes "network_inv (objs, net)" "alive i objs = Some d"
  shows "network_inv (objs[i := None], windows_Socket_destroy os d net)"
  using assms owners_of_update [OF assms(2), of None]
  by (cases net) (auto simp: network_inv_def windows_Socket_destroy_def windows_Socket_close_def releaseNetwork_def network_after_append)

lemma extend_inv:
  assumes "network_inv (objs, owners, tr)" "alive i objs = Some d"
    and "\<exists>cs. tr' = tr @ cs \<and> network_after True cs = Some True"
  shows "network_inv (objs[i := Some d'], owners, tr')"
  using assms owners_of_update [OF assms(2), of "Some d'"]
  by (auto simp: network_inv_def network_after_append)

lemma socket_step_inv: "network_inv st \<Longrightarrow> socket_step os p st = Some st' \<Longrightarrow> network_inv st'"
proof (induction os p st rule: socket_step.induct)
  case (4 os i ip port objs owners tr)
  then show ?case by (auto simp: Let_def split: bind_splits prod.splits intro!: extend_inv dest: connect_trace)
next
  case (5 os i port n objs owners tr)
  then show ?case by (auto simp: Let_def split: bind_splits prod.splits intro!: extend_inv dest: listen_trace)
next
  case (3 os i j objs net)
  then show ?case by (cases net) (auto simp: network_inv_def owners_of_update split: bind_splits)
next
  case (6 os i objs net)
  then show ?case by (auto intro: destroy_inv split: bind_splits)
qed (auto simp: windows_Socket_new_def windows_Socket_copy_def intro: initNetwork_inv split: bind_splits)

lemma socket_run_inv: "network_inv st \<Longrightarrow> socket_run os ps st = Some st' \<Longrightarrow> network_inv st'"
  by (induction ps arbitrary: st) (fastforce dest: socket_step_inv split: bind_splits)+

text \<open>
  C38. On Windows no program of constructions, copies, assignments, connections and destructions makes a
  call of the sockets' library while the network layer is down: \<open>WSAStartup\<close> precedes the first call,
  startups and cleanups alternate, and the layer is up exactly as long as a socket object is alive.
\<close>

theorem network_up_while_sockets_live:
  assumes "socket_run os ps ([], 0, []) = Some (objs, owners, tr)"
  shows "network_after False tr = Some (\<exists>d. Some d \<in> set objs)"
proof -
  have "network_inv (objs, owners, tr)"
    using socket_run_inv [OF _ assms] by (simp add: network_inv_def owners_of_def)
  moreover have "0 < owners_of objs \<longleftrightarrow> (\<exists>d. Some d \<in> set objs)"
    by (auto simp: owners_of_def filter_empty_conv)
  ultimately show ?thesis by (simp add: network_inv_def)
qed

definition winsock :: "SOCKET os" where
  "winsock = \<lparr>ret = (\<lambda>tr c. if c = Socket_call then 7 else 0), bytes_in = (\<lambda>tr c. []), events_in = (\<lambda>tr c. []),
     ready_in = (\<lambda>tr c. {})\<rparr>"

lemma winsock_run:
  "socket_run winsock [Create, Connect_to 0 ''h'' 80, Copy 0, Drop 1, Drop 0] ([], 0, []) =
     Some ([None, None], 0, [Wsa_startup, Socket_call, Connect 7 ''h'' 80, Close 7, Close 7, Wsa_cleanup])"
  by (simp add: winsock_def windows_Socket_new_def windows_Socket_copy_def windows_Socket_destroy_def windows_Socket_close_def
      windows_Socket_connectToHost_def initNetwork_def releaseNetwork_def alive_def sys_def INVALID_SOCKET_def)

theorem network_up_while_sockets_live_witness:
  "network_after False [Wsa_startup, Socket_call, Connect 7 ''h'' 80, Close 7, Close 7, Wsa_cleanup] = Some False"
  using network_up_while_sockets_live [OF winsock_run] by simp

text \<open>Copies are not: a descriptor that is copied is closed once for every copy.\<close>

theorem copied_descriptor_closed_again:
  assumes "alive i objs = Some d" "d \<noteq> INVALID_SOCKET" "0 < owners"
  shows "\<exists>net. socket_run os [Copy i, Drop (length objs), Drop i] (objs, owners, tr) =
      Some (objs[i := None] @ [None], net) \<and> count_list (snd net) (Close d) = count_list tr (Close d) + 2"
proof -
  have i: "i < length objs" "objs ! i = Some d" using assms(1) by (auto simp: alive_def split: if_splits)
  then have "alive (length objs) (objs @ [Some d]) = Some d" "alive i (objs @ [None]) = Some d"
    by (auto simp: alive_def nth_append)
  with assms i show ?thesis
    by (auto simp: windows_Socket_copy_def initNetwork_def windows_Socket_destroy_def windows_Socket_close_def
        releaseNetwork_def list_update_append)
qed

end
