(* ===== verification/Tcp_Frames.thy ===== *)
theory Tcp_Frames
  imports Socket_Lifetimes Dat_File
begin

text \<open>
  Frames over a TCP connection: \<open>V4LFrame\<close> writes to a \<open>TcpClient\<close>, which is an \<open>IWriteStream\<close>, and
  reads from a \<open>Socket\<close>, which is an \<open>IReadStream\<close>. The connection is not under src: its law, that
  what is received is the beginning of what was sent, is a premise.
\<close>

section \<open>A socket as a stream to read from\<close>

definition socket_reader :: "(int, 'z) os_scheme \<Rightarrow> int \<Rightarrow> int trace reader" where
  "socket_reader os d n tr = unix_Socket_Read os n d tr"

text \<open>What the calls of a trace received from \<open>d\<close>.\<close>

definition recv_bytes :: "(int, 'z) os_scheme \<Rightarrow> int \<Rightarrow> int trace \<Rightarrow> int os_call \<Rightarrow> byte list" where
  "recv_bytes os d tr c = (case c of Recv_call e n \<Rightarrow> if e = d then take (nat (ret os tr c)) (bytes_in os tr c) else [] | _ \<Rightarrow> [])"

definition to_come :: "(int, 'z) os_scheme \<Rightarrow> int \<Rightarrow> byte list \<Rightarrow> int trace \<Rightarrow> byte list" where
  "to_come os d sent tr = drop (length (gather (recv_bytes os d) [] tr)) sent"

text \<open>
  The documented behaviour of \<open>recv\<close> on a blocking stream socket whose peer sends \<open>sent\<close> and closes:
  at least one byte while there are some, never more than asked for, in order; zero at the end.
\<close>

definition tcp_stream :: "(int, 'z) os_scheme \<Rightarrow> int \<Rightarrow> byte list \<Rightarrow> bool" where
  "tcp_stream os d sent \<longleftrightarrow> unix_Socket_bool d \<and>
     (\<forall>tr n. let r = ret os tr (Recv_call d n); left = to_come os d sent tr
       in 0 \<le> r \<and> nat r \<le> n \<and> nat r \<le> length left \<and>
          take (nat r) (bytes_in os tr (Recv_call d n)) = take (nat r) left \<and>
          (0 < n \<and> left \<noteq> [] \<longrightarrow> 0 < r))"

locale tcp_peer =
  fixes os :: "(int, 'z) os_scheme" and d :: int and sent :: "byte list"
  assumes stream: "tcp_stream os d sent"
begin

lemma recv:
  obtains k where "k \<le> n" "k \<le> length (to_come os d sent tr)" "0 < n \<longrightarrow> to_come os d sent tr \<noteq> [] \<longrightarrow> 0 < k"
    "socket_reader os d n tr = (Inr (take k (to_come os d sent tr)), tr @ [Recv_call d n])"
    "to_come os d sent (tr @ [Recv_call d n]) = drop k (to_come os d sent tr)"
proof
  let ?c = "Recv_call d n" and ?left = "to_come os d sent tr"
  let ?k = "nat (ret os tr ?c)"
  have law: "0 \<le> ret os tr ?c" "?k \<le> n" "?k \<le> length ?left" "take ?k (bytes_in os tr ?c) = take ?k ?left"
    "0 < n \<Longrightarrow> ?left \<noteq> [] \<Longrightarrow> 0 < ret os tr ?c" "d \<noteq> unix_INVALID_SOCKET"
    using stream by (auto simp: tcp_stream_def Let_def unix_Socket_bool_def)
  show "?k \<le> n" "?k \<le> length ?left" by (rule law(2,3))+
  show "0 < n \<longrightarrow> ?left \<noteq> [] \<longrightarrow> 0 < ?k" using law(5) by simp
  show "socket_reader os d n tr = (Inr (take ?k ?left), tr @ [?c])"
    using law(1,4,6) by (simp add: socket_reader_def unix_Socket_Read_def unix_Socket_readData_def sys_def Let_def)
  have "recv_bytes os d tr ?c = take ?k ?left" using law(4) by (simp add: recv_bytes_def)
  then show "to_come os d sent (tr @ [?c]) = drop ?k ?left"
    using law(3) by (simp add: to_come_def gather_append add.commute)
qed

end

text \<open>Such a socket keeps the contract of the readers.\<close>

sublocale tcp_peer \<subseteq> blocking_stream "socket_reader os d" "to_come os d sent"
proof unfold_locales
  fix n :: nat and r r' :: "int trace" and bs e
  obtain k where k: "k \<le> n" "k \<le> length (to_come os d sent r)" "0 < n \<longrightarrow> to_come os d sent r \<noteq> [] \<longrightarrow> 0 < k"
    and rd: "socket_reader os d n r = (Inr (take k (to_come os d sent r)), r @ [Recv_call d n])"
    and av: "to_come os d sent (r @ [Recv_call d n]) = drop k (to_come os d sent r)"
    by (rule recv [where n = n and tr = r])
  show "socket_reader os d n r = (Inr bs, r') \<Longrightarrow> length bs \<le> n \<and> to_come os d sent r = bs @ to_come os d sent r'"
    using rd av k(1,2) by auto
  show "socket_reader os d n r = (Inl e, r') \<Longrightarrow> to_come os d sent r' = to_come os d sent r" using rd by simp
  show "\<exists>bs r'. socket_reader os d n r = (Inr bs, r')" using rd by blast
  show "0 < n \<Longrightarrow> to_come os d sent r \<noteq> [] \<Longrightarrow> socket_reader os d n r = (Inr bs, r') \<Longrightarrow> bs \<noteq> []"
    using rd k(3) by auto
qed

context tcp_peer
begin

lemma receives_frame:
  assumes "can_hold new_char f" "sent = wire_header f @ mDataContainer f @ rest"
  shows "\<exists>h r. DeserializeFrom new_char (socket_reader os d) g [] = Some (Returned True, h, r) \<and>
     same_fields f h \<and> mDataContainer h = mDataContainer f \<and> to_come os d sent r = rest"
proof -
  have "to_come os d sent [] = wire_header f @ mDataContainer f @ rest" by (simp add: to_come_def assms(2))
  from DeserializeFrom_wire [OF assms(1) this] show ?thesis .
qed

lemma waits_for_cut_frame:
  assumes "can_hold new_char f" "sent = take n (wire_header f @ mDataContainer f)"
    and "n < length (wire_header f @ mDataContainer f)"
  shows "DeserializeFrom new_char (socket_reader os d) g [] = None"
proof (cases "n < length (wire_header f)")
  case True
  then have "to_come os d sent [] = take n (wire_header f)" by (simp add: to_come_def assms(2))
  from DeserializeFrom_cut_header [OF assms(1) this True] show ?thesis .
next
  case False
  then have "to_come os d sent [] = wire_header f @ take (n - length (wire_header f)) (mDataContainer f)"
    by (simp add: to_come_def assms(2))
  from DeserializeFrom_cut_body [OF assms(1) this] False assms(3) show ?thesis by simp
qed

end

section \<open>A client as a stream to write to\<close>

text \<open>\<open>TcpClient::Write\<close> as the frame's writer; a call that does not return leaves no state.\<close>

definition client_writer :: "(int, 'z) os_scheme \<Rightarrow> int \<Rightarrow> int trace option writer" where
  "client_writer os d data st =
     (case st of
        None \<Rightarrow> (0, None)
      | Some tr \<Rightarrow> (case TcpClient_Write os data d tr of None \<Rightarrow> (0, None) | Some (n, tr) \<Rightarrow> (n, Some tr)))"

definition whole_sends :: "(int, 'z) os_scheme \<Rightarrow> int \<Rightarrow> bool" where
  "whole_sends os d \<longleftrightarrow> unix_Socket_bool d \<and> (\<forall>tr bs. ret os tr (Send_call d bs) = int (length bs))"

lemma client_writer_whole:
  assumes "whole_sends os d" "length data < 2 ^ 31"
  shows "client_writer os d data (Some tr) = (int (length data), Some (tr @ [Send_call d data]))"
  using writeData_whole [of d data os tr] assms
  by (simp add: client_writer_def TcpClient_Write_def TcpClient_writeData_def whole_sends_def)

lemma serialize_to_client:
  assumes "whole_sends os d" "setName nm g = Some f"
    and bound: "wire_video f + VIDEO_HEADER_LENGTH + length (mDataContainer f) < 2 ^ 31"
  shows "SerializeTo (client_writer os d) f (Some tr) =
    Some (True, f\<lparr>mHeader := wire_header f\<rparr>, Some (tr @ [Send_call d (wire_header f), Send_call d (mDataContainer f)]))"
proof -
  have shape: "mVideoOffset f = wire_video f" "mHeader f = blank_header (wire_name f)"
    using assms(2) by (auto simp: setName_def prepareHeader_blank wire_video_def wire_name_def)
  have "length (wire_header f) < 2 ^ 31" "length (mDataContainer f) < 2 ^ 31" using bound by simp_all
  with client_writer_whole [OF assms(1)] show ?thesis
    by (simp add: SerializeTo_def updateFrame_wire [OF shape] Let_def add.commute)
qed

section \<open>From one end to the other\<close>

text \<open>
  C8. A frame with a name, sent through a client whose kernel takes whole buffers, arrives on any
  connection that keeps the law of a stream, whatever the sizes of the chunks and whatever the
  receiving object held before: the call reports success and the object has the sender's fields and
  data.
\<close>

theorem frame_crosses_connection:
  assumes "whole_sends os d" and "setName nm g = Some f" and "can_hold new_char f"
    and "tcp_stream peer e (wire_header f @ mDataContainer f @ rest)"
  shows "\<exists>f' cs h r. SerializeTo (client_writer os d) f (Some tr) = Some (True, f', Some (tr @ cs)) \<and>
     delivered os tr cs = wire_header f @ mDataContainer f \<and>
     DeserializeFrom new_char (socket_reader peer e) g' [] = Some (Returned True, h, r) \<and>
     same_fields f h \<and> mDataContainer h = mDataContainer f \<and>
     to_come peer e (wire_header f @ mDataContainer f @ rest) r = rest"
proof -
  have "wire_video f + VIDEO_HEADER_LENGTH + length (mDataContainer f) < 2 ^ 31"
    using assms(3) by (simp add: can_hold_def)
  from serialize_to_client [OF assms(1,2) this, of tr] have sent: "SerializeTo (client_writer os d) f (Some tr) =
      Some (True, f\<lparr>mHeader := wire_header f\<rparr>, Some (tr @ [Send_call d (wire_header f), Send_call d (mDataContainer f)]))" .
  moreover have "delivered os tr [Send_call d (wire_header f), Send_call d (mDataContainer f)] =
      wire_header f @ mDataContainer f" using assms(1) by (simp add: whole_sends_def)
  ultimately show ?thesis
    using tcp_peer.receives_frame [OF tcp_peer.intro [OF assms(4)] assms(3) refl, of g'] by blast
qed

text \<open>
  If the peer closes the connection in the middle of a frame, the blocking reader does not return: the
  zero that \<open>recv\<close> reports at the end is not taken for an error, and the loop asks again for ever.
\<close>

theorem closed_connection_never_noticed:
  assumes "can_hold new_char f" and "n < length (wire_header f @ mDataContainer f)"
    and "tcp_stream peer e (take n (wire_header f @ mDataContainer f))"
  shows "DeserializeFrom new_char (socket_reader peer e) g [] = None"
  using tcp_peer.waits_for_cut_frame [OF tcp_peer.intro [OF assms(3)] assms(1) refl assms(2)] .

text \<open>The chunks a peer may deliver: their sizes are any function of the bytes already delivered.\<close>

definition chunk :: "(nat \<Rightarrow> nat) \<Rightarrow> nat \<Rightarrow> nat \<Rightarrow> nat \<Rightarrow> nat" where
  "chunk sz len k n = min n (min (max 1 (sz k)) (len - k))"

definition served :: "(nat \<Rightarrow> nat) \<Rightarrow> nat \<Rightarrow> int \<Rightarrow> int trace \<Rightarrow> nat" where
  "served sz len d tr =
     fold (\<lambda>c k. case c of Recv_call e n \<Rightarrow> if e = d then k + chunk sz len k n else k | _ \<Rightarrow> k) tr 0"

definition serving_os :: "(nat \<Rightarrow> nat) \<Rightarrow> byte list \<Rightarrow> int \<Rightarrow> int os" where
  "serving_os sz sent d =
     \<lparr>ret = (\<lambda>tr c. case c of Recv_call e n \<Rightarrow> int (chunk sz (length sent) (served sz (length sent) d tr) n)
               | Send_call e bs \<Rightarrow> int (length bs) | _ \<Rightarrow> 0),
      bytes_in = (\<lambda>tr c. drop (served sz (length sent) d tr) sent), events_in = (\<lambda>tr c. []), ready_in = (\<lambda>tr c. {})\<rparr>"

lemma served_snoc:
  "served sz len d (tr @ [c]) = (case c of Recv_call e n \<Rightarrow>
     if e = d then served sz len d tr + chunk sz len (served sz len d tr) n else served sz len d tr
   | _ \<Rightarrow> served sz len d tr)"
  by (simp add: served_def split: os_call.splits)

lemma served_received:
  "length (gather (recv_bytes (serving_os sz sent d) d) [] tr) = served sz (length sent) d tr \<and>
   served sz (length sent) d tr \<le> length sent"
proof (induction tr rule: rev_induct)
  case (snoc c tr)
  then show ?case
    by (cases c) (auto simp: gather_append served_snoc recv_bytes_def serving_os_def chunk_def min_def max_def)
qed (simp add: served_def)

interpretation serving: tcp_peer "serving_os sz sent 5" 5 sent for sz sent
proof
  show "tcp_stream (serving_os sz sent 5) 5 sent"
    using served_received [of sz sent 5]
    by (auto simp: tcp_stream_def to_come_def unix_Socket_bool_def unix_INVALID_SOCKET_def serving_os_def chunk_def Let_def)
qed

lemma named_frame:
  obtains f where "setName [65, 66] small_frame = Some f" "can_hold zero_char f"
proof -
  obtain f where f: "setName [65, 66] small_frame = Some f" by (simp add: setName_def prepareHeader_blank)
  then have "wire_video f = wire_video small_frame" "mDataContainer f = mDataContainer small_frame"
    by (auto simp: setName_def prepareHeader_blank wire_video_def wire_name_def small_frame_def V4LFrame_new_def)
  then show ?thesis using that [OF f] can_hold_small by (simp add: can_hold_def)
qed

theorem frame_crosses_connection_witness:
  "\<exists>f f' cs h r. SerializeTo (client_writer (serving_os (\<lambda>_. 3) [] 5) 4) f (Some []) = Some (True, f', Some cs) \<and>
     DeserializeFrom zero_char (socket_reader (serving_os (\<lambda>k. k mod 3) (wire_header f @ mDataContainer f @ [1]) 5) 5)
       V4LFrame_new [] = Some (Returned True, h, r) \<and> same_fields f h"
proof -
  obtain f where f: "setName [65, 66] small_frame = Some f" "can_hold zero_char f" by (rule named_frame)
  have w: "whole_sends (serving_os (\<lambda>_. 3) [] 5) 4"
    by (simp add: whole_sends_def unix_Socket_bool_def unix_INVALID_SOCKET_def serving_os_def)
  from frame_crosses_connection [OF w f serving.stream [where sz = "\<lambda>k. k mod 3"], where tr = "[]" and g' = V4LFrame_new]
  show ?thesis by fastforce
qed

theorem closed_connection_never_noticed_witness:
  "DeserializeFrom zero_char (socket_reader (serving_os (\<lambda>_. 7) (take 20 (wire_header small_frame @ mDataContainer small_frame)) 5) 5)
     V4LFrame_new [] = None"
  by (rule closed_connection_never_noticed [OF can_hold_small _ serving.stream])
     (use wire_video_bounds [of small_frame] in \<open>simp add: layout_consts\<close>)

end
