(* ===== verification/Epoll_Worker.thy ===== *)
theory Epoll_Worker
  imports Os_Calls
begin

text \<open>
  \<open>EPollWorker\<close> (MLCommon/inc/Network/Unix/EPoolWorker.h): an epoll descriptor, \<open>- 1\<close> when there is
  none, and the operations on it. The user data of an event is a descriptor or, where the code stores
  a pointer, the position of the object in its vector; \<open>events_in\<close> gives what \<open>epoll_wait\<close> reports.
\<close>

definition EPOLLIN :: u32 where "EPOLLIN = 0x1"
definition EPOLLHUP :: u32 where "EPOLLHUP = 0x10"
definition EPOLLRDHUP :: u32 where "EPOLLRDHUP = 0x2000"
definition EPOLLET :: u32 where "EPOLLET = 0x80000000"

record EpollItem =
  ei_events :: u32
  ei_fileDescriptor :: int
  ei_ptr :: int

definition EPollWorker_new :: int where
  "EPollWorker_new = - 1"

definition addToEPoll :: "(int, 'z) os_scheme \<Rightarrow> int \<Rightarrow> int \<Rightarrow> u32 \<Rightarrow> int \<Rightarrow> int trace \<Rightarrow> bool \<times> int trace" where
  "addToEPoll os fileDescr data events pollingfd tr =
     (if 0 \<le> pollingfd then
        let (r, tr) = sys os (Epoll_add pollingfd fileDescr events data) tr in (r = 0, tr)
      else (False, tr))"

definition removeFromEPoll :: "(int, 'z) os_scheme \<Rightarrow> int \<Rightarrow> int \<Rightarrow> int trace \<Rightarrow> bool \<times> int trace" where
  "removeFromEPoll os fileDescr pollingfd tr =
     (if 0 \<le> pollingfd then let (r, tr) = sys os (Epoll_del pollingfd fileDescr) tr in (r = 0, tr)
      else (False, tr))"

definition prepareEPoll :: "(int, 'z) os_scheme \<Rightarrow> int \<Rightarrow> int trace \<Rightarrow> bool \<times> int \<times> int trace" where
  "prepareEPoll os pollingfd tr =
     (if pollingfd < 0 then let (pollingfd, tr) = sys os (Epoll_create 1) tr in (0 \<le> pollingfd, pollingfd, tr)
      else (True, pollingfd, tr))"

fun addItems :: "(int, 'z) os_scheme \<Rightarrow> EpollItem list \<Rightarrow> int \<Rightarrow> int trace \<Rightarrow> bool \<times> int trace" where
  "addItems os [] pollingfd tr = (True, tr)"
| "addItems os (item # items) pollingfd tr =
     (case addToEPoll os (ei_fileDescriptor item) (ei_ptr item) (ei_events item) pollingfd tr of
        (True, tr) \<Rightarrow> addItems os items pollingfd tr
      | (False, tr) \<Rightarrow> (False, tr))"

definition prepareEPoll_items :: "(int, 'z) os_scheme \<Rightarrow> EpollItem list \<Rightarrow> int \<Rightarrow> int trace \<Rightarrow> bool \<times> int \<times> int trace" where
  "prepareEPoll_items os items pollingfd tr =
     (if pollingfd < 0 then
        let (pollingfd, tr) = sys os (Epoll_create (int (length items))) tr
        in if pollingfd < 0 then (False, pollingfd, tr)
           else let (ok, tr) = addItems os items pollingfd tr in (ok, pollingfd, tr)
      else (True, pollingfd, tr))"

text \<open>Also what the destructor does; it closes \<open>- 1\<close> when there is nothing to close.\<close>

definition cleanupEPoll :: "(int, 'z) os_scheme \<Rightarrow> int \<Rightarrow> int trace \<Rightarrow> int \<times> int trace" where
  "cleanupEPoll os pollingfd tr = (- 1, snd (sys os (Close pollingfd) tr))"

definition waitEPoll ::
  "(int, 'z) os_scheme \<Rightarrow> nat \<Rightarrow> int \<Rightarrow> (u32 \<times> int \<Rightarrow> 's \<times> int trace \<Rightarrow> 's \<times> int trace) \<Rightarrow> int \<Rightarrow>
     's \<times> int trace \<Rightarrow> 's \<times> int trace" where
  "waitEPoll os maxEvents waitMs handler pollingfd st =
     (case st of (s, tr) \<Rightarrow>
        if 0 \<le> pollingfd then
          let c = Epoll_wait pollingfd maxEvents waitMs; (ready, tr') = sys os c tr
          in if ready < 0 then (s, tr') else fold handler (take (nat ready) (events_in os tr c)) (s, tr')
        else (s, tr))"

lemma addItems_trace:
  "\<exists>k \<le> length items. addItems os items pollingfd tr =
     (k = length items,
      tr @ (if 0 \<le> pollingfd
            then map (\<lambda>i. Epoll_add pollingfd (ei_fileDescriptor i) (ei_events i) (ei_ptr i)) (take (min (k + 1) (length items)) items)
            else []))"
proof (induction items arbitrary: tr)
  case (Cons i items)
  show ?case
  proof (cases "addToEPoll os (ei_fileDescriptor i) (ei_ptr i) (ei_events i) pollingfd tr")
    case (Pair ok tr')
    show ?thesis
    proof (cases ok)
      case False
      with Pair show ?thesis
        by (intro exI [of _ 0]) (auto simp: addToEPoll_def sys_def split: if_splits)
    next
      case True
      with Pair have tr': "0 \<le> pollingfd" "tr' = tr @ [Epoll_add pollingfd (ei_fileDescriptor i) (ei_events i) (ei_ptr i)]"
        by (auto simp: addToEPoll_def sys_def split: if_splits)
      from Cons.IH [of tr'] obtain k where k: "k \<le> length items" "addItems os items pollingfd tr' =
          (k = length items, tr' @ map (\<lambda>i. Epoll_add pollingfd (ei_fileDescriptor i) (ei_events i) (ei_ptr i))
             (take (min (k + 1) (length items)) items))"
        using tr'(1) by auto
      with Pair True tr' show ?thesis by (intro exI [of _ "Suc k"]) simp
    qed
  qed
qed simp

end
