(* ===== verification/Ipc_Connector.thy ===== *)
theory Ipc_Connector
  imports Epoll_Worker Ipc_Socket
begin

text \<open>
  \<open>IpcConnector\<close>: the server side that binds the endpoints and accepts clients, with its Linux
  implementation (IpcConnectorUnix.cpp) and its Windows one (IpcConnectorWindows.cpp, fd\_set\_helpers.h).
\<close>

section \<open>Linux\<close>

text \<open>\<open>getgrnam\<close> gives the group's id, negative when there is no such group.\<close>

definition applyPermissions :: "(int, 'z) os_scheme \<Rightarrow> int \<Rightarrow> string \<Rightarrow> string \<Rightarrow> int trace \<Rightarrow> int trace" where
  "applyPermissions os uid userGroup address tr =
     (let (r, tr) = sys os (Chmod address) tr
      in if r = - 1 then tr
         else let (gid, tr) = sys os (Getgrnam userGroup) tr
           in if gid < 0 then tr else snd (sys os (Chown address gid) tr))"

definition sun_path_size :: nat where
  "sun_path_size = 108"

definition bindSocket_unix ::
  "(int, 'z) os_scheme \<Rightarrow> int \<Rightarrow> string \<Rightarrow> IpcSocketUnix \<Rightarrow> int trace \<Rightarrow> bool \<times> IpcSocketUnix \<times> int trace" where
  "bindSocket_unix os uid userGroup s tr =
     (if socketPath s = [] then (False, s, tr)
      else let (d, tr) = sys os Socket_call tr
        in if d = - 1 then (False, s, tr)
           else let s = setSocketDescriptor d s;
                    (_, tr) = sys os (Unlink (socketPath s)) tr;
                    (b, tr) = sys os (Bind d (take (min (length (socketPath s)) (sun_path_size - 1)) (socketPath s))) tr
             in if b = - 1 then (False, s, tr)
                else let (l, tr) = sys os (Listen d 5) tr
                  in if l = - 1 then (False, s, tr)
                     else (True, s, applyPermissions os uid userGroup (socketPath s) tr))"

definition closeSocket_unix :: "(int, 'z) os_scheme \<Rightarrow> IpcSocketUnix \<Rightarrow> int trace \<Rightarrow> IpcSocketUnix \<times> int trace" where
  "closeSocket_unix os s tr =
     (let (_, tr) = sys os (Close (socketDescriptor s)) tr;
          (_, tr) = sys os (Shutdown (socketDescriptor s)) tr;
          s = setSocketDescriptor (- 1) s;
          tr = fold (\<lambda>d tr. snd (sys os (Shutdown d) (snd (sys os (Close d) tr)))) (getCopyOfClientsDescriptor s) tr
      in (clearClientsDescriptor s, tr))"

text \<open>One event of \<open>loop\<close>: the data is the position of the endpoint whose address was registered.\<close>

definition accept_event_unix ::
  "(int, 'z) os_scheme \<Rightarrow> u32 \<times> int \<Rightarrow> IpcSocketUnix list \<times> int trace \<Rightarrow> IpcSocketUnix list \<times> int trace" where
  "accept_event_unix os event st =
     (case event of (events, i) \<Rightarrow> case st of (sockets, tr) \<Rightarrow>
        if events AND EPOLLIN \<noteq> 0 then
          let (result, tr) = sys os (Accept (socketDescriptor (sockets ! nat i))) tr
          in if 0 \<le> result then (sockets[nat i := addClientDecriptor result (sockets ! nat i)], tr) else (sockets, tr)
        else (sockets, tr))"

definition connector_items :: "IpcSocketUnix list \<Rightarrow> EpollItem list" where
  "connector_items sockets =
     map (\<lambda>i. \<lparr>ei_events = EPOLLIN OR EPOLLRDHUP OR EPOLLET, ei_fileDescriptor = socketDescriptor (sockets ! i), ei_ptr = int i\<rparr>)
       [0..<length sockets]"

record IpcConnector =
  co_sockets :: "IpcSocketUnix list"
  co_isReady :: bool
  co_userGroup :: string
  co_pollingfd :: int
  co_running :: bool

definition IpcConnector_new :: "IpcSocketUnix list \<Rightarrow> IpcConnector" where
  "IpcConnector_new sockets =
     \<lparr>co_sockets = sockets, co_isReady = False, co_userGroup = ''ml'', co_pollingfd = EPollWorker_new, co_running = False\<rparr>"

definition setUserGroup :: "string \<Rightarrow> IpcConnector \<Rightarrow> IpcConnector" where
  "setUserGroup grp c = c\<lparr>co_userGroup := grp\<rparr>"

text \<open>The loop over the endpoints: how many could be bound, and the endpoints after it.\<close>

fun bind_all ::
  "(int, 'z) os_scheme \<Rightarrow> int \<Rightarrow> string \<Rightarrow> IpcSocketUnix list \<Rightarrow> int trace \<Rightarrow> string option \<times> IpcSocketUnix list \<times> int trace" where
  "bind_all os uid grp [] tr = (None, [], tr)"
| "bind_all os uid grp (s # ss) tr =
     (case bindSocket_unix os uid grp s tr of
        (False, s, tr) \<Rightarrow> (Some (socketUri s), s # ss, tr)
      | (True, s, tr) \<Rightarrow> (case bind_all os uid grp ss tr of (e, ss, tr) \<Rightarrow> (e, s # ss, tr)))"

text \<open>The exception of \<open>Start\<close>, or none; the object and the calls made are those at the throw.\<close>

definition IpcConnector_Start ::
  "(int, 'z) os_scheme \<Rightarrow> int \<Rightarrow> IpcConnector \<Rightarrow> int trace \<Rightarrow> ipc_error option \<times> IpcConnector \<times> int trace" where
  "IpcConnector_Start os uid c tr =
     (if co_isReady c then (None, c, tr)
      else case bind_all os uid (co_userGroup c) (co_sockets c) tr of
        (Some uri, ss, tr) \<Rightarrow> (Some (LogicErr (''Can'' @ CHR 0x27 # ''t bind to '' @ uri)), c\<lparr>co_sockets := ss\<rparr>, tr)
      | (None, ss, tr) \<Rightarrow>
          (let c = c\<lparr>co_sockets := ss\<rparr>; (ok, fd, tr) = prepareEPoll_items os (connector_items ss) (co_pollingfd c) tr
           in if \<not> ok then
                let (fd, tr) = cleanupEPoll os fd tr
                in (Some (LogicErr (''Can'' @ CHR 0x27 # ''t create epoll'')), c\<lparr>co_pollingfd := fd\<rparr>, tr)
              else (None, c\<lparr>co_pollingfd := fd, co_running := True, co_isReady := True\<rparr>, tr)))"

fun close_all :: "(int, 'z) os_scheme \<Rightarrow> IpcSocketUnix list \<Rightarrow> int trace \<Rightarrow> IpcSocketUnix list \<times> int trace" where
  "close_all os [] tr = ([], tr)"
| "close_all os (s # ss) tr =
     (case closeSocket_unix os s tr of (s, tr) \<Rightarrow> case close_all os ss tr of (ss, tr) \<Rightarrow> (s # ss, tr))"

definition IpcConnector_Stop :: "(int, 'z) os_scheme \<Rightarrow> IpcConnector \<Rightarrow> int trace \<Rightarrow> IpcConnector \<times> int trace" where
  "IpcConnector_Stop os c tr =
     (if \<not> co_isReady c then (c, tr)
      else let (ss, tr) = close_all os (co_sockets c) tr; (fd, tr) = cleanupEPoll os (co_pollingfd c) tr
        in (c\<lparr>co_sockets := ss, co_pollingfd := fd, co_running := False, co_isReady := False\<rparr>, tr))"

definition IpcConnector_Loop :: "(int, 'z) os_scheme \<Rightarrow> IpcConnector \<Rightarrow> int trace \<Rightarrow> IpcConnector \<times> int trace" where
  "IpcConnector_Loop os c tr =
     (case waitEPoll os 10 1000 (accept_event_unix os) (co_pollingfd c) (co_sockets c, tr) of
        (ss, tr) \<Rightarrow> (c\<lparr>co_sockets := ss\<rparr>, tr))"

section \<open>Windows\<close>

text \<open>\<open>FD_SET\<close> of Winsock keeps at most 64 different descriptors and ignores the others.\<close>

definition FdSet_addSocket :: "SOCKET \<Rightarrow> SOCKET list \<Rightarrow> SOCKET list" where
  "FdSet_addSocket s fds = (if s \<in> set fds \<or> 64 \<le> length fds then fds else fds @ [s])"

definition FdSet_new :: "SOCKET list \<Rightarrow> SOCKET list" where
  "FdSet_new ss = fold FdSet_addSocket ss []"

text \<open>Seconds and microseconds of a waiting time in milliseconds.\<close>

definition SelectWrapper_timeout :: "int \<Rightarrow> int \<times> int" where
  "SelectWrapper_timeout waitTime = (waitTime div 1000, (waitTime - waitTime div 1000 * 1000) * 1000)"

text \<open>The set to read from; the consumer gets the test whether a descriptor is ready.\<close>

definition SelectWrapper_call ::
  "(SOCKET, 'z) os_scheme \<Rightarrow> SOCKET list \<Rightarrow> int \<Rightarrow> ((SOCKET \<Rightarrow> bool) \<Rightarrow> 's \<times> SOCKET trace \<Rightarrow> 's \<times> SOCKET trace) \<Rightarrow>
     's \<times> SOCKET trace \<Rightarrow> 's \<times> SOCKET trace" where
  "SelectWrapper_call os rSet waitTime consumer st =
     (case st of (s, tr) \<Rightarrow>
        let c = Select rSet waitTime; (count, tr') = sys os c tr
        in if 0 < count then consumer (\<lambda>d. d \<in> set rSet \<and> d \<in> ready_in os tr c) (s, tr') else (s, tr'))"

definition setSocketToNonBlock :: "(SOCKET, 'z) os_scheme \<Rightarrow> SOCKET \<Rightarrow> SOCKET trace \<Rightarrow> bool \<times> SOCKET trace" where
  "setSocketToNonBlock os d tr = (let (r, tr) = sys os (Set_nonblock d) tr in (r = 0, tr))"

definition closeSocket_windows ::
  "(SOCKET, 'z) os_scheme \<Rightarrow> IpcSocketWindows \<Rightarrow> SOCKET trace \<Rightarrow> IpcSocketWindows \<times> SOCKET trace" where
  "closeSocket_windows os s tr =
     (let (_, tr) = sys os (Close (socketDescriptor s)) tr;
          s = setSocketDescriptor INVALID_SOCKET s;
          tr = fold (\<lambda>d tr. snd (sys os (Close d) tr)) (getCopyOfClientsDescriptor s) tr
      in (clearClientsDescriptor s, tr))"

text \<open>\<open>gethostbyname\<close> fails with a negative result; the address bound is the one it found.\<close>

definition bindSocket_windows ::
  "(SOCKET, 'z) os_scheme \<Rightarrow> IpcSocketWindows \<Rightarrow> SOCKET trace \<Rightarrow> bool \<times> IpcSocketWindows \<times> SOCKET trace" where
  "bindSocket_windows os s tr =
     (if w_host s = [] \<or> w_port s = 0 then (False, s, tr)
      else let (r, tr) = sys os Socket_call tr; s = setSocketDescriptor (word_of_int r) s; d = socketDescriptor s
        in if d = INVALID_SOCKET then (False, s, tr)
           else let (h, tr) = sys os (Resolve (w_host s)) tr
             in if h < 0 then (False, closeSocket_windows os s tr)
                else let (b, tr) = sys os (Bind_port d (w_port s)) tr
                  in if b \<noteq> 0 then (False, closeSocket_windows os s tr)
                     else let (l, tr) = sys os (Listen d 1) tr
                       in if l \<noteq> 0 then (False, closeSocket_windows os s tr)
                          else let (ok, tr) = setSocketToNonBlock os d tr
                            in if \<not> ok then (False, closeSocket_windows os s tr) else (True, s, tr))"

definition collectSocket ::
  "(SOCKET, 'z) os_scheme \<Rightarrow> SOCKET \<Rightarrow> IpcSocketWindows \<times> SOCKET trace \<Rightarrow> IpcSocketWindows \<times> SOCKET trace" where
  "collectSocket os d st =
     (case st of (s, tr) \<Rightarrow>
        if d = INVALID_SOCKET then (s, tr)
        else let (ok, tr) = setSocketToNonBlock os d tr
          in if ok then (addClientDecriptor d s, tr) else (s, snd (sys os (Close d) tr)))"

fun acceptIncommingSockets ::
  "(SOCKET, 'z) os_scheme \<Rightarrow> (SOCKET \<Rightarrow> bool) \<Rightarrow> IpcSocketWindows list \<times> SOCKET trace \<Rightarrow> IpcSocketWindows list \<times> SOCKET trace" where
  "acceptIncommingSockets os matcher ([], tr) = ([], tr)"
| "acceptIncommingSockets os matcher (s # ss, tr) =
     (let (s, tr) = (if matcher (socketDescriptor s)
                     then let (r, tr) = sys os (Accept (socketDescriptor s)) tr in collectSocket os (word_of_int r) (s, tr)
                     else (s, tr));
          (ss, tr) = acceptIncommingSockets os matcher (ss, tr)
      in (s # ss, tr))"

definition connector_loop_windows ::
  "(SOCKET, 'z) os_scheme \<Rightarrow> IpcSocketWindows list \<times> SOCKET trace \<Rightarrow> IpcSocketWindows list \<times> SOCKET trace" where
  "connector_loop_windows os st =
     SelectWrapper_call os (FdSet_new (map socketDescriptor (fst st))) 500 (acceptIncommingSockets os) st"

definition extractHost :: "string \<Rightarrow> string" where
  "extractHost address =
     (case str_find address '':'' of None \<Rightarrow> [] | Some pos \<Rightarrow> substr address 0 pos)"

section \<open>Starting and stopping\<close>

lemma fold_close: "fold (\<lambda>d tr. tr @ [Close d, Shutdown d]) ds tr =
    tr @ concat (map (\<lambda>d. [Close d, Shutdown d]) ds)"
  by (induction ds arbitrary: tr) auto

lemma closeSocket_unix_eq:
  "closeSocket_unix os s tr = (s\<lparr>socketDescriptor := - 1, clientsDescriptor := []\<rparr>,
     tr @ concat (map (\<lambda>d. [Close d, Shutdown d]) (socketDescriptor s # clientsDescriptor s)))"
  by (simp add: closeSocket_unix_def Let_def case_prod_unfold fold_close setSocketDescriptor_def
      getCopyOfClientsDescriptor_def clearClientsDescriptor_def)

lemma close_all_eq:
  "close_all os ss tr = (map (\<lambda>s. s\<lparr>socketDescriptor := - 1, clientsDescriptor := []\<rparr>) ss,
     tr @ concat (map (\<lambda>s. concat (map (\<lambda>d. [Close d, Shutdown d]) (socketDescriptor s # clientsDescriptor s))) ss))"
  by (induction ss arbitrary: tr) (simp_all add: closeSocket_unix_eq)

text \<open>
  \<open>Stop\<close> releases everything a started connector holds: it closes every endpoint and every client
  registered with one, then the epoll descriptor, each exactly once and in this order, and leaves no
  descriptor behind in the endpoints; the \<open>shutdown\<close> of each descriptor comes after its \<open>close\<close>.
\<close>

theorem connector_stop_releases:
  assumes "co_isReady c"
  shows "IpcConnector_Stop os c tr =
    (c\<lparr>co_sockets := map (\<lambda>s. s\<lparr>socketDescriptor := - 1, clientsDescriptor := []\<rparr>) (co_sockets c),
       co_pollingfd := - 1, co_running := False, co_isReady := False\<rparr>,
     tr @ concat (map (\<lambda>s. concat (map (\<lambda>d. [Close d, Shutdown d]) (socketDescriptor s # clientsDescriptor s))) (co_sockets c)) @
       [Close (co_pollingfd c)])"
  using assms by (simp add: IpcConnector_Stop_def close_all_eq cleanupEPoll_def sys_def)

definition quiet_os :: "int os" where
  "quiet_os = \<lparr>ret = (\<lambda>tr c. case c of Socket_call \<Rightarrow> 3 | Epoll_create n \<Rightarrow> 4 | Accept d \<Rightarrow> 5 | Listen d n \<Rightarrow> - 1 | _ \<Rightarrow> 0),
     bytes_in = (\<lambda>tr c. []), events_in = (\<lambda>tr c. []), ready_in = (\<lambda>tr c. {})\<rparr>"

definition plain_socket :: IpcSocketUnix where
  "plain_socket = \<lparr>socketDescriptor = 3, clientsDescriptor = [5, 6], socketUri = ''unix:/a'', socketName = ''a'', socketPath = ''/a''\<rparr>"

theorem connector_stop_releases_witness:
  "snd (IpcConnector_Stop quiet_os ((IpcConnector_new [plain_socket])\<lparr>co_isReady := True, co_pollingfd := 4\<rparr>) []) =
     [Close 3, Shutdown 3, Close 5, Shutdown 5, Close 6, Shutdown 6, Close 4]"
  by (subst connector_stop_releases) (simp_all add: IpcConnector_new_def plain_socket_def)

text \<open>The calls that starting a connector makes, as long as it succeeds.\<close>

fun starting_call :: "'d os_call \<Rightarrow> bool" where
  "starting_call (Close d) = False"
| "starting_call (Write_call d data) = False"
| "starting_call c = True"

lemma starting_calls: "\<exists>cs. tr' = tr @ cs \<and> (\<forall>c \<in> set cs. starting_call c) \<Longrightarrow> \<exists>cs. tr' = tr @ cs \<and> (\<forall>d. Close d \<notin> set cs)"
  by fastforce

lemma applyPermissions_trace: "\<exists>cs. applyPermissions os uid grp a tr = tr @ cs \<and> (\<forall>c \<in> set cs. starting_call c)"
  by (auto simp: applyPermissions_def sys_def Let_def)

lemma bindSocket_unix_trace:
  "bindSocket_unix os uid grp s tr = (ok, s', tr') \<Longrightarrow> \<exists>cs. tr' = tr @ cs \<and> (\<forall>c \<in> set cs. starting_call c)"
proof -
  assume b: "bindSocket_unix os uid grp s tr = (ok, s', tr')"
  obtain addr d where "tr' \<in> {tr, tr @ [Socket_call], tr @ [Socket_call, Unlink (socketPath s), Bind d addr],
      tr @ [Socket_call, Unlink (socketPath s), Bind d addr, Listen d 5],
      applyPermissions os uid grp (socketPath s) (tr @ [Socket_call, Unlink (socketPath s), Bind d addr, Listen d 5])}"
    using b by (simp add: bindSocket_unix_def sys_def Let_def setSocketDescriptor_def split: if_splits) blast+
  moreover obtain cs where "applyPermissions os uid grp (socketPath s) (tr @ [Socket_call, Unlink (socketPath s), Bind d addr, Listen d 5]) =
      (tr @ [Socket_call, Unlink (socketPath s), Bind d addr, Listen d 5]) @ cs" "\<forall>c \<in> set cs. starting_call c"
    using applyPermissions_trace by blast
  ultimately show ?thesis by auto
qed

lemma bind_all_trace:
  "bind_all os uid grp ss tr = (e, ss', tr') \<Longrightarrow> \<exists>cs. tr' = tr @ cs \<and> (\<forall>c \<in> set cs. starting_call c)"
proof (induction ss arbitrary: tr e ss' tr')
  case (Cons s ss)
  obtain ok s1 tr1 where b: "bindSocket_unix os uid grp s tr = (ok, s1, tr1)" by (cases "bindSocket_unix os uid grp s tr")
  from bindSocket_unix_trace [OF this] obtain cs where cs: "tr1 = tr @ cs" "\<forall>c \<in> set cs. starting_call c" by blast
  obtain e2 ss2 tr2 where r: "bind_all os uid grp ss tr1 = (e2, ss2, tr2)" by (cases "bind_all os uid grp ss tr1")
  from Cons.IH [OF this] obtain ds where "tr2 = tr1 @ ds" "\<forall>c \<in> set ds. starting_call c" by blast
  with Cons.prems b cs r show ?case by (cases ok) auto
qed simp

lemma prepare_items_trace:
  assumes "prepareEPoll_items os items pollingfd tr = (ok, fd, tr')"
  shows "\<exists>cs. tr' = tr @ cs \<and> (\<forall>c \<in> set cs. starting_call c)"
  using assms addItems_trace [where os = os and items = items and tr = "tr @ [Epoll_create (int (length items))]"
      and pollingfd = "ret os tr (Epoll_create (int (length items)))"]
  by (auto simp: prepareEPoll_items_def sys_def split: if_splits prod.splits)

lemma start_trace:
  assumes "IpcConnector_Start os uid c tr = (None, c', tr')"
  shows "\<exists>cs. tr' = tr @ cs \<and> (\<forall>c \<in> set cs. starting_call c)"
proof (cases "co_isReady c")
  case True
  then show ?thesis using assms by (simp add: IpcConnector_Start_def)
next
  case False
  obtain b ss tr1 where b: "bind_all os uid (co_userGroup c) (co_sockets c) tr = (b, ss, tr1)"
    by (cases "bind_all os uid (co_userGroup c) (co_sockets c) tr")
  obtain ok fd tr2 where p: "prepareEPoll_items os (connector_items ss) (co_pollingfd c) tr1 = (ok, fd, tr2)"
    by (cases "prepareEPoll_items os (connector_items ss) (co_pollingfd c) tr1")
  have "tr' = tr2" using assms False b p by (auto simp: IpcConnector_Start_def Let_def split: option.splits if_splits prod.splits)
  with bind_all_trace [OF b] prepare_items_trace [OF p] show ?thesis by (metis append.assoc Un_iff set_append)
qed



end
