(* ===== verification/Ipc_Receiver.thy ===== *)
theory Ipc_Receiver
  imports Ipc_Connector "HOL-Library.Product_Lexorder" "HOL-Library.List_Lexorder" "HOL-Library.Char_ord"
begin

text \<open>
  \<open>IpcReceiver\<close>: the thread that reads what the clients of all endpoints send, with its Linux
  implementation (IpcReceiverUnix.cpp) and its Windows one (IpcReceiverWindows.cpp). What
  \<open>dispatchData\<close> is called with is recorded.
\<close>

section \<open>Linux\<close>

text \<open>\<open>std::set\<close> of pairs: ascending lists; an iteration and \<open>set_difference\<close> follow the order.\<close>

type_synonym DescriptorsCollection = "(int \<times> string) list"

definition set_insert :: "'a :: linorder \<Rightarrow> 'a list \<Rightarrow> 'a list" where
  "set_insert x xs = (if x \<in> set xs then xs else insort x xs)"

definition set_difference :: "'a list \<Rightarrow> 'a list \<Rightarrow> 'a list" where
  "set_difference xs ys = filter (\<lambda>x. x \<notin> set ys) xs"

definition collectDescriptors :: "IpcSocketUnix list \<Rightarrow> DescriptorsCollection" where
  "collectDescriptors sockets =
     fold (\<lambda>s result. fold (\<lambda>fd result. set_insert (fd, socketName s) result) (getCopyOfClientsDescriptor s) result) sockets []"

definition findParent :: "IpcSocketUnix list \<Rightarrow> int \<Rightarrow> nat option" where
  "findParent sockets d = find_idx (\<lambda>s. d \<in> set (getCopyOfClientsDescriptor s)) sockets"

definition purgeSockets :: "int list \<Rightarrow> IpcSocketUnix list \<Rightarrow> IpcSocketUnix list" where
  "purgeSockets ds sockets =
     fold (\<lambda>d sockets. case findParent sockets d of
         None \<Rightarrow> sockets
       | Some i \<Rightarrow> sockets[i := removeClientDescriptor d (sockets ! i)]) ds sockets"

record IpcReceiver =
  managedDescriptors :: DescriptorsCollection
  re_pollingfd :: int

definition IpcReceiver_new :: "(int, 'z) os_scheme \<Rightarrow> int trace \<Rightarrow> IpcReceiver \<times> int trace" where
  "IpcReceiver_new os tr =
     (case prepareEPoll os EPollWorker_new tr of (_, fd, tr) \<Rightarrow> (\<lparr>managedDescriptors = [], re_pollingfd = fd\<rparr>, tr))"

definition ValidateEPoll :: "(int, 'z) os_scheme \<Rightarrow> IpcSocketUnix list \<Rightarrow> IpcReceiver \<Rightarrow> int trace \<Rightarrow> IpcReceiver \<times> int trace" where
  "ValidateEPoll os sockets r tr =
     (let allCurrent = collectDescriptors sockets;
          tr = fold (\<lambda>p tr. snd (removeFromEPoll os (fst p) (re_pollingfd r) tr))
                 (set_difference (managedDescriptors r) allCurrent) tr;
          tr = fold (\<lambda>p tr. snd (addToEPoll os (fst p) (fst p) (EPOLLRDHUP OR EPOLLHUP OR EPOLLIN OR EPOLLET) (re_pollingfd r) tr))
                 (set_difference allCurrent (managedDescriptors r)) tr
      in (r\<lparr>managedDescriptors := allCurrent\<rparr>, tr))"

type_synonym dispatched = "(byte list \<times> string \<times> int) list"

text \<open>One event: the descriptors to drop and what was dispatched, oldest first.\<close>

definition read_event ::
  "(int, 'z) os_scheme \<Rightarrow> nat \<Rightarrow> DescriptorsCollection \<Rightarrow> u32 \<times> int \<Rightarrow> (int list \<times> dispatched) \<times> int trace \<Rightarrow>
     (int list \<times> dispatched) \<times> int trace" where
  "read_event os capacity managed event st =
     (case event of (events, fd) \<Rightarrow> case st of ((drops, out), tr) \<Rightarrow>
        let (out, tr) =
              (if events AND EPOLLIN \<noteq> 0 then
                 let c = Read_call fd capacity; (readBytes, tr') = sys os c tr
                 in if 0 < readBytes then
                      (case find_idx (\<lambda>p. fst p = fd) managed of
                         None \<Rightarrow> (out, tr')
                       | Some i \<Rightarrow> (out @ [(take (nat readBytes) (bytes_in os tr c), snd (managed ! i), fd)], tr'))
                    else (out, tr')
               else (out, tr))
        in ((if events AND EPOLLHUP \<noteq> 0 \<or> events AND EPOLLRDHUP \<noteq> 0 then drops @ [fd] else drops, out), tr))"

definition IpcReceiver_loop ::
  "(int, 'z) os_scheme \<Rightarrow> nat \<Rightarrow> IpcReceiver \<times> IpcSocketUnix list \<Rightarrow> int trace \<Rightarrow>
     (IpcReceiver \<times> IpcSocketUnix list) \<times> dispatched \<times> int trace" where
  "IpcReceiver_loop os capacity st tr =
     (case st of (r, sockets) \<Rightarrow>
        let (r, tr) = ValidateEPoll os sockets r tr;
            ((drops, out), tr) = waitEPoll os 10 100 (read_event os capacity (managedDescriptors r)) (re_pollingfd r) (([], []), tr)
        in ((r, if drops = [] then sockets else purgeSockets drops sockets), out, tr))"

section \<open>Windows\<close>

definition collectSockets :: "IpcSocketWindows list \<Rightarrow> (SOCKET \<times> string) list" where
  "collectSockets sockets = concat (map (\<lambda>s. map (\<lambda>fd. (fd, w_socketName s)) (getCopyOfClientsDescriptor s)) sockets)"

text \<open>
  What \<open>std::partition\<close> puts before its result: the first element that fails the test is exchanged
  with the last one that passes, and so on inwards, as the library does it for random access iterators.
\<close>

function partition_front :: "('a \<Rightarrow> bool) \<Rightarrow> 'a list \<Rightarrow> 'a list" where
  "partition_front P [] = []"
| "partition_front P (x # xs) =
     (if P x then x # partition_front P xs
      else case dropWhile (\<lambda>y. \<not> P y) (rev xs) of
          [] \<Rightarrow> []
        | y # ys \<Rightarrow> y # partition_front P (rev ys))"
  by pat_completeness auto
termination
proof (relation "measure (\<lambda>(P, xs). length xs)")
  fix P :: "'a \<Rightarrow> bool" and x xs y ys
  assume "dropWhile (\<lambda>y. \<not> P y) (rev xs) = y # ys"
  then have "length (y # ys) \<le> length xs" using length_dropWhile_le [of "\<lambda>y. \<not> P y" "rev xs"] by simp
  then show "((P, rev ys), (P, x # xs)) \<in> measure (\<lambda>(P, xs). length xs)" by simp
qed simp_all

fun readFromSockets ::
  "(SOCKET, 'z) os_scheme \<Rightarrow> nat \<Rightarrow> (SOCKET \<times> string) list \<Rightarrow> (byte list \<times> string \<times> int) list \<times> SOCKET trace \<Rightarrow>
     (byte list \<times> string \<times> int) list \<times> SOCKET trace" where
  "readFromSockets os capacity [] st = st"
| "readFromSockets os capacity ((d, name) # ps) (out, tr) =
     (let c = Recv_call d capacity; (readBytes, tr') = sys os c tr
      in readFromSockets os capacity ps
           (if 0 < readBytes
            then (out @ [(take (nat readBytes) (bytes_in os tr c), name, sint (ucast d :: u32))], tr')
            else (out, tr')))"

definition receiver_loop_windows ::
  "(SOCKET, 'z) os_scheme \<Rightarrow> nat \<Rightarrow> IpcSocketWindows list \<Rightarrow> SOCKET trace \<Rightarrow>
     (byte list \<times> string \<times> int) list \<times> SOCKET trace" where
  "receiver_loop_windows os capacity sockets tr =
     (let allSockets = collectSockets sockets
      in if allSockets = [] then ([], tr)
         else SelectWrapper_call os (FdSet_new (map fst allSockets)) 500
           (\<lambda>matcher. readFromSockets os capacity (partition_front (\<lambda>p. matcher (fst p)) allSockets)) ([], tr))"

section \<open>What the receiver manages and dispatches\<close>

lemma set_set_insert [simp]: "set (set_insert x xs) = insert x (set xs)"
  by (auto simp: set_insert_def set_insort_key)

lemma set_collect_fds:
  "set (fold (\<lambda>fd result. set_insert (fd, nm) result) ds acc) = (\<lambda>fd. (fd, nm)) ` set ds \<union> set acc"
  by (induction ds arbitrary: acc) auto

lemma set_collectDescriptors:
  "set (collectDescriptors sockets) = {(fd, socketName s) | fd s. s \<in> set sockets \<and> fd \<in> set (clientsDescriptor s)}"
proof -
  have "set (fold (\<lambda>s result. fold (\<lambda>fd result. set_insert (fd, socketName s) result) (clientsDescriptor s) result) sockets acc)
      = {(fd, socketName s) | fd s. s \<in> set sockets \<and> fd \<in> set (clientsDescriptor s)} \<union> set acc" for acc
    by (induction sockets arbitrary: acc) (auto simp: set_collect_fds)
  from this [of "[]"] show ?thesis by (simp add: collectDescriptors_def getCopyOfClientsDescriptor_def)
qed

lemma set_partition_front: "set (partition_front P xs) = {x \<in> set xs. P x}"
proof (induction P xs rule: partition_front.induct)
  case (2 P x xs)
  show ?case
  proof (cases "P x")
    case True
    with 2(1) show ?thesis by auto
  next
    case False
    show ?thesis
    proof (cases "dropWhile (\<lambda>y. \<not> P y) (rev xs)")
      case Nil
      then have "\<forall>y \<in> set xs. \<not> P y" by (simp add: dropWhile_eq_Nil_conv)
      then have "{y \<in> set (x # xs). P y} = {}" using False by auto
      moreover have "partition_front P (x # xs) = []" by (simp add: False Nil)
      ultimately show ?thesis by simp
    next
      case (Cons y ys)
      have "P y" using hd_dropWhile [of "\<lambda>y. \<not> P y" "rev xs"] Cons by simp
      have sp: "rev xs = takeWhile (\<lambda>y. \<not> P y) (rev xs) @ y # ys"
        using takeWhile_dropWhile_id [of "\<lambda>y. \<not> P y" "rev xs"] Cons by simp
      have "set xs = set (takeWhile (\<lambda>y. \<not> P y) (rev xs)) \<union> insert y (set ys)"
        using arg_cong [OF sp, of set] by simp
      moreover have "\<forall>z \<in> set (takeWhile (\<lambda>y. \<not> P y) (rev xs)). \<not> P z" by (auto dest: set_takeWhileD)
      ultimately show ?thesis using 2(2) [OF False Cons] False \<open>P y\<close> Cons by auto
    qed
  qed
qed simp

lemma read_event_out:
  assumes "read_event os capacity managed ev ((drops, out), tr) = ((drops', out'), tr')"
  shows "\<exists>new cs. out' = out @ new \<and> (\<forall>(data, name, fd) \<in> set new. (fd, name) \<in> set managed) \<and>
    tr' = tr @ cs \<and> (\<forall>d. Close d \<notin> set cs)"
  using assms
  by (auto simp: read_event_def sys_def Let_def split: prod.splits if_splits option.splits dest!: find_idx_Some)
     (metis nth_mem prod.collapse)?

lemma fold_read_event:
  "fold (read_event os capacity managed) evs ((drops, out), tr) = ((drops', out'), tr') \<Longrightarrow>
   \<exists>new cs. out' = out @ new \<and> (\<forall>(data, name, fd) \<in> set new. (fd, name) \<in> set managed) \<and>
    tr' = tr @ cs \<and> (\<forall>d. Close d \<notin> set cs)"
proof (induction evs arbitrary: drops out tr)
  case (Cons ev evs)
  obtain drops1 out1 tr1 where one: "read_event os capacity managed ev ((drops, out), tr) = ((drops1, out1), tr1)"
    by (cases "read_event os capacity managed ev ((drops, out), tr)") auto
  from read_event_out [OF one] obtain new cs where
    n: "out1 = out @ new" "\<forall>(data, name, fd) \<in> set new. (fd, name) \<in> set managed" "tr1 = tr @ cs" "\<forall>d. Close d \<notin> set cs" by blast
  from Cons.IH [of drops1 out1 tr1] Cons.prems one obtain new2 cs2 where
    "out' = out1 @ new2" "\<forall>(data, name, fd) \<in> set new2. (fd, name) \<in> set managed" "tr' = tr1 @ cs2" "\<forall>d. Close d \<notin> set cs2"
    by auto
  with n show ?case by (intro exI [of _ "new @ new2"] exI [of _ "cs @ cs2"]) auto
qed simp

lemma fold_calls:
  assumes "\<And>p tr. \<exists>cs. f p tr = tr @ cs \<and> (\<forall>c \<in> set cs. Q c)"
  shows "\<exists>cs. fold f ps tr = tr @ cs \<and> (\<forall>c \<in> set cs. Q c)"
proof (induction ps arbitrary: tr)
  case (Cons p ps)
  obtain cs where "f p tr = tr @ cs" "\<forall>c \<in> set cs. Q c" using assms by blast
  moreover from Cons.IH [of "f p tr"] obtain ds where "fold f ps (f p tr) = f p tr @ ds" "\<forall>c \<in> set ds. Q c" by blast
  ultimately show ?case by (intro exI [of _ "cs @ ds"]) auto
qed simp

text \<open>Bringing the epoll descriptor up to date only adds and deletes descriptors there.\<close>

fun epoll_ctl_call :: "'d os_call \<Rightarrow> bool" where
  "epoll_ctl_call (Epoll_add efd fd events data) = True"
| "epoll_ctl_call (Epoll_del efd fd) = True"
| "epoll_ctl_call c = False"

lemma ValidateEPoll_trace:
  assumes "ValidateEPoll os sockets r tr = (r', tr')"
  shows "r' = r\<lparr>managedDescriptors := collectDescriptors sockets\<rparr>" "\<exists>cs. tr' = tr @ cs \<and> (\<forall>c \<in> set cs. epoll_ctl_call c)"
proof -
  let ?del = "\<lambda>p tr. snd (removeFromEPoll os (fst p) (re_pollingfd r) tr)"
  let ?add = "\<lambda>p tr. snd (addToEPoll os (fst p) (fst p) (EPOLLRDHUP OR EPOLLHUP OR EPOLLIN OR EPOLLET) (re_pollingfd r) tr)"
  let ?old = "set_difference (managedDescriptors r) (collectDescriptors sockets)"
  let ?new = "set_difference (collectDescriptors sockets) (managedDescriptors r)"
  have "\<exists>cs. ?del p tr = tr @ cs \<and> (\<forall>c \<in> set cs. epoll_ctl_call c)" for p :: "int \<times> string" and tr
    by (auto simp: removeFromEPoll_def sys_def)
  from fold_calls [where f = ?del, OF this] obtain cs where cs: "fold ?del ?old tr = tr @ cs" "\<forall>c \<in> set cs. epoll_ctl_call c" by blast
  have "\<exists>cs. ?add p tr = tr @ cs \<and> (\<forall>c \<in> set cs. epoll_ctl_call c)" for p :: "int \<times> string" and tr
    by (auto simp: addToEPoll_def sys_def)
  from fold_calls [where f = ?add, OF this] obtain ds where ds: "fold ?add ?new (tr @ cs) = (tr @ cs) @ ds" "\<forall>c \<in> set ds. epoll_ctl_call c" by blast
  show "r' = r\<lparr>managedDescriptors := collectDescriptors sockets\<rparr>"
    using assms by (simp add: ValidateEPoll_def Let_def)
  show "\<exists>cs. tr' = tr @ cs \<and> (\<forall>c \<in> set cs. epoll_ctl_call c)"
    using assms cs ds by (intro exI [of _ "cs @ ds"]) (auto simp: ValidateEPoll_def Let_def)
qed

lemma ValidateEPoll_no_close:
  "ValidateEPoll os sockets r tr = (r', tr') \<Longrightarrow> \<exists>cs. tr' = tr @ cs \<and> (\<forall>d. Close d \<notin> set cs)"
  using ValidateEPoll_trace(2) [of os sockets r tr r' tr'] by fastforce


definition one_message :: "int os" where
  "one_message = \<lparr>ret = (\<lambda>tr c. case c of Epoll_wait d n ms \<Rightarrow> 1 | Read_call d n \<Rightarrow> 2 | _ \<Rightarrow> 0),
     bytes_in = (\<lambda>tr c. [7, 8]), events_in = (\<lambda>tr c. [(EPOLLIN OR EPOLLHUP, 5)]), ready_in = (\<lambda>tr c. {})\<rparr>"


section \<open>The set of managed descriptors\<close>

lemma set_insert_wf: "sorted xs \<Longrightarrow> distinct xs \<Longrightarrow> sorted (set_insert x xs) \<and> distinct (set_insert x xs)"
  by (simp add: set_insert_def sorted_insort distinct_insort)

lemma collectDescriptors_wf: "sorted (collectDescriptors sockets) \<and> distinct (collectDescriptors sockets)"
proof -
  have inner: "sorted (fold (\<lambda>fd result. set_insert (fd, nm) result) ds acc) \<and> distinct (fold (\<lambda>fd result. set_insert (fd, nm) result) ds acc)"
    if "sorted acc \<and> distinct acc" for nm :: string and ds :: "int list" and acc
    using that by (induction ds arbitrary: acc) (simp_all add: set_insert_wf)
  have "sorted acc \<and> distinct acc \<Longrightarrow>
      sorted (fold (\<lambda>s result. fold (\<lambda>fd result. set_insert (fd, socketName s) result) (getCopyOfClientsDescriptor s) result) sockets acc) \<and>
      distinct (fold (\<lambda>s result. fold (\<lambda>fd result. set_insert (fd, socketName s) result) (getCopyOfClientsDescriptor s) result) sockets acc)" for acc
    by (induction sockets arbitrary: acc) (simp_all add: inner)
  from this [of "[]"] show ?thesis by (simp add: collectDescriptors_def)
qed

lemma IpcReceiver_loop_managed:
  "IpcReceiver_loop os capacity (r, sockets) tr = ((r', sockets'), out, tr') \<Longrightarrow> managedDescriptors r' = collectDescriptors sockets"
  by (auto simp: IpcReceiver_loop_def split: prod.splits dest: ValidateEPoll_trace(1))

text \<open>Rounds of the receiver's thread, with what the registry of clients holds at the start of each.\<close>

fun receiver_rounds :: "(int, 'z) os_scheme \<Rightarrow> nat \<Rightarrow> IpcSocketUnix list list \<Rightarrow> IpcReceiver \<times> int trace \<Rightarrow> IpcReceiver \<times> int trace" where
  "receiver_rounds os capacity [] st = st"
| "receiver_rounds os capacity (sockets # rounds) (r, tr) =
     (case IpcReceiver_loop os capacity (r, sockets) tr of ((r, _), _, tr) \<Rightarrow> receiver_rounds os capacity rounds (r, tr))"

lemma receiver_rounds_wf:
  "sorted (managedDescriptors r) \<and> distinct (managedDescriptors r) \<Longrightarrow>
   sorted (managedDescriptors (fst (receiver_rounds os capacity rounds (r, tr)))) \<and>
   distinct (managedDescriptors (fst (receiver_rounds os capacity rounds (r, tr))))"
proof (induction rounds arbitrary: r tr)
  case (Cons sockets rounds)
  obtain r1 s1 out tr1 where l: "IpcReceiver_loop os capacity (r, sockets) tr = ((r1, s1), out, tr1)" by (metis prod_cases4 surj_pair)
  show ?case using Cons.IH [of r1 tr1] collectDescriptors_wf by (simp add: l IpcReceiver_loop_managed [OF l])
qed simp


end
