(* ===== verification/Ipc_Channel.thy ===== *)
theory Ipc_Channel
  imports Ipc_Transmitter Ipc_Receiver
begin

text \<open>
  A transmitter and a receiver joined by a stream socket. The kernel between them is not modelled: the
  law of a stream is a hypothesis, that the bytes read on one end are the beginning of the bytes
  written on the other. What is proved is which bytes of the packets that were queued reach the
  listener, and how many reads an edge-triggered descriptor allows.
\<close>

section \<open>Bytes and events in a trace\<close>

text \<open>What the kernel took from a write to \<open>d\<close>, and what it gave to a read from \<open>d\<close>.\<close>

definition taken :: "(int, 'z) os_scheme \<Rightarrow> int \<Rightarrow> int trace \<Rightarrow> int os_call \<Rightarrow> byte list" where
  "taken os d tr c = (case c of Write_call e bs \<Rightarrow> if e = d then take (nat (ret os tr c)) bs else [] | _ \<Rightarrow> [])"

definition given :: "(int, 'z) os_scheme \<Rightarrow> int \<Rightarrow> int trace \<Rightarrow> int os_call \<Rightarrow> byte list" where
  "given os d tr c = (case c of Read_call e n \<Rightarrow> if e = d then take (nat (ret os tr c)) (bytes_in os tr c) else [] | _ \<Rightarrow> [])"

text \<open>The events of a wait that say that \<open>d\<close> can be read.\<close>

definition readable :: "int \<Rightarrow> u32 \<times> int \<Rightarrow> bool" where
  "readable d e \<longleftrightarrow> snd e = d \<and> fst e AND EPOLLIN \<noteq> 0"

definition edges :: "(int, 'z) os_scheme \<Rightarrow> int \<Rightarrow> int trace \<Rightarrow> int os_call \<Rightarrow> (u32 \<times> int) list" where
  "edges os d tr c =
     (case c of Epoll_wait e n ms \<Rightarrow> filter (readable d) (take (nat (ret os tr c)) (events_in os tr c)) | _ \<Rightarrow> [])"

section \<open>Sending\<close>

text \<open>A kernel that takes every packet for \<open>d\<close> whole.\<close>

definition takes_all :: "(int, 'z) os_scheme \<Rightarrow> int \<Rightarrow> bool" where
  "takes_all os d \<longleftrightarrow> (\<forall>tr data. ret os tr (Write_call d data) = int (length data))"

lemma taken_writes:
  "takes_all os d \<Longrightarrow> distinct cs \<Longrightarrow>
   gather (taken os d) tr (map (\<lambda>c. Write_call c data) cs) = (if d \<in> set cs then data else [])"
  by (induction cs arbitrary: tr) (auto simp: taken_def takes_all_def)

lemma innerSend_registered:
  assumes "takes_all os d" "distinct (clientsDescriptor s)"
    and "innerSendToClients_unix os data (s, tr) = (s', tr')"
  shows "distinct (clientsDescriptor s') \<and> (d \<in> set (clientsDescriptor s') \<longleftrightarrow> d \<in> set (clientsDescriptor s)) \<and>
    (\<exists>cs. tr' = tr @ cs \<and> gather (taken os d) tr cs = (if d \<in> set (clientsDescriptor s) then data else []))"
proof -
  let ?cs = "clientsDescriptor s" and ?w = "map (\<lambda>c. Write_call c data) (clientsDescriptor s)"
  have s': "s' = fold removeClientDescriptor (map fst (filter (\<lambda>(c, r). r < 0) (zip ?cs (calls os ?w tr)))) s" "tr' = tr @ ?w"
    using assms(3) by (simp_all add: innerSendToClients_unix_def innerSend_loop_unix_eq getCopyOfClientsDescriptor_def)
  have ok: "(d, r) \<in> set (zip cs (calls os (map (\<lambda>c. Write_call c data) cs) t)) \<Longrightarrow> \<not> r < 0" for r cs t
    using assms(1) by (induction cs arbitrary: t) (auto simp: takes_all_def)
  show ?thesis
    using taken_writes [OF assms(1,2), of tr data] ok [of _ ?cs tr]
    by (auto simp: s' ipc_clients.remove_fold [OF assms(2)] assms(2))
qed

text \<open>The packets of the queue that go to the endpoints where \<open>d\<close> is registered.\<close>

definition packets_for :: "int \<Rightarrow> IpcSocketUnix list \<Rightarrow> (nat \<times> byte list) list \<Rightarrow> byte list list" where
  "packets_for d sockets queue = map snd (filter (\<lambda>p. d \<in> set (clientsDescriptor (sockets ! fst p))) queue)"

lemma sendToClients_taken:
  assumes "takes_all os d"
  shows "sendToClients os t (sockets, tr) = (t', sockets', tr') \<Longrightarrow>
    \<forall>s \<in> set sockets. distinct (clientsDescriptor s) \<Longrightarrow> \<forall>p \<in> set (listOfDataToSend t). fst p < length sockets \<Longrightarrow>
    listOfDataToSend t' = [] \<and>
    (\<exists>cs. tr' = tr @ cs \<and> gather (taken os d) tr cs = concat (packets_for d sockets (listOfDataToSend t)))"
proof (induction "listOfDataToSend t" arbitrary: t sockets tr)
  case Nil
  then show ?case by (simp add: sendToClients.simps [of os t] getHead_def packets_for_def)
next
  case (Cons p ps)
  obtain i data where p: "p = (i, data)" by (cases p)
  let ?t = "t\<lparr>listOfDataToSend := ps\<rparr>"
  obtain s1 tr1 where one: "innerSendToClients_unix os data (sockets ! i, tr) = (s1, tr1)" by fastforce
  have i: "i < length sockets" using Cons.prems(3) by (simp add: Cons.hyps(2) [symmetric] p)
  with Cons.prems(2) have "distinct (clientsDescriptor (sockets ! i))" by simp
  from innerSend_registered [OF assms this one] obtain cs where
    s1: "distinct (clientsDescriptor s1)" "d \<in> set (clientsDescriptor s1) \<longleftrightarrow> d \<in> set (clientsDescriptor (sockets ! i))"
    and cs: "tr1 = tr @ cs" "gather (taken os d) tr cs = (if d \<in> set (clientsDescriptor (sockets ! i)) then data else [])" by blast
  let ?ss = "sockets[i := s1]"
  have step: "sendToClients os ?t (?ss, tr1) = (t', sockets', tr')"
    using Cons.prems(1) one by (subst (asm) sendToClients.simps) (simp add: getHead_def Cons.hyps(2) [symmetric] p)
  have "\<forall>s \<in> set ?ss. distinct (clientsDescriptor s)" using Cons.prems(2) s1(1) by (auto dest!: set_update_subset_insert [THEN subsetD])
  moreover have "\<forall>q \<in> set (listOfDataToSend ?t). fst q < length ?ss"
    using Cons.prems(3) by (simp add: Cons.hyps(2) [symmetric])
  ultimately obtain ds where ds: "listOfDataToSend t' = []" "tr' = tr1 @ ds"
    "gather (taken os d) tr1 ds = concat (packets_for d ?ss ps)"
    using Cons.hyps(1) [of ?t, OF _ step] by auto
  have "d \<in> set (clientsDescriptor (?ss ! a)) \<longleftrightarrow> d \<in> set (clientsDescriptor (sockets ! a))" for a
    using i s1(2) by (cases "a = i") simp_all
  then have "packets_for d ?ss ps = packets_for d sockets ps" by (simp add: packets_for_def)
  with ds cs show ?case
    by (simp add: Cons.hyps(2) [symmetric] p packets_for_def)
qed

section \<open>Receiving\<close>

text \<open>What the listener was given from \<open>d\<close>.\<close>

definition payload :: "int \<Rightarrow> dispatched \<Rightarrow> byte list" where
  "payload d out = concat (map fst (filter (\<lambda>p. snd (snd p) = d) out))"

lemma payload_simps [simp]:
  "payload d [] = []" "payload d (out @ out') = payload d out @ payload d out'"
  "payload d (p # out) = (if snd (snd p) = d then fst p else []) @ payload d out"
  by (simp_all add: payload_def)

lemma read_event_payload:
  assumes "read_event os capacity managed e ((drops, out), tr) = ((drops', out'), tr')" "d \<in> fst ` set managed"
  shows "\<exists>cs. tr' = tr @ cs \<and> payload d out' = payload d out @ gather (given os d) tr cs \<and>
    gather (edges os d) tr cs = [] \<and>
    (bounded_reads os \<longrightarrow> length (gather (given os d) tr cs) \<le> capacity * length (filter (readable d) [e]))"
proof -
  obtain events fd where e: "e = (events, fd)" by (cases e)
  let ?c = "Read_call fd capacity"
  have b: "bounded_reads os \<Longrightarrow> ret os tr ?c \<le> int capacity" by (simp add: bounded_reads_def)
  show ?thesis
  proof (cases "events AND EPOLLIN = 0")
    case True
    with assms(1) show ?thesis by (auto simp: read_event_def e)
  next
    case False
    have "fd = d \<Longrightarrow> find_idx (\<lambda>p. fst p = fd) managed \<noteq> None" using assms(2) by auto
    then have "fd = d \<Longrightarrow> \<exists>i. find_idx (\<lambda>p. fst p = fd) managed = Some i" by blast
    with assms(1) False b show ?thesis
      by (intro exI [of _ "[?c]"])
         (auto simp: read_event_def e sys_def Let_def given_def edges_def readable_def simp del: find_idx_None
           split: if_splits option.splits)
  qed
qed

lemma read_events_payload:
  assumes "d \<in> fst ` set managed"
  shows "fold (read_event os capacity managed) evs ((drops, out), tr) = ((drops', out'), tr') \<Longrightarrow>
    \<exists>cs. tr' = tr @ cs \<and> payload d out' = payload d out @ gather (given os d) tr cs \<and>
      gather (edges os d) tr cs = [] \<and>
      (bounded_reads os \<longrightarrow> length (gather (given os d) tr cs) \<le> capacity * length (filter (readable d) evs))"
proof (induction evs arbitrary: drops out tr)
  case (Cons e evs)
  obtain drops1 out1 tr1 where one: "read_event os capacity managed e ((drops, out), tr) = ((drops1, out1), tr1)"
    by (metis surj_pair)
  from read_event_payload [OF one assms] obtain cs where cs: "tr1 = tr @ cs" "payload d out1 = payload d out @ gather (given os d) tr cs"
    "gather (edges os d) tr cs = []"
    "bounded_reads os \<longrightarrow> length (gather (given os d) tr cs) \<le> capacity * length (filter (readable d) [e])" by blast
  from Cons.IH [of drops1 out1 tr1] Cons.prems one obtain ds where ds: "tr' = tr1 @ ds"
    "payload d out' = payload d out1 @ gather (given os d) tr1 ds" "gather (edges os d) tr1 ds = []"
    "bounded_reads os \<longrightarrow> length (gather (given os d) tr1 ds) \<le> capacity * length (filter (readable d) evs)" by auto
  have "bounded_reads os \<longrightarrow> length (gather (given os d) tr (cs @ ds)) \<le> capacity * length (filter (readable d) (e # evs))"
    using cs(1,4) ds(4) by (auto simp: algebra_simps split: if_splits)
  with cs ds show ?case by (intro exI [of _ "cs @ ds"]) simp
qed simp

lemma gather_epoll_ctl: "\<forall>c \<in> set cs. epoll_ctl_call c \<Longrightarrow> gather (given os d) tr cs = [] \<and> gather (edges os d) tr cs = []"
  by (intro conjI gather_none) (auto simp: given_def edges_def split: os_call.split)

definition registered :: "int \<Rightarrow> IpcSocketUnix list \<Rightarrow> bool" where
  "registered d sockets \<longleftrightarrow> (\<exists>s \<in> set sockets. d \<in> set (clientsDescriptor s))"

lemma round_payload:
  assumes "IpcReceiver_loop os capacity (r, sockets) tr = ((r', sockets'), out, tr')" "registered d sockets"
  shows "\<exists>cs. tr' = tr @ cs \<and> payload d out = gather (given os d) tr cs \<and>
    (bounded_reads os \<longrightarrow> length (payload d out) \<le> capacity * length (gather (edges os d) tr cs))"
proof -
  let ?all = "collectDescriptors sockets"
  have d: "d \<in> fst ` set ?all" using assms(2) by (force simp: registered_def set_collectDescriptors)
  obtain r1 tr1 where v: "ValidateEPoll os sockets r tr = (r1, tr1)" by fastforce
  obtain cs1 where cs1: "tr1 = tr @ cs1" "\<forall>c \<in> set cs1. epoll_ctl_call c" using ValidateEPoll_trace(2) [OF v] by blast
  note none = gather_epoll_ctl [OF cs1(2), of os d tr]
  let ?c = "Epoll_wait (re_pollingfd r1) 10 100"
  let ?evs = "take (nat (ret os tr1 ?c)) (events_in os tr1 ?c)"
  obtain drops where w: "waitEPoll os 10 100 (read_event os capacity ?all) (re_pollingfd r1) (([], []), tr1) = ((drops, out), tr')"
    using assms(1) v ValidateEPoll_trace(1) [OF v] by (auto simp: IpcReceiver_loop_def split: prod.splits)
  show ?thesis
  proof (cases "0 \<le> re_pollingfd r1 \<and> 0 \<le> ret os tr1 ?c")
    case False
    with w have "out = []" "tr' = tr1 \<or> tr' = tr1 @ [?c]" by (auto simp: waitEPoll_def sys_def Let_def split: if_splits)
    with none cs1 show ?thesis by (auto simp: given_def intro: exI [of _ cs1] exI [of _ "cs1 @ [?c]"])
  next
    case True
    with w have "fold (read_event os capacity ?all) ?evs (([], []), tr1 @ [?c]) = ((drops, out), tr')"
      by (simp add: waitEPoll_def sys_def Let_def not_less [symmetric])
    from read_events_payload [OF d this] obtain cs where cs: "tr' = tr1 @ ?c # cs" "payload d out = gather (given os d) (tr1 @ [?c]) cs"
      "gather (edges os d) (tr1 @ [?c]) cs = []"
      "bounded_reads os \<longrightarrow> length (gather (given os d) (tr1 @ [?c]) cs) \<le> capacity * length (filter (readable d) ?evs)" by auto
    have "given os d tr1 ?c = []" "edges os d tr1 ?c = filter (readable d) ?evs" by (simp_all add: given_def edges_def)
    with cs none cs1(1) show ?thesis by (intro exI [of _ "cs1 @ ?c # cs"]) simp
  qed
qed

text \<open>Rounds of the receiver's thread, with the registries each of them finds, and all that is dispatched.\<close>

fun receiver_run :: "(int, 'z) os_scheme \<Rightarrow> nat \<Rightarrow> IpcSocketUnix list list \<Rightarrow> IpcReceiver \<Rightarrow> int trace \<Rightarrow> dispatched \<times> int trace" where
  "receiver_run os capacity [] r tr = ([], tr)"
| "receiver_run os capacity (sockets # rounds) r tr =
     (case IpcReceiver_loop os capacity (r, sockets) tr of ((r, _), out, tr) \<Rightarrow>
        case receiver_run os capacity rounds r tr of (out', tr) \<Rightarrow> (out @ out', tr))"

lemma run_payload:
  "receiver_run os capacity rounds r tr = (out, tr') \<Longrightarrow> \<forall>sockets \<in> set rounds. registered d sockets \<Longrightarrow>
   \<exists>cs. tr' = tr @ cs \<and> payload d out = gather (given os d) tr cs \<and>
     (bounded_reads os \<longrightarrow> length (payload d out) \<le> capacity * length (gather (edges os d) tr cs))"
proof (induction rounds arbitrary: r tr out)
  case (Cons sockets rounds)
  obtain r1 s1 out1 tr1 where one: "IpcReceiver_loop os capacity (r, sockets) tr = ((r1, s1), out1, tr1)" by (metis surj_pair)
  obtain out2 where two: "receiver_run os capacity rounds r1 tr1 = (out2, tr')" "out = out1 @ out2"
    using Cons.prems(1) one by (auto split: prod.splits)
  from round_payload [OF one, of d] Cons.prems(2) obtain cs where cs: "tr1 = tr @ cs" "payload d out1 = gather (given os d) tr cs"
    "bounded_reads os \<longrightarrow> length (payload d out1) \<le> capacity * length (gather (edges os d) tr cs)" by auto
  from Cons.IH [OF two(1)] Cons.prems(2) obtain ds where ds: "tr' = tr1 @ ds" "payload d out2 = gather (given os d) tr1 ds"
    "bounded_reads os \<longrightarrow> length (payload d out2) \<le> capacity * length (gather (edges os d) tr1 ds)" by auto
  from cs ds two(2) show ?case by (intro exI [of _ "cs @ ds"]) (auto simp: algebra_simps)
qed simp

section \<open>End to end\<close>



text \<open>A packet of three bytes for a receiver with a buffer of two: one event, and two silent rounds.\<close>

definition one_edge :: "int os" where
  "one_edge = \<lparr>ret = (\<lambda>tr c. case c of Epoll_wait d n ms \<Rightarrow> (if \<exists>c \<in> set tr. c = Read_call 5 2 then 0 else 1) | Read_call d n \<Rightarrow> int n | _ \<Rightarrow> 0),
     bytes_in = (\<lambda>tr c. [7, 8, 9]), events_in = (\<lambda>tr c. [(EPOLLIN, 5)]), ready_in = (\<lambda>tr c. {})\<rparr>"

definition client_five :: IpcSocketUnix where
  "client_five = \<lparr>socketDescriptor = 3, clientsDescriptor = [5], socketUri = ''unix:/b'', socketName = ''b'', socketPath = ''/b''\<rparr>"

definition three_rounds :: "dispatched \<times> int trace" where
  "three_rounds = receiver_run one_edge 2 [[client_five], [client_five], [client_five]] \<lparr>managedDescriptors = [], re_pollingfd = 4\<rparr> []"

lemma three_rounds:
  "three_rounds = ([([7, 8], ''b'', 5)], [Epoll_add 4 5 (EPOLLRDHUP OR EPOLLHUP OR EPOLLIN OR EPOLLET) 5,
     Epoll_wait 4 10 100, Read_call 5 2, Epoll_wait 4 10 100, Epoll_wait 4 10 100])"
  by code_simp

lemma one_packet_sent:
  "sendToClients full_writes \<lparr>listOfDataToSend = [(0, [7, 8, 9])]\<rparr> (one_socket, []) =
     (\<lparr>listOfDataToSend = []\<rparr>, one_socket, [Write_call 4 [7, 8, 9]])"
  by code_simp

lemma end_to_end_example:
  "takes_all full_writes 4" "\<forall>s \<in> set one_socket. distinct (clientsDescriptor s)"
  "\<forall>p \<in> set (listOfDataToSend \<lparr>listOfDataToSend = [(0, [7, 8, 9 :: byte])]\<rparr>). fst p < length one_socket"
  "\<forall>regs \<in> set [[client_five], [client_five], [client_five]]. registered 5 regs"
  "gather (taken full_writes 4) [] [Write_call 4 [7, 8, 9]] = gather (given one_edge 5) [] (snd three_rounds) @ [9]"
  "bounded_reads one_edge" "length (gather (edges one_edge 5) [] (snd three_rounds)) = 1"
  "packets_for 4 one_socket [(0, [7, 8, 9])] = [[7, 8, 9]]"
  by (simp_all add: takes_all_def full_writes_def one_socket_def registered_def client_five_def taken_def given_def
      three_rounds one_edge_def bounded_reads_def edges_def readable_def packets_for_def EPOLLIN_def)



end
