(* ===== verification/Connector_Session.thy ===== *)
theory Connector_Session
  imports Ipc_Connector "HOL-Library.Multiset"
begin

text \<open>
  A whole session of a connector: \<open>Start\<close>, any number of turns of its loop, \<open>Stop\<close>. The locale
  \<open>closing_session\<close> says what of the three operations makes that every descriptor that was obtained is
  closed by the end, and closed once; here it is interpreted for the connector on Linux.
\<close>

section \<open>Sessions\<close>

text \<open>Turns of a worker's loop, and sessions of a connector one after the other, each with its number of turns.\<close>

fun loop_turns :: "('c \<Rightarrow> 't \<Rightarrow> 'c \<times> 't) \<Rightarrow> nat \<Rightarrow> 'c \<Rightarrow> 't \<Rightarrow> 'c \<times> 't" where
  "loop_turns turn 0 c tr = (c, tr)"
| "loop_turns turn (Suc n) c tr = (case turn c tr of (c, tr) \<Rightarrow> loop_turns turn n c tr)"

fun sessions ::
  "('c \<Rightarrow> 't \<Rightarrow> 'e option \<times> 'c \<times> 't) \<Rightarrow> ('c \<Rightarrow> 't \<Rightarrow> 'c \<times> 't) \<Rightarrow> ('c \<Rightarrow> 't \<Rightarrow> 'c \<times> 't) \<Rightarrow> nat list \<Rightarrow> 'c \<Rightarrow> 't \<Rightarrow>
     ('c \<times> 't) option" where
  "sessions start turn stop [] c tr = Some (c, tr)"
| "sessions start turn stop (n # ns) c tr =
     (case start c tr of
        (Some e, c, tr) \<Rightarrow> None
      | (None, c, tr) \<Rightarrow>
          (case loop_turns turn n c tr of (c, tr) \<Rightarrow> case stop c tr of (c, tr) \<Rightarrow> sessions start turn stop ns c tr))"

text \<open>
  \<open>held\<close> is what the connector's objects hold, \<open>startable\<close> a connector as it is before \<open>Start\<close>, \<open>started\<close>
  one after it; \<open>got\<close> and \<open>gone\<close> are the descriptors obtained and closed so far.
\<close>

locale closing_session =
  fixes start :: "'c \<Rightarrow> 't \<Rightarrow> 'e option \<times> 'c \<times> 't"
    and turn :: "'c \<Rightarrow> 't \<Rightarrow> 'c \<times> 't"
    and stop :: "'c \<Rightarrow> 't \<Rightarrow> 'c \<times> 't"
    and held :: "'c \<Rightarrow> 'd multiset"
    and got gone :: "'t \<Rightarrow> 'd multiset"
    and startable started :: "'c \<Rightarrow> bool"
  assumes start_law: "startable c \<Longrightarrow> start c tr = (None, c', tr') \<Longrightarrow>
      got tr' = got tr + held c' \<and> gone tr' = gone tr \<and> started c'"
    and turn_law: "started c \<Longrightarrow> got tr = held c + gone tr \<Longrightarrow> turn c tr = (c', tr') \<Longrightarrow>
      got tr' = held c' + gone tr' \<and> started c'"
    and stop_law: "started c \<Longrightarrow> got tr = held c + gone tr \<Longrightarrow> stop c tr = (c', tr') \<Longrightarrow>
      got tr' = gone tr' \<and> startable c'"
begin

lemma turns_keep:
  "started c \<Longrightarrow> got tr = held c + gone tr \<Longrightarrow> loop_turns turn n c tr = (c', tr') \<Longrightarrow> got tr' = held c' + gone tr' \<and> started c'"
proof (induction n arbitrary: c tr)
  case (Suc n)
  obtain c1 tr1 where t: "turn c tr = (c1, tr1)" by (cases "turn c tr")
  show ?case using Suc.IH [of c1 tr1] Suc.prems(3) t turn_law [OF Suc.prems(1,2) t] by simp
qed simp

lemma sessions_close:
  "startable c \<Longrightarrow> got tr = gone tr \<Longrightarrow> sessions start turn stop ns c tr = Some (c', tr') \<Longrightarrow> got tr' = gone tr' \<and> startable c'"
proof (induction ns arbitrary: c tr)
  case (Cons n ns)
  obtain e c1 tr1 where st: "start c tr = (e, c1, tr1)" by (cases "start c tr")
  obtain c2 tr2 where tn: "loop_turns turn n c1 tr1 = (c2, tr2)" by (cases "loop_turns turn n c1 tr1")
  obtain c3 tr3 where sp: "stop c2 tr2 = (c3, tr3)" by (cases "stop c2 tr2")
  have e: "e = None" and rest: "sessions start turn stop ns c3 tr3 = Some (c', tr')"
    using Cons.prems(3) st tn sp by (auto split: option.splits)
  from start_law [OF Cons.prems(1) st [unfolded e]] Cons.prems(2) have "started c1" "got tr1 = held c1 + gone tr1" by simp_all
  from turns_keep [OF this tn] have "started c2" "got tr2 = held c2 + gone tr2" by simp_all
  from stop_law [OF this sp] have "startable c3" "got tr3 = gone tr3" by simp_all
  from Cons.IH [OF this rest] show ?case .
qed simp

end

section \<open>Descriptors in a trace\<close>

definition obtained :: "(int, 'z) os_scheme \<Rightarrow> int trace \<Rightarrow> int os_call \<Rightarrow> int list" where
  "obtained os tr c =
     (let r = ret os tr c in
      case c of
        Socket_call \<Rightarrow> if r = - 1 then [] else [r]
      | Accept d \<Rightarrow> if 0 \<le> r then [r] else []
      | Epoll_create n \<Rightarrow> if 0 \<le> r then [r] else []
      | _ \<Rightarrow> [])"

definition released :: "'d trace \<Rightarrow> 'd os_call \<Rightarrow> 'd list" where
  "released tr c = (case c of Close d \<Rightarrow> [d] | _ \<Rightarrow> [])"

definition fds_obtained :: "(int, 'z) os_scheme \<Rightarrow> int trace \<Rightarrow> int multiset" where
  "fds_obtained os tr = mset (gather (obtained os) [] tr)"

definition fds_closed :: "'d trace \<Rightarrow> 'd multiset" where
  "fds_closed tr = mset (gather released [] tr)"

lemma fds_simps [simp]:
  "fds_obtained os [] = {#}" "fds_closed [] = {#}"
  "fds_obtained os (tr @ [c]) = fds_obtained os tr + mset (obtained os tr c)"
  "fds_closed (tr' @ [c']) = fds_closed tr' + mset (released tr' c')"
  by (simp_all add: fds_obtained_def fds_closed_def)

text \<open>Calls that neither obtain nor close a descriptor.\<close>

fun neutral :: "int os_call \<Rightarrow> bool" where
  "neutral Socket_call = False"
| "neutral (Accept d) = False"
| "neutral (Epoll_create n) = False"
| "neutral (Close d) = False"
| "neutral c = True"

lemma neutral_call: "neutral c \<Longrightarrow> obtained os tr c = [] \<and> released tr c = []"
  by (cases c) (simp_all add: obtained_def released_def)

lemma neutral_calls:
  "\<forall>c \<in> set cs. neutral c \<Longrightarrow> fds_obtained os (tr @ cs) = fds_obtained os tr \<and> fds_closed (tr @ cs) = fds_closed tr"
  by (auto simp: fds_obtained_def fds_closed_def neutral_call intro!: gather_none)

section \<open>The operations\<close>

text \<open>What a kernel keeps: \<open>accept\<close> returns a descriptor that is not open.\<close>

definition fresh_accepts :: "(int, 'z) os_scheme \<Rightarrow> bool" where
  "fresh_accepts os \<longleftrightarrow> (\<forall>tr d. ret os tr (Accept d) \<notin># fds_obtained os tr - fds_closed tr)"

text \<open>The events carry the data that was registered: positions of endpoints.\<close>

definition registered_events :: "(int, 'z) os_scheme \<Rightarrow> nat \<Rightarrow> bool" where
  "registered_events os n \<longleftrightarrow> (\<forall>tr c. \<forall>e \<in> set (events_in os tr c). 0 \<le> snd e \<and> nat (snd e) < n)"

definition endpoint_fds :: "IpcSocketUnix list \<Rightarrow> int multiset" where
  "endpoint_fds ss = (\<Sum>s \<leftarrow> ss. mset (socketDescriptor s # clientsDescriptor s))"

lemma endpoint_fds_simps [simp]:
  "endpoint_fds [] = {#}" "endpoint_fds (s # ss) = {#socketDescriptor s#} + mset (clientsDescriptor s) + endpoint_fds ss"
  by (simp_all add: endpoint_fds_def)

lemma endpoint_fds_add:
  "i < length ss \<Longrightarrow> d \<notin> set (clientsDescriptor (ss ! i)) \<Longrightarrow>
   endpoint_fds (ss[i := addClientDecriptor d (ss ! i)]) = add_mset d (endpoint_fds ss)"
proof (induction ss arbitrary: i)
  case (Cons s ss)
  then show ?case by (cases i) (auto simp: addClientDecriptor_def)
qed simp

lemma endpoint_fds_client: "i < length ss \<Longrightarrow> d \<in> set (clientsDescriptor (ss ! i)) \<Longrightarrow> d \<in># endpoint_fds ss"
proof (induction ss arbitrary: i)
  case (Cons s ss)
  then show ?case by (cases i) auto
qed simp

text \<open>The traces of binding, with their arguments.\<close>

lemma applyPermissions_neutral: "\<exists>cs. applyPermissions os uid grp a tr = tr @ cs \<and> (\<forall>c \<in> set cs. neutral c)"
  by (auto simp: applyPermissions_def sys_def Let_def)

lemma bindSocket_obtains:
  assumes "bindSocket_unix os uid grp s tr = (True, s', tr')"
  shows "fds_obtained os tr' = add_mset (socketDescriptor s') (fds_obtained os tr) \<and> fds_closed tr' = fds_closed tr \<and>
     clientsDescriptor s' = clientsDescriptor s"
proof -
  let ?d = "ret os tr Socket_call"
  obtain p where s': "s' = setSocketDescriptor ?d s" and d: "?d \<noteq> - 1"
    and tr': "tr' = applyPermissions os uid grp (socketPath s') (tr @ [Socket_call, Unlink (socketPath s'), Bind ?d p, Listen ?d 5])"
    using assms by (auto simp: bindSocket_unix_def sys_def Let_def split: if_splits)
  obtain ds where "tr' = (tr @ [Socket_call, Unlink (socketPath s'), Bind ?d p, Listen ?d 5]) @ ds" "\<forall>c \<in> set ds. neutral c"
    using applyPermissions_neutral unfolding tr' by blast
  then obtain cs where cs: "tr' = (tr @ [Socket_call]) @ cs" "\<forall>c \<in> set cs. neutral c" by auto
  from neutral_calls [OF cs(2), of os "tr @ [Socket_call]"] d show ?thesis
    by (simp add: cs(1) s' setSocketDescriptor_def obtained_def released_def Let_def)
qed

lemma bind_all_obtains:
  "bind_all os uid grp ss tr = (None, ss', tr') \<Longrightarrow>
   fds_obtained os tr' = fds_obtained os tr + mset (map socketDescriptor ss') \<and> fds_closed tr' = fds_closed tr \<and>
   map clientsDescriptor ss' = map clientsDescriptor ss"
proof (induction ss arbitrary: tr ss' tr')
  case (Cons s ss)
  obtain ok s1 tr1 where b: "bindSocket_unix os uid grp s tr = (ok, s1, tr1)" by (cases "bindSocket_unix os uid grp s tr")
  obtain e ss1 tr2 where r: "bind_all os uid grp ss tr1 = (e, ss1, tr2)" by (cases "bind_all os uid grp ss tr1")
  have "ok" "e = None" "ss' = s1 # ss1" "tr' = tr2" using Cons.prems b r by (auto split: bool.splits)
  with Cons.IH [of tr1 ss1 tr2] r b bindSocket_obtains [of os uid grp s tr s1 tr1] show ?case by simp
qed simp

lemma prepare_obtains:
  assumes "prepareEPoll_items os items (- 1) tr = (True, fd, tr')"
  shows "fds_obtained os tr' = add_mset fd (fds_obtained os tr) \<and> fds_closed tr' = fds_closed tr"
proof -
  let ?c = "Epoll_create (int (length items))"
  have fd: "fd = ret os tr ?c" "0 \<le> fd" and add: "addItems os items fd (tr @ [?c]) = (True, tr')"
    using assms by (auto simp: prepareEPoll_items_def sys_def Let_def split: if_splits prod.splits)
  have "\<exists>cs. tr' = (tr @ [?c]) @ cs \<and> (\<forall>c \<in> set cs. neutral c)"
    using addItems_trace [where os = os and items = items and tr = "tr @ [?c]" and pollingfd = fd] add fd(2)
    by (auto simp del: append_assoc)
  then obtain cs where cs: "tr' = (tr @ [?c]) @ cs" "\<forall>c \<in> set cs. neutral c" by blast
  from neutral_calls [OF cs(2), of os "tr @ [?c]"] fd show ?thesis
    by (simp add: cs(1) obtained_def released_def Let_def)
qed

text \<open>The balance of a connector: what was obtained is held by it or closed.\<close>

definition balanced :: "(int, 'z) os_scheme \<Rightarrow> int multiset \<Rightarrow> int trace \<Rightarrow> bool" where
  "balanced os held tr \<longleftrightarrow> fds_obtained os tr = held + fds_closed tr"

lemma accept_event_balanced:
  assumes "fresh_accepts os" "0 \<le> i" "nat i < length ss" "balanced os (endpoint_fds ss + h) tr"
    and "accept_event_unix os (ev, i) (ss, tr) = (ss', tr')"
  shows "balanced os (endpoint_fds ss' + h) tr' \<and> length ss' = length ss"
proof (cases "ev AND EPOLLIN \<noteq> 0")
  case False
  with assms show ?thesis by (simp add: accept_event_unix_def)
next
  case True
  let ?c = "Accept (socketDescriptor (ss ! nat i))"
  have tr': "tr' = tr @ [?c]" and ss': "ss' = (if 0 \<le> ret os tr ?c then ss[nat i := addClientDecriptor (ret os tr ?c) (ss ! nat i)] else ss)"
    using assms(5) True by (auto simp: accept_event_unix_def sys_def Let_def split: if_splits)
  have "fds_obtained os tr - fds_closed tr = endpoint_fds ss + h" using assms(4) by (simp add: balanced_def)
  then have "ret os tr ?c \<notin># endpoint_fds ss" using assms(1) by (metis fresh_accepts_def union_iff)
  then have "ret os tr ?c \<notin> set (clientsDescriptor (ss ! nat i))" using endpoint_fds_client [OF assms(3)] by blast
  from endpoint_fds_add [OF assms(3) this] assms(4) show ?thesis
    by (auto simp: balanced_def tr' ss' obtained_def released_def Let_def)
qed

lemma accept_events_balanced:
  assumes "fresh_accepts os"
  shows "\<forall>e \<in> set es. 0 \<le> snd e \<and> nat (snd e) < length ss \<Longrightarrow> balanced os (endpoint_fds ss + h) tr \<Longrightarrow>
    (case fold (accept_event_unix os) es (ss, tr) of
       (ss', tr') \<Rightarrow> balanced os (endpoint_fds ss' + h) tr' \<and> length ss' = length ss)"
proof (induction es arbitrary: ss tr)
  case (Cons e es)
  obtain ev i where e: "e = (ev, i)" by (cases e)
  obtain ss1 tr1 where a: "accept_event_unix os (ev, i) (ss, tr) = (ss1, tr1)" by (cases "accept_event_unix os (ev, i) (ss, tr)")
  from accept_event_balanced [OF assms _ _ Cons.prems(2) a] Cons.prems(1) e
  have "balanced os (endpoint_fds ss1 + h) tr1" "length ss1 = length ss" by auto
  with Cons.IH [of ss1 tr1] Cons.prems(1) show ?case by (simp add: e a)
qed simp

text \<open>Turns of the worker's loop.\<close>

abbreviation connector_turns :: "(int, 'z) os_scheme \<Rightarrow> nat \<Rightarrow> IpcConnector \<Rightarrow> int trace \<Rightarrow> IpcConnector \<times> int trace" where
  "connector_turns os \<equiv> loop_turns (IpcConnector_Loop os)"

lemma turn_balanced:
  assumes "fresh_accepts os" "registered_events os (length (co_sockets c))"
    and "balanced os (endpoint_fds (co_sockets c) + {#co_pollingfd c#}) tr" "0 \<le> co_pollingfd c"
    and "IpcConnector_Loop os c tr = (c', tr')"
  shows "balanced os (endpoint_fds (co_sockets c') + {#co_pollingfd c'#}) tr' \<and> co_pollingfd c' = co_pollingfd c \<and>
    length (co_sockets c') = length (co_sockets c) \<and> co_isReady c' = co_isReady c"
proof -
  let ?w = "Epoll_wait (co_pollingfd c) 10 1000" and ?h = "{#co_pollingfd c#}"
  let ?es = "if ret os tr ?w < 0 then [] else take (nat (ret os tr ?w)) (events_in os tr ?w)"
  have w: "balanced os (endpoint_fds (co_sockets c) + ?h) (tr @ [?w])"
    using assms(3) by (simp add: balanced_def neutral_call)
  have es: "\<forall>e \<in> set ?es. 0 \<le> snd e \<and> nat (snd e) < length (co_sockets c)"
    using assms(2) by (auto simp: registered_events_def dest!: in_set_takeD)
  obtain ss' tr1 where f: "fold (accept_event_unix os) ?es (co_sockets c, tr @ [?w]) = (ss', tr1)"
    by (cases "fold (accept_event_unix os) ?es (co_sockets c, tr @ [?w])")
  have "waitEPoll os 10 1000 (accept_event_unix os) (co_pollingfd c) (co_sockets c, tr) = (ss', tr1)"
    using f assms(4) by (auto simp: waitEPoll_def sys_def Let_def split: if_splits)
  with assms(5) have "c' = c\<lparr>co_sockets := ss'\<rparr>" "tr' = tr1" by (auto simp: IpcConnector_Loop_def)
  with accept_events_balanced [OF assms(1) es w] f show ?thesis by simp
qed

lemma close_calls: "fds_obtained os (tr @ concat (map (\<lambda>d. [Close d, Shutdown d]) ds)) = fds_obtained os tr \<and>
    fds_closed (tr @ concat (map (\<lambda>d. [Close d, Shutdown d]) ds)) = fds_closed tr + mset ds"
proof (induction ds arbitrary: tr)
  case (Cons d ds)
  have "tr @ concat (map (\<lambda>d. [Close d, Shutdown d]) (d # ds)) =
      ((tr @ [Close d]) @ [Shutdown d]) @ concat (map (\<lambda>d. [Close d, Shutdown d]) ds)" by simp
  then show ?case
    using Cons.IH [of "(tr @ [Close d]) @ [Shutdown d]"] by (simp only: fds_simps) (simp add: obtained_def released_def)
qed simp

lemma close_all_calls:
  "close_all os ss tr = (ss', tr') \<Longrightarrow>
   fds_obtained os tr' = fds_obtained os tr \<and> fds_closed tr' = fds_closed tr + endpoint_fds ss"
proof (induction ss arbitrary: tr ss' tr')
  case (Cons s ss)
  let ?tr = "tr @ concat (map (\<lambda>d. [Close d, Shutdown d]) (socketDescriptor s # clientsDescriptor s))"
  obtain ss1 tr1 where r: "close_all os ss ?tr = (ss1, tr1)" by (cases "close_all os ss ?tr")
  have "tr' = tr1" using Cons.prems r by (simp add: closeSocket_unix_eq)
  with Cons.IH [OF r] close_calls [of os tr "socketDescriptor s # clientsDescriptor s"] show ?case by simp
qed simp

lemma stop_closes:
  assumes "co_isReady c" "balanced os (endpoint_fds (co_sockets c) + {#co_pollingfd c#}) tr"
    and "IpcConnector_Stop os c tr = (c', tr')"
  shows "fds_obtained os tr' = fds_closed tr'"
proof -
  obtain ss tr1 where cl: "close_all os (co_sockets c) tr = (ss, tr1)" by (cases "close_all os (co_sockets c) tr")
  then have "tr' = tr1 @ [Close (co_pollingfd c)]"
    using assms(1,3) by (auto simp: IpcConnector_Stop_def cleanupEPoll_def sys_def)
  with close_all_calls [OF cl] assms(2) show ?thesis by (simp add: balanced_def obtained_def released_def)
qed

text \<open>A successful start of a connector that is not started.\<close>

lemma start_obtains:
  assumes "IpcConnector_Start os uid c tr = (None, c', tr')" "\<not> co_isReady c" "co_pollingfd c = - 1"
    and "\<forall>s \<in> set (co_sockets c). clientsDescriptor s = []"
  shows "fds_obtained os tr' = fds_obtained os tr + (endpoint_fds (co_sockets c') + {#co_pollingfd c'#}) \<and>
     fds_closed tr' = fds_closed tr \<and> co_isReady c' \<and> co_running c' \<and> 0 \<le> co_pollingfd c' \<and>
     length (co_sockets c') = length (co_sockets c) \<and>
     (\<exists>cs tr0 ds n. tr0 = tr @ cs \<and> co_pollingfd c' = ret os tr0 (Epoll_create n) \<and> tr' = tr0 @ Epoll_create n # ds \<and>
        fds_closed tr0 = fds_closed tr \<and> set_mset (fds_obtained os tr) \<subseteq> set_mset (fds_obtained os tr0))"
proof -
  obtain e ss' tr0 where b: "bind_all os uid (co_userGroup c) (co_sockets c) tr = (e, ss', tr0)"
    by (cases "bind_all os uid (co_userGroup c) (co_sockets c) tr")
  have e: "e = None" using assms(1,2) b by (auto simp: IpcConnector_Start_def split: option.splits)
  obtain ok fd trp where p: "prepareEPoll_items os (connector_items ss') (- 1) tr0 = (ok, fd, trp)"
    by (cases "prepareEPoll_items os (connector_items ss') (- 1) tr0")
  have ok: "ok" and c': "tr' = trp" "co_sockets c' = ss'" "co_pollingfd c' = fd" "co_isReady c'" "co_running c'"
    using assms(1-3) b e p by (auto simp: IpcConnector_Start_def Let_def split: if_splits prod.splits)
  have bind: "fds_obtained os tr0 = fds_obtained os tr + mset (map socketDescriptor ss')" "fds_closed tr0 = fds_closed tr"
    "map clientsDescriptor ss' = map clientsDescriptor (co_sockets c)"
    using bind_all_obtains [OF b [unfolded e]] by simp_all
  have "\<forall>s \<in> set ss'. clientsDescriptor s = []"
    using bind(3) assms(4) by (metis (mono_tags, lifting) image_iff image_set)
  then have fds: "endpoint_fds ss' = mset (map socketDescriptor ss')" by (induction ss') auto
  have len: "length ss' = length (co_sockets c)" using bind(3) by (metis length_map)
  from bind_all_trace [OF b] obtain cs where cs: "tr0 = tr @ cs" by blast
  let ?c = "Epoll_create (int (length (connector_items ss')))"
  have fd: "fd = ret os tr0 ?c" "0 \<le> fd" and add: "addItems os (connector_items ss') fd (tr0 @ [?c]) = (True, trp)"
    using p ok by (auto simp: prepareEPoll_items_def sys_def Let_def split: if_splits prod.splits)
  from add obtain ds where ds: "trp = (tr0 @ [?c]) @ ds"
    using addItems_trace [where os = os and items = "connector_items ss'" and tr = "tr0 @ [?c]" and pollingfd = fd] by auto
  have "\<exists>cs tr0 ds n. tr0 = tr @ cs \<and> fd = ret os tr0 (Epoll_create n) \<and> trp = tr0 @ Epoll_create n # ds \<and>
        fds_closed tr0 = fds_closed tr \<and> set_mset (fds_obtained os tr) \<subseteq> set_mset (fds_obtained os tr0)"
    using cs ds fd(1) bind(1,2) by (intro exI [of _ cs] exI [of _ tr0] exI [of _ ds]) auto
  with prepare_obtains [of os "connector_items ss'" tr0 fd trp] p ok bind(1,2) fds len c' fd(2) show ?thesis
    by simp
qed

lemma stop_clears: "IpcConnector_Stop os c tr = (c', tr') \<Longrightarrow> co_isReady c \<Longrightarrow>
    \<not> co_isReady c' \<and> co_pollingfd c' = - 1 \<and> length (co_sockets c') = length (co_sockets c) \<and>
    (\<forall>s \<in> set (co_sockets c'). clientsDescriptor s = [])"
  by (auto simp: IpcConnector_Stop_def close_all_eq cleanupEPoll_def)

section \<open>The sessions of the connector\<close>

definition unix_startable :: "(int, 'z) os_scheme \<Rightarrow> IpcConnector \<Rightarrow> bool" where
  "unix_startable os c \<longleftrightarrow>
     fresh_accepts os \<and> registered_events os (length (co_sockets c)) \<and> \<not> co_isReady c \<and> co_pollingfd c = - 1 \<and>
     (\<forall>s \<in> set (co_sockets c). clientsDescriptor s = [])"

definition unix_started :: "(int, 'z) os_scheme \<Rightarrow> IpcConnector \<Rightarrow> bool" where
  "unix_started os c \<longleftrightarrow>
     fresh_accepts os \<and> registered_events os (length (co_sockets c)) \<and> co_isReady c \<and> 0 \<le> co_pollingfd c"

interpretation unix: closing_session "IpcConnector_Start os uid" "IpcConnector_Loop os" "IpcConnector_Stop os"
  "\<lambda>c. endpoint_fds (co_sockets c) + {#co_pollingfd c#}" "fds_obtained os" fds_closed "unix_startable os" "unix_started os" for os uid
proof
  fix c tr c' tr'
  assume "unix_startable os c" "IpcConnector_Start os uid c tr = (None, c', tr')"
  then show "fds_obtained os tr' = fds_obtained os tr + (endpoint_fds (co_sockets c') + {#co_pollingfd c'#}) \<and>
      fds_closed tr' = fds_closed tr \<and> unix_started os c'"
    using start_obtains [of os uid c tr c' tr'] by (simp add: unix_startable_def unix_started_def)
next
  fix c tr c' tr'
  assume c: "unix_started os c" "fds_obtained os tr = endpoint_fds (co_sockets c) + {#co_pollingfd c#} + fds_closed tr"
    "IpcConnector_Loop os c tr = (c', tr')"
  then show "fds_obtained os tr' = endpoint_fds (co_sockets c') + {#co_pollingfd c'#} + fds_closed tr' \<and> unix_started os c'"
    using turn_balanced [of os c tr c' tr'] by (simp add: unix_started_def balanced_def)
next
  fix c tr c' tr'
  assume c: "unix_started os c" "fds_obtained os tr = endpoint_fds (co_sockets c) + {#co_pollingfd c#} + fds_closed tr"
    "IpcConnector_Stop os c tr = (c', tr')"
  then show "fds_obtained os tr' = fds_closed tr' \<and> unix_startable os c'"
    using stop_closes [of c os tr c' tr'] stop_clears [of os c tr c' tr']
    by (simp add: unix_started_def unix_startable_def balanced_def)
qed

text \<open>
  C15. A connector over new endpoints is started, its loop makes any number of turns and accepts any number
  of clients, it is stopped, and all this any number of times: after every session what the kernel gave
  (listening sockets, connections, the epoll set) and what was closed are the same descriptors, each as
  often. The kernel is assumed to give only descriptors that are not open to \<open>accept\<close>, and events with
  the data that was registered.
\<close>

theorem connector_sessions_close_all:
  assumes "fresh_accepts os" and "registered_events os (length ss)" and "\<forall>s \<in> set ss. clientsDescriptor s = []"
    and "sessions (IpcConnector_Start os uid) (IpcConnector_Loop os) (IpcConnector_Stop os) ns (IpcConnector_new ss) [] = Some (c, tr)"
  shows "fds_obtained os tr = fds_closed tr"
proof -
  have "unix_startable os (IpcConnector_new ss)"
    using assms(1-3) by (simp add: unix_startable_def IpcConnector_new_def EPollWorker_new_def)
  from unix.sessions_close [OF this _ assms(4)] show ?thesis by simp
qed

theorem connector_session_closes_all:
  assumes "fresh_accepts os" and "registered_events os (length ss)" and "\<forall>s \<in> set ss. clientsDescriptor s = []"
    and "IpcConnector_Start os uid (IpcConnector_new ss) [] = (None, c, tr)"
    and "connector_turns os n c tr = (c1, tr1)" and "IpcConnector_Stop os c1 tr1 = (c2, tr2)"
  shows "fds_obtained os tr2 = fds_closed tr2"
proof -
  have st: "unix_startable os (IpcConnector_new ss)"
    using assms(1-3) by (simp add: unix_startable_def IpcConnector_new_def EPollWorker_new_def)
  have "sessions (IpcConnector_Start os uid) (IpcConnector_Loop os) (IpcConnector_Stop os) [n] (IpcConnector_new ss) [] = Some (c2, tr2)"
    using assms(4-6) by simp
  from unix.sessions_close [OF st _ this] show ?thesis by simp
qed

text \<open>A kernel that numbers connections by the calls made before them.\<close>

definition session_os :: "int os" where
  "session_os = \<lparr>ret = (\<lambda>tr c. case c of Socket_call \<Rightarrow> 3 | Epoll_create n \<Rightarrow> 4 | Accept d \<Rightarrow> 10 + int (length tr)
                         | Epoll_wait d n ms \<Rightarrow> 1 | _ \<Rightarrow> 0),
     bytes_in = (\<lambda>tr c. []), events_in = (\<lambda>tr c. [(EPOLLIN, 0)]), ready_in = (\<lambda>tr c. {})\<rparr>"

lemma session_os_fresh: "fresh_accepts session_os"
proof -
  have below: "\<forall>d \<in># fds_obtained session_os tr. d < 10 + int (length tr)" for tr
  proof (induction tr rule: rev_induct)
    case (snoc c tr)
    then show ?case by (cases c) (auto simp: obtained_def session_os_def Let_def)
  qed simp
  have "10 + int (length tr) \<notin># fds_obtained session_os tr - fds_closed tr" for tr
    using below [of tr] by (fastforce dest: in_diffD)
  then show ?thesis by (simp add: fresh_accepts_def session_os_def)
qed

lemma session_run:
  defines "s \<equiv> plain_socket\<lparr>clientsDescriptor := []\<rparr>"
  obtains c tr c1 c2 where "IpcConnector_Start session_os 0 (IpcConnector_new [s]) [] = (None, c, tr)"
    "connector_turns session_os 2 c tr = (c1, tr @ [Epoll_wait 4 10 1000, Accept 3, Epoll_wait 4 10 1000, Accept 3])"
    "IpcConnector_Stop session_os c1 (tr @ [Epoll_wait 4 10 1000, Accept 3, Epoll_wait 4 10 1000, Accept 3]) =
       (c2, tr @ [Epoll_wait 4 10 1000, Accept 3, Epoll_wait 4 10 1000, Accept 3, Close 3, Shutdown 3,
          Close (11 + int (length tr)), Shutdown (11 + int (length tr)), Close (13 + int (length tr)), Shutdown (13 + int (length tr)),
          Close 4])"
proof -
  let ?s = "s\<lparr>socketDescriptor := 3\<rparr>"
  let ?c = "(IpcConnector_new [?s])\<lparr>co_pollingfd := 4, co_running := True, co_isReady := True\<rparr>"
  have st: "\<exists>tr. IpcConnector_Start session_os 0 (IpcConnector_new [s]) [] = (None, ?c, tr)"
    by (simp add: IpcConnector_Start_def IpcConnector_new_def bindSocket_unix_def applyPermissions_def s_def plain_socket_def
        session_os_def sys_def setSocketDescriptor_def connector_items_def prepareEPoll_items_def addToEPoll_def EPollWorker_new_def
        Let_def)
  then obtain tr where st: "IpcConnector_Start session_os 0 (IpcConnector_new [s]) [] = (None, ?c, tr)" by blast
  let ?l = "int (length tr)"
  let ?t = "tr @ [Epoll_wait 4 10 1000, Accept 3, Epoll_wait 4 10 1000, Accept 3]"
  let ?c1 = "?c\<lparr>co_sockets := [?s\<lparr>clientsDescriptor := [11 + ?l, 13 + ?l]\<rparr>]\<rparr>"
  have turns: "connector_turns session_os 2 ?c tr = (?c1, ?t)"
    by (simp add: numeral_2_eq_2 IpcConnector_Loop_def waitEPoll_def accept_event_unix_def session_os_def sys_def EPOLLIN_def
        IpcConnector_new_def s_def plain_socket_def addClientDecriptor_def Let_def)
  show ?thesis
  proof (rule that [OF st turns])
    show "IpcConnector_Stop session_os ?c1 ?t =
        ((fst (IpcConnector_Stop session_os ?c1 ?t)), tr @ [Epoll_wait 4 10 1000, Accept 3, Epoll_wait 4 10 1000, Accept 3,
          Close 3, Shutdown 3, Close (11 + ?l), Shutdown (11 + ?l), Close (13 + ?l), Shutdown (13 + ?l), Close 4])"
      by (simp add: IpcConnector_Stop_def close_all_eq cleanupEPoll_def sys_def IpcConnector_new_def)
  qed
qed

theorem connector_session_closes_all_witness:
  "\<exists>c tr c1 tr1 c2 tr2. IpcConnector_Start session_os 0 (IpcConnector_new [plain_socket\<lparr>clientsDescriptor := []\<rparr>]) [] = (None, c, tr) \<and>
     connector_turns session_os 2 c tr = (c1, tr1) \<and> IpcConnector_Stop session_os c1 tr1 = (c2, tr2) \<and>
     4 \<in># fds_closed tr2 \<and> fds_obtained session_os tr2 = fds_closed tr2"
proof -
  let ?s = "plain_socket\<lparr>clientsDescriptor := []\<rparr>"
  obtain c tr c1 c2 where st: "IpcConnector_Start session_os 0 (IpcConnector_new [?s]) [] = (None, c, tr)"
    and tn: "connector_turns session_os 2 c tr = (c1, tr @ [Epoll_wait 4 10 1000, Accept 3, Epoll_wait 4 10 1000, Accept 3])"
    and sp: "IpcConnector_Stop session_os c1 (tr @ [Epoll_wait 4 10 1000, Accept 3, Epoll_wait 4 10 1000, Accept 3]) =
       (c2, tr @ [Epoll_wait 4 10 1000, Accept 3, Epoll_wait 4 10 1000, Accept 3, Close 3, Shutdown 3,
          Close (11 + int (length tr)), Shutdown (11 + int (length tr)), Close (13 + int (length tr)), Shutdown (13 + int (length tr)),
          Close 4])"
    by (rule session_run)
  have reg: "registered_events session_os (length [?s])" by (simp add: registered_events_def session_os_def)
  have "\<forall>s \<in> set [?s]. clientsDescriptor s = []" by simp
  from connector_session_closes_all [OF session_os_fresh reg this st tn sp] st tn sp show ?thesis
    by (auto simp: fds_closed_def released_def)
qed

theorem connector_sessions_close_all_witness:
  "\<exists>c tr. sessions (IpcConnector_Start session_os 0) (IpcConnector_Loop session_os) (IpcConnector_Stop session_os) [2]
       (IpcConnector_new [plain_socket\<lparr>clientsDescriptor := []\<rparr>]) [] = Some (c, tr) \<and>
     4 \<in># fds_closed tr \<and> fds_obtained session_os tr = fds_closed tr"
proof -
  let ?s = "plain_socket\<lparr>clientsDescriptor := []\<rparr>"
  obtain c tr c1 c2 where st: "IpcConnector_Start session_os 0 (IpcConnector_new [?s]) [] = (None, c, tr)"
    and tn: "connector_turns session_os 2 c tr = (c1, tr @ [Epoll_wait 4 10 1000, Accept 3, Epoll_wait 4 10 1000, Accept 3])"
    and sp: "IpcConnector_Stop session_os c1 (tr @ [Epoll_wait 4 10 1000, Accept 3, Epoll_wait 4 10 1000, Accept 3]) =
       (c2, tr @ [Epoll_wait 4 10 1000, Accept 3, Epoll_wait 4 10 1000, Accept 3, Close 3, Shutdown 3,
          Close (11 + int (length tr)), Shutdown (11 + int (length tr)), Close (13 + int (length tr)), Shutdown (13 + int (length tr)),
          Close 4])" (is "_ = (c2, ?tr)")
    by (rule session_run)
  have reg: "registered_events session_os (length [?s])" by (simp add: registered_events_def session_os_def)
  have none: "\<forall>s \<in> set [?s]. clientsDescriptor s = []" by simp
  have run: "sessions (IpcConnector_Start session_os 0) (IpcConnector_Loop session_os) (IpcConnector_Stop session_os) [2]
      (IpcConnector_new [?s]) [] = Some (c2, ?tr)"
    using st tn sp by simp
  from connector_sessions_close_all [OF session_os_fresh reg none run] run show ?thesis
    by (auto simp: fds_closed_def released_def)
qed

end
