(* ===== verification/Server_Session.thy ===== *)
theory Server_Session
  imports Connector_Session Ipc_Receiver Ipc_Transmitter
begin

text \<open>
  A server on Linux: the connector, the receiver and the transmitter over the same endpoints, as the
  three threads run them, cut into the steps between which another thread can run: one kernel call with
  the change of a registry that depends on it. The connector may be started and stopped repeatedly.
  Followed are the descriptors: who holds each one, and which ones nobody holds any more.
\<close>

section \<open>The threads\<close>

text \<open>A wait of \<open>EPollWorker\<close> cut into the call and the events that are still to be handled.\<close>

definition waited_events :: "(int, 'z) os_scheme \<Rightarrow> nat \<Rightarrow> int \<Rightarrow> int \<Rightarrow> int trace \<Rightarrow> (u32 \<times> int) list \<times> int trace" where
  "waited_events os maxEvents waitMs pollingfd tr =
     waitEPoll os maxEvents waitMs (\<lambda>e (es, tr). (es @ [e], tr)) pollingfd ([], tr)"

datatype receiver_pc = Validating | Waiting | Reading "(u32 \<times> int) list" "int list" | Purging "int list"

record server =
  sv_connector :: IpcConnector
  sv_accepting :: "(u32 \<times> int) list"
  sv_receiver :: IpcReceiver
  sv_pc :: receiver_pc
  sv_dispatched :: dispatched
  sv_transmitter :: IpcTransmitter
  sv_sending :: "(nat \<times> int list \<times> byte list) option"
  sv_trace :: "int trace"

abbreviation sv_sockets :: "server \<Rightarrow> IpcSocketUnix list" where
  "sv_sockets st \<equiv> co_sockets (sv_connector st)"

abbreviation with_sockets :: "IpcSocketUnix list \<Rightarrow> server \<Rightarrow> server" where
  "with_sockets ss st \<equiv> st\<lparr>sv_connector := (sv_connector st)\<lparr>co_sockets := ss\<rparr>\<rparr>"

text \<open>
  With \<open>joined\<close> the connector is stopped only after the transmitter, which is then idle; without it the
  transmitter may be in the middle of a packet. \<open>StopWithJoin\<close> in \<open>Stop\<close> lets the connector's own turn end.
\<close>

inductive server_step :: "(int, 'z) os_scheme \<Rightarrow> int \<Rightarrow> nat \<Rightarrow> bool \<Rightarrow> server \<Rightarrow> server \<Rightarrow> bool" for os uid capacity joined where
  start: "IpcConnector_Start os uid (sv_connector st) (sv_trace st) = (None, c, tr) \<Longrightarrow>
    server_step os uid capacity joined st (st\<lparr>sv_connector := c, sv_trace := tr\<rparr>)"
| stop: "sv_accepting st = [] \<Longrightarrow> (joined \<longrightarrow> sv_sending st = None) \<Longrightarrow>
    IpcConnector_Stop os (sv_connector st) (sv_trace st) = (c, tr) \<Longrightarrow>
    server_step os uid capacity joined st (st\<lparr>sv_connector := c, sv_trace := tr\<rparr>)"
| wait_clients: "co_running (sv_connector st) \<Longrightarrow> sv_accepting st = [] \<Longrightarrow>
    waited_events os 10 1000 (co_pollingfd (sv_connector st)) (sv_trace st) = (es, tr) \<Longrightarrow>
    server_step os uid capacity joined st (st\<lparr>sv_accepting := es, sv_trace := tr\<rparr>)"
| accept: "sv_accepting st = e # es \<Longrightarrow> accept_event_unix os e (sv_sockets st, sv_trace st) = (ss, tr) \<Longrightarrow>
    server_step os uid capacity joined st ((with_sockets ss st)\<lparr>sv_accepting := es, sv_trace := tr\<rparr>)"
| validate: "sv_pc st = Validating \<Longrightarrow> ValidateEPoll os (sv_sockets st) (sv_receiver st) (sv_trace st) = (r, tr) \<Longrightarrow>
    server_step os uid capacity joined st (st\<lparr>sv_receiver := r, sv_pc := Waiting, sv_trace := tr\<rparr>)"
| wait_data: "sv_pc st = Waiting \<Longrightarrow> waited_events os 10 100 (re_pollingfd (sv_receiver st)) (sv_trace st) = (es, tr) \<Longrightarrow>
    server_step os uid capacity joined st (st\<lparr>sv_pc := Reading es [], sv_trace := tr\<rparr>)"
| read_data: "sv_pc st = Reading (e # es) drops \<Longrightarrow>
    Ipc_Receiver.read_event os capacity (managedDescriptors (sv_receiver st)) e ((drops, sv_dispatched st), sv_trace st) =
      ((drops', out), tr) \<Longrightarrow>
    server_step os uid capacity joined st (st\<lparr>sv_pc := Reading es drops', sv_dispatched := out, sv_trace := tr\<rparr>)"
| read_done: "sv_pc st = Reading [] drops \<Longrightarrow>
    server_step os uid capacity joined st (st\<lparr>sv_pc := Purging drops\<rparr>)"
| purge: "sv_pc st = Purging (d # ds) \<Longrightarrow>
    server_step os uid capacity joined st ((with_sockets (purgeSockets [d] (sv_sockets st)) st)\<lparr>sv_pc := Purging ds\<rparr>)"
| purge_done: "sv_pc st = Purging [] \<Longrightarrow> server_step os uid capacity joined st (st\<lparr>sv_pc := Validating\<rparr>)"
| send_data: "server_step os uid capacity joined st (st\<lparr>sv_transmitter := sendData (sv_sockets st) uri data (sv_transmitter st)\<rparr>)"
| take_packet: "sv_sending st = None \<Longrightarrow> getHead (sv_transmitter st) = (Some (i, data), t) \<Longrightarrow>
    server_step os uid capacity joined st
      (st\<lparr>sv_transmitter := t, sv_sending := Some (i, getCopyOfClientsDescriptor (sv_sockets st ! i), data)\<rparr>)"
| send_client: "sv_sending st = Some (i, d # ds, data) \<Longrightarrow>
    innerSend_loop_unix os [d] data (sv_sockets st ! i, sv_trace st) = (s, tr) \<Longrightarrow>
    server_step os uid capacity joined st
      ((with_sockets ((sv_sockets st)[i := s]) st)\<lparr>sv_sending := Some (i, ds, data), sv_trace := tr\<rparr>)"
| send_done: "sv_sending st = Some (i, [], data) \<Longrightarrow> server_step os uid capacity joined st (st\<lparr>sv_sending := None\<rparr>)"

text \<open>The server when its objects have been made: the receiver's constructor makes its epoll set.\<close>

definition server_new :: "(int, 'z) os_scheme \<Rightarrow> IpcSocketUnix list \<Rightarrow> server" where
  "server_new os sockets =
     (case IpcReceiver_new os [] of (r, tr) \<Rightarrow>
       \<lparr>sv_connector = IpcConnector_new sockets, sv_accepting = [], sv_receiver = r, sv_pc = Validating, sv_dispatched = [],
        sv_transmitter = \<lparr>listOfDataToSend = []\<rparr>, sv_sending = None, sv_trace = tr\<rparr>)"

section \<open>The steps are those of the loops\<close>

lemma fold_collect: "fold (\<lambda>e (es, tr). (es @ [e], tr)) evs (es, tr) = (es @ evs, tr)"
  by (induction evs arbitrary: es) auto

lemma waitEPoll_waited:
  "waitEPoll os n ms h fd (s, tr) = (case waited_events os n ms fd tr of (es, tr') \<Rightarrow> fold h es (s, tr'))"
  by (simp add: waited_events_def waitEPoll_def sys_def Let_def fold_collect)

text \<open>
  Uninterrupted, the steps of a thread make up its loop: the connector's and the receiver's turns as they
  are defined over the whole object, and the sending of a packet.
\<close>

lemma then_steps:
  "server_step os uid capacity joined a b \<Longrightarrow> (server_step os uid capacity joined)\<^sup>*\<^sup>* b c \<Longrightarrow>
   (server_step os uid capacity joined)\<^sup>*\<^sup>* a c"
  by (rule converse_rtranclp_into_rtranclp)

lemma accept_steps:
  "sv_accepting st = es \<Longrightarrow> fold (accept_event_unix os) es (sv_sockets st, sv_trace st) = (ss, tr) \<Longrightarrow>
   (server_step os uid capacity joined)\<^sup>*\<^sup>* st ((with_sockets ss st)\<lparr>sv_accepting := [], sv_trace := tr\<rparr>)"
proof (induction es arbitrary: st)
  case Nil
  then have "(with_sockets ss st)\<lparr>sv_accepting := [], sv_trace := tr\<rparr> = st" by (cases st) auto
  then show ?case by simp
next
  case (Cons e es)
  obtain ss1 tr1 where a: "accept_event_unix os e (sv_sockets st, sv_trace st) = (ss1, tr1)"
    by (cases "accept_event_unix os e (sv_sockets st, sv_trace st)")
  let ?st = "(with_sockets ss1 st)\<lparr>sv_accepting := es, sv_trace := tr1\<rparr>"
  have "(server_step os uid capacity joined)\<^sup>*\<^sup>* ?st ((with_sockets ss ?st)\<lparr>sv_accepting := [], sv_trace := tr\<rparr>)"
    by (rule Cons.IH) (use Cons.prems(2) a in simp_all)
  then show ?case by (intro then_steps [OF server_step.accept [OF Cons.prems(1) a]]) simp
qed

lemma connector_turn_steps:
  assumes "co_running (sv_connector st)" "sv_accepting st = []"
    and "IpcConnector_Loop os (sv_connector st) (sv_trace st) = (c, tr)"
  shows "(server_step os uid capacity joined)\<^sup>*\<^sup>* st (st\<lparr>sv_connector := c, sv_trace := tr\<rparr>)"
proof -
  obtain es tr1 where w: "waited_events os 10 1000 (co_pollingfd (sv_connector st)) (sv_trace st) = (es, tr1)"
    by (cases "waited_events os 10 1000 (co_pollingfd (sv_connector st)) (sv_trace st)")
  obtain ss where f: "fold (accept_event_unix os) es (sv_sockets st, tr1) = (ss, tr)" "c = (sv_connector st)\<lparr>co_sockets := ss\<rparr>"
    using assms(3) by (auto simp: IpcConnector_Loop_def waitEPoll_waited w split: prod.splits)
  let ?st = "st\<lparr>sv_accepting := es, sv_trace := tr1\<rparr>"
  have "(server_step os uid capacity joined)\<^sup>*\<^sup>* ?st ((with_sockets ss ?st)\<lparr>sv_accepting := [], sv_trace := tr\<rparr>)"
    by (rule accept_steps) (use f(1) in simp_all)
  moreover have "(with_sockets ss ?st)\<lparr>sv_accepting := [], sv_trace := tr\<rparr> = st\<lparr>sv_connector := c, sv_trace := tr\<rparr>"
    using assms(2) f(2) by (cases st) simp
  ultimately show ?thesis by (intro then_steps [OF server_step.wait_clients [OF assms(1,2) w]]) simp
qed

lemma read_event_appends:
  "Ipc_Receiver.read_event os capacity managed e ((drops, before @ out), tr) =
     (case Ipc_Receiver.read_event os capacity managed e ((drops, out), tr) of ((drops, out), tr) \<Rightarrow> ((drops, before @ out), tr))"
  by (auto simp: Ipc_Receiver.read_event_def Let_def simp del: find_idx_None split: prod.split option.split)

lemma read_steps:
  "sv_pc st = Reading es drops \<Longrightarrow> sv_dispatched st = before @ out \<Longrightarrow>
   fold (Ipc_Receiver.read_event os capacity (managedDescriptors (sv_receiver st))) es ((drops, out), sv_trace st) = ((drops', out'), tr) \<Longrightarrow>
   (server_step os uid capacity joined)\<^sup>*\<^sup>* st (st\<lparr>sv_pc := Reading [] drops', sv_dispatched := before @ out', sv_trace := tr\<rparr>)"
proof (induction es arbitrary: st drops out)
  case Nil
  then have "st\<lparr>sv_pc := Reading [] drops', sv_dispatched := before @ out', sv_trace := tr\<rparr> = st" by (cases st) auto
  then show ?case by simp
next
  case (Cons e es)
  obtain drops1 out1 tr1 where r: "Ipc_Receiver.read_event os capacity (managedDescriptors (sv_receiver st)) e ((drops, out), sv_trace st) =
      ((drops1, out1), tr1)"
    by (metis surj_pair)
  let ?st = "st\<lparr>sv_pc := Reading es drops1, sv_dispatched := before @ out1, sv_trace := tr1\<rparr>"
  have "server_step os uid capacity joined st ?st"
    by (rule server_step.read_data [OF Cons.prems(1)]) (simp add: Cons.prems(2) read_event_appends r)
  moreover have "(server_step os uid capacity joined)\<^sup>*\<^sup>* ?st (?st\<lparr>sv_pc := Reading [] drops', sv_dispatched := before @ out', sv_trace := tr\<rparr>)"
    by (rule Cons.IH [where out = out1]) (use Cons.prems(3) r in simp_all)
  moreover have "?st\<lparr>sv_pc := Reading [] drops', sv_dispatched := before @ out', sv_trace := tr\<rparr> =
      st\<lparr>sv_pc := Reading [] drops', sv_dispatched := before @ out', sv_trace := tr\<rparr>" by simp
  ultimately show ?case using then_steps by metis
qed

lemma purge_steps:
  "sv_pc st = Purging ds \<Longrightarrow>
   (server_step os uid capacity joined)\<^sup>*\<^sup>* st ((with_sockets (purgeSockets ds (sv_sockets st)) st)\<lparr>sv_pc := Purging []\<rparr>)"
proof (induction ds arbitrary: st)
  case Nil
  then have "(with_sockets (purgeSockets [] (sv_sockets st)) st)\<lparr>sv_pc := Purging []\<rparr> = st"
    by (cases st) (simp add: purgeSockets_def)
  then show ?case by simp
next
  case (Cons d ds)
  let ?st = "(with_sockets (purgeSockets [d] (sv_sockets st)) st)\<lparr>sv_pc := Purging ds\<rparr>"
  have p: "purgeSockets (d # ds) (sv_sockets st) = purgeSockets ds (purgeSockets [d] (sv_sockets st))"
    by (simp add: purgeSockets_def)
  have "(server_step os uid capacity joined)\<^sup>*\<^sup>* ?st ((with_sockets (purgeSockets ds (sv_sockets ?st)) ?st)\<lparr>sv_pc := Purging []\<rparr>)"
    by (rule Cons.IH) simp
  then show ?case by (intro then_steps [OF server_step.purge [OF Cons.prems]]) (simp add: p)
qed

lemma receiver_turn_steps:
  assumes "sv_pc st = Validating"
    and "IpcReceiver_loop os capacity (sv_receiver st, sv_sockets st) (sv_trace st) = ((r, ss), out, tr)"
  shows "(server_step os uid capacity joined)\<^sup>*\<^sup>* st
    ((with_sockets ss st)\<lparr>sv_receiver := r, sv_dispatched := sv_dispatched st @ out, sv_trace := tr\<rparr>)"
proof -
  obtain r1 tr1 where v: "ValidateEPoll os (sv_sockets st) (sv_receiver st) (sv_trace st) = (r1, tr1)" by fastforce
  obtain es tr2 where w: "waited_events os 10 100 (re_pollingfd r1) tr1 = (es, tr2)"
    by (cases "waited_events os 10 100 (re_pollingfd r1) tr1")
  obtain drops where f: "fold (Ipc_Receiver.read_event os capacity (managedDescriptors r1)) es (([], []), tr2) = ((drops, out), tr)"
    and r: "r = r1" "ss = (if drops = [] then sv_sockets st else purgeSockets drops (sv_sockets st))"
    using assms(2) by (auto simp: IpcReceiver_loop_def v waitEPoll_waited w Let_def split: prod.splits)
  have ss: "ss = purgeSockets drops (sv_sockets st)" using r(2) by (simp add: purgeSockets_def)
  let ?st1 = "st\<lparr>sv_receiver := r1, sv_pc := Waiting, sv_trace := tr1\<rparr>"
  let ?st2 = "?st1\<lparr>sv_pc := Reading es [], sv_trace := tr2\<rparr>"
  let ?st3 = "?st2\<lparr>sv_pc := Reading [] drops, sv_dispatched := sv_dispatched st @ out, sv_trace := tr\<rparr>"
  let ?st4 = "?st3\<lparr>sv_pc := Purging drops\<rparr>"
  let ?st5 = "(with_sockets (purgeSockets drops (sv_sockets ?st4)) ?st4)\<lparr>sv_pc := Purging []\<rparr>"
  have "server_step os uid capacity joined st ?st1" by (rule server_step.validate [OF assms(1) v])
  moreover have "server_step os uid capacity joined ?st1 ?st2" by (rule server_step.wait_data) (use w in simp_all)
  moreover have "(server_step os uid capacity joined)\<^sup>*\<^sup>* ?st2 ?st3"
    using read_steps [of ?st2 es "[]" "sv_dispatched st" "[]" os capacity drops out tr uid joined] f by simp
  moreover have "server_step os uid capacity joined ?st3 ?st4" by (rule server_step.read_done) simp
  moreover have "(server_step os uid capacity joined)\<^sup>*\<^sup>* ?st4 ?st5" by (rule purge_steps) simp
  moreover have "server_step os uid capacity joined ?st5 (?st5\<lparr>sv_pc := Validating\<rparr>)" by (rule server_step.purge_done) simp
  ultimately have "(server_step os uid capacity joined)\<^sup>*\<^sup>* st (?st5\<lparr>sv_pc := Validating\<rparr>)"
    by (meson converse_rtranclp_into_rtranclp rtranclp.rtrancl_into_rtrancl rtranclp_trans)
  moreover have "?st5\<lparr>sv_pc := Validating\<rparr> = (with_sockets ss st)\<lparr>sv_receiver := r, sv_dispatched := sv_dispatched st @ out, sv_trace := tr\<rparr>"
    using assms(1) by (simp add: r(1) ss)
  ultimately show ?thesis by simp
qed

lemma send_steps:
  "sv_sending st = Some (i, ds, data) \<Longrightarrow> i < length (sv_sockets st) \<Longrightarrow>
   innerSend_loop_unix os ds data (sv_sockets st ! i, sv_trace st) = (s, tr) \<Longrightarrow>
   (server_step os uid capacity joined)\<^sup>*\<^sup>* st ((with_sockets ((sv_sockets st)[i := s]) st)\<lparr>sv_sending := None, sv_trace := tr\<rparr>)"
proof (induction ds arbitrary: st)
  case Nil
  then have "s = sv_sockets st ! i" "tr = sv_trace st" by simp_all
  then have "(with_sockets ((sv_sockets st)[i := s]) st)\<lparr>sv_sending := None, sv_trace := tr\<rparr> = st\<lparr>sv_sending := None\<rparr>"
    by (cases st) simp
  with server_step.send_done [OF Nil.prems(1)] show ?case by (metis r_into_rtranclp)
next
  case (Cons d ds)
  obtain s1 tr1 where o: "innerSend_loop_unix os [d] data (sv_sockets st ! i, sv_trace st) = (s1, tr1)" by fastforce
  let ?st = "(with_sockets ((sv_sockets st)[i := s1]) st)\<lparr>sv_sending := Some (i, ds, data), sv_trace := tr1\<rparr>"
  have "innerSend_loop_unix os ds data (s1, tr1) = (s, tr)" using Cons.prems(3) o by (simp add: sys_def split: if_splits)
  then have "(server_step os uid capacity joined)\<^sup>*\<^sup>* ?st ((with_sockets ((sv_sockets ?st)[i := s]) ?st)\<lparr>sv_sending := None, sv_trace := tr\<rparr>)"
    using Cons.prems(2) by (intro Cons.IH) simp_all
  then show ?case by (intro then_steps [OF server_step.send_client [OF Cons.prems(1) o]]) simp
qed

text \<open>Whole turns of the connector and of the receiver, as the loops of their threads make them.\<close>

definition connector_turn :: "(int, 'z) os_scheme \<Rightarrow> server \<Rightarrow> server" where
  "connector_turn os st =
     (case IpcConnector_Loop os (sv_connector st) (sv_trace st) of (c, tr) \<Rightarrow> st\<lparr>sv_connector := c, sv_trace := tr\<rparr>)"

definition receiver_turn :: "(int, 'z) os_scheme \<Rightarrow> nat \<Rightarrow> server \<Rightarrow> server" where
  "receiver_turn os capacity st =
     (case IpcReceiver_loop os capacity (sv_receiver st, sv_sockets st) (sv_trace st) of ((r, ss), out, tr) \<Rightarrow>
        (with_sockets ss st)\<lparr>sv_receiver := r, sv_dispatched := sv_dispatched st @ out, sv_trace := tr\<rparr>)"


section \<open>What the kernel keeps\<close>

definition open_fds :: "(int, 'z) os_scheme \<Rightarrow> int trace \<Rightarrow> int multiset" where
  "open_fds os tr = fds_obtained os tr - fds_closed tr"

text \<open>A call that makes a descriptor gives one that is not open.\<close>

definition fresh_descriptors :: "(int, 'z) os_scheme \<Rightarrow> bool" where
  "fresh_descriptors os \<longleftrightarrow>
     (\<forall>tr d n. ret os tr (Accept d) \<notin># open_fds os tr \<and> ret os tr (Epoll_create n) \<notin># open_fds os tr)"

text \<open>The events of the epoll sets other than the receiver's carry what was registered: positions of endpoints.\<close>

definition endpoint_events :: "(int, 'z) os_scheme \<Rightarrow> int \<Rightarrow> nat \<Rightarrow> bool" where
  "endpoint_events os efd n \<longleftrightarrow>
     (\<forall>tr d m ms. d \<noteq> efd \<longrightarrow> (\<forall>e \<in> set (events_in os tr (Epoll_wait d m ms)). 0 \<le> snd e \<and> nat (snd e) < n))"

section \<open>Descriptors nobody holds any more\<close>

definition hangs_up :: "u32 \<times> int \<Rightarrow> bool" where
  "hangs_up e \<longleftrightarrow> fst e AND EPOLLHUP \<noteq> 0 \<or> fst e AND EPOLLRDHUP \<noteq> 0"

text \<open>The clients of which the kernel told the receiver that they hung up, and those a write to which failed.\<close>

definition hang_ups :: "(int, 'z) os_scheme \<Rightarrow> int \<Rightarrow> int trace \<Rightarrow> int os_call \<Rightarrow> int list" where
  "hang_ups os efd tr c =
     (case c of
        Epoll_wait d n ms \<Rightarrow>
          if d = efd then map snd (filter hangs_up (take (nat (ret os tr c)) (events_in os tr c))) else []
      | _ \<Rightarrow> [])"

definition failed_writes :: "(int, 'z) os_scheme \<Rightarrow> int trace \<Rightarrow> int os_call \<Rightarrow> int list" where
  "failed_writes os tr c = (case c of Write_call d data \<Rightarrow> if ret os tr c < 0 then [d] else [] | _ \<Rightarrow> [])"

definition abandoned :: "(int, 'z) os_scheme \<Rightarrow> int \<Rightarrow> int trace \<Rightarrow> int set" where
  "abandoned os efd tr = set (gather (hang_ups os efd) [] tr) \<union> set (gather (failed_writes os) [] tr)"

lemma abandoned_append: "abandoned os efd tr \<subseteq> abandoned os efd (tr @ cs)"
  by (auto simp: abandoned_def)

lemma abandoned_snoc:
  "abandoned os efd (tr @ [c]) = abandoned os efd tr \<union> set (hang_ups os efd tr c) \<union> set (failed_writes os tr c)"
  by (auto simp: abandoned_def)

section \<open>Registries\<close>

lemma endpoint_fds_remove:
  "i < length ss \<Longrightarrow> d \<in> set (clientsDescriptor (ss ! i)) \<Longrightarrow>
   endpoint_fds ss = add_mset d (endpoint_fds (ss[i := removeClientDescriptor d (ss ! i)]))"
proof (induction ss arbitrary: i)
  case (Cons s ss)
  then show ?case by (cases i) (auto simp: removeClientDescriptor_def)
qed simp

lemma remove_absent [simp]: "d \<notin> set (clientsDescriptor s) \<Longrightarrow> removeClientDescriptor d s = s"
  by (simp add: removeClientDescriptor_def remove1_idem)

text \<open>Forgetting one client, or nothing, at one endpoint.\<close>

definition forgets :: "int \<Rightarrow> IpcSocketUnix list \<Rightarrow> IpcSocketUnix list \<Rightarrow> bool" where
  "forgets d ss ss' \<longleftrightarrow>
     ss' = ss \<or> (\<exists>i < length ss. d \<in> set (clientsDescriptor (ss ! i)) \<and> ss' = ss[i := removeClientDescriptor d (ss ! i)])"

lemma forgets_fds: "forgets d ss ss' \<Longrightarrow> endpoint_fds ss = endpoint_fds ss' \<or> endpoint_fds ss = add_mset d (endpoint_fds ss')"
  using endpoint_fds_remove unfolding forgets_def by blast

lemma forgets_length: "forgets d ss ss' \<Longrightarrow> length ss' = length ss"
  by (auto simp: forgets_def)

lemma forgets_none: "forgets d ss ss' \<Longrightarrow> \<forall>s \<in> set ss. clientsDescriptor s = [] \<Longrightarrow> ss' = ss"
  by (fastforce simp: forgets_def)

lemma purge_forgets: "forgets d ss (purgeSockets [d] ss)"
  by (auto simp: forgets_def purgeSockets_def findParent_def getCopyOfClientsDescriptor_def split: option.split dest!: find_idx_Some)

lemma send_forgets:
  assumes "innerSend_loop_unix os [d] data (ss ! i, tr) = (s, tr')"
  shows "tr' = tr @ [Write_call d data] \<and> forgets d ss (ss[i := s]) \<and>
    (ss[i := s] = ss \<or> d \<in> abandoned os efd (tr @ [Write_call d data]))"
proof -
  have s: "s = (if ret os tr (Write_call d data) < 0 then removeClientDescriptor d (ss ! i) else ss ! i)" "tr' = tr @ [Write_call d data]"
    using assms by (auto simp: sys_def)
  show ?thesis
  proof (cases "i < length ss \<and> ret os tr (Write_call d data) < 0 \<and> d \<in> set (clientsDescriptor (ss ! i))")
    case True
    then show ?thesis using s by (auto simp: forgets_def abandoned_snoc failed_writes_def)
  next
    case False
    then have "ss[i := s] = ss" by (cases "i < length ss") (auto simp: s(1) list_update_beyond)
    then show ?thesis using s(2) by (simp add: forgets_def)
  qed
qed

section \<open>The account of the descriptors\<close>

definition held_fds :: "IpcConnector \<Rightarrow> int multiset" where
  "held_fds c = (if co_isReady c then endpoint_fds (co_sockets c) + {#co_pollingfd c#} else {#})"

fun pending_drops :: "receiver_pc \<Rightarrow> int list" where
  "pending_drops (Reading es drops) = drops @ map snd (filter hangs_up es)"
| "pending_drops (Purging ds) = ds"
| "pending_drops pc = []"

definition connector_shape :: "int \<Rightarrow> nat \<Rightarrow> (u32 \<times> int) list \<Rightarrow> IpcConnector \<Rightarrow> bool" where
  "connector_shape efd n es c \<longleftrightarrow>
     length (co_sockets c) = n \<and> co_running c = co_isReady c \<and> (\<forall>e \<in> set es. 0 \<le> snd e \<and> nat (snd e) < n) \<and>
     (if co_isReady c then 0 \<le> co_pollingfd c \<and> co_pollingfd c \<noteq> efd
      else co_pollingfd c = - 1 \<and> es = [] \<and> (\<forall>s \<in> set (co_sockets c). clientsDescriptor s = []))"

text \<open>Every descriptor is held by the connector's objects or the receiver, closed, or was given up.\<close>

definition fds_accounted :: "(int, 'z) os_scheme \<Rightarrow> int \<Rightarrow> int multiset \<Rightarrow> int trace \<Rightarrow> bool" where
  "fds_accounted os efd held tr \<longleftrightarrow>
     (\<exists>lost. balanced os (held + ({#efd#} + lost)) tr \<and> set_mset lost \<subseteq> abandoned os efd tr)"

definition server_inv :: "(int, 'z) os_scheme \<Rightarrow> int \<Rightarrow> nat \<Rightarrow> server \<Rightarrow> bool" where
  "server_inv os efd n st \<longleftrightarrow>
     connector_shape efd n (sv_accepting st) (sv_connector st) \<and> re_pollingfd (sv_receiver st) = efd \<and> 0 \<le> efd \<and>
     set (pending_drops (sv_pc st)) \<subseteq> abandoned os efd (sv_trace st) \<and>
     fds_accounted os efd (held_fds (sv_connector st)) (sv_trace st)"

lemma fds_accounted_neutral:
  assumes "fds_accounted os efd held tr" "\<forall>c \<in> set cs. neutral c"
  shows "fds_accounted os efd held (tr @ cs)"
proof -
  obtain lost where "balanced os (held + ({#efd#} + lost)) tr" "set_mset lost \<subseteq> abandoned os efd tr"
    using assms(1) by (auto simp: fds_accounted_def)
  with neutral_calls [OF assms(2), of os tr] abandoned_append [of os efd tr cs] show ?thesis
    unfolding fds_accounted_def balanced_def by (intro exI [of _ lost]) auto
qed

lemma fds_accounted_forget:
  assumes "fds_accounted os efd held tr" "held = held' \<or> held = add_mset d held' \<and> d \<in> abandoned os efd tr"
  shows "fds_accounted os efd held' tr"
proof -
  obtain lost where lost: "balanced os (held + ({#efd#} + lost)) tr" "set_mset lost \<subseteq> abandoned os efd tr"
    using assms(1) by (auto simp: fds_accounted_def)
  from assms(2) show ?thesis
  proof
    assume "held = held'"
    then show ?thesis using assms(1) by simp
  next
    assume d: "held = add_mset d held' \<and> d \<in> abandoned os efd tr"
    then have "balanced os (held' + ({#efd#} + add_mset d lost)) tr" using lost(1) by (simp add: ac_simps)
    moreover have "set_mset (add_mset d lost) \<subseteq> abandoned os efd tr" using d lost(2) by simp
    ultimately show ?thesis unfolding fds_accounted_def by blast
  qed
qed

lemma held_forgets:
  assumes "forgets d (co_sockets c) ss" "connector_shape efd n es c"
  shows "connector_shape efd n es (c\<lparr>co_sockets := ss\<rparr>) \<and>
    (held_fds c = held_fds (c\<lparr>co_sockets := ss\<rparr>) \<or> ss \<noteq> co_sockets c \<and> held_fds c = add_mset d (held_fds (c\<lparr>co_sockets := ss\<rparr>)))"
proof (cases "co_isReady c")
  case True
  then show ?thesis using forgets_fds [OF assms(1)] forgets_length [OF assms(1)] assms(2)
    by (cases "ss = co_sockets c") (auto simp: connector_shape_def held_fds_def)
next
  case False
  then have "ss = co_sockets c" using forgets_none [OF assms(1)] assms(2) by (auto simp: connector_shape_def)
  then show ?thesis using assms(2) by simp
qed

subsection \<open>Starting, stopping and accepting\<close>

lemma open_held: "balanced os held tr \<Longrightarrow> open_fds os tr = held"
  by (simp add: balanced_def open_fds_def)

lemma start_accounted:
  assumes "fresh_descriptors os" "IpcConnector_Start os uid c tr = (None, c', tr')"
    and "connector_shape efd n es c" "fds_accounted os efd (held_fds c) tr"
  shows "connector_shape efd n es c' \<and> fds_accounted os efd (held_fds c') tr' \<and> abandoned os efd tr \<subseteq> abandoned os efd tr'"
proof (cases "co_isReady c")
  case True
  then show ?thesis using assms by (simp add: IpcConnector_Start_def)
next
  case False
  then have off: "co_pollingfd c = - 1" "es = []" "\<forall>s \<in> set (co_sockets c). clientsDescriptor s = []" "length (co_sockets c) = n"
    using assms(3) by (auto simp: connector_shape_def)
  note so = start_obtains [OF assms(2) False off(1,3)]
  from so obtain cs tr0 ds m where tr0: "tr0 = tr @ cs" "co_pollingfd c' = ret os tr0 (Epoll_create m)" "tr' = tr0 @ Epoll_create m # ds"
    "fds_closed tr0 = fds_closed tr" "set_mset (fds_obtained os tr) \<subseteq> set_mset (fds_obtained os tr0)" by blast
  have mono: "abandoned os efd tr \<subseteq> abandoned os efd tr'" using abandoned_append [of os efd tr "cs @ Epoll_create m # ds"] tr0 by simp
  obtain lost where lost: "balanced os (held_fds c + ({#efd#} + lost)) tr" "set_mset lost \<subseteq> abandoned os efd tr"
    using assms(4) by (auto simp: fds_accounted_def)
  have bal: "balanced os (held_fds c' + ({#efd#} + lost)) tr'"
    using lost(1) so False by (simp add: balanced_def held_fds_def ac_simps)
  have "co_pollingfd c' \<noteq> efd"
  proof -
    have "fds_obtained os tr \<subseteq># fds_obtained os tr0" by (simp add: fds_obtained_def tr0(1))
    then have le: "count (fds_obtained os tr) efd \<le> count (fds_obtained os tr0) efd" by (rule mset_subset_eq_count)
    have "open_fds os tr = held_fds c + ({#efd#} + lost)" by (rule open_held [OF lost(1)])
    then have "efd \<in># open_fds os tr" by simp
    then have "count (fds_closed tr0) efd < count (fds_obtained os tr) efd" by (simp add: open_fds_def in_diff_count tr0(4))
    with le have "efd \<in># open_fds os tr0" by (simp add: open_fds_def in_diff_count)
    then show ?thesis using assms(1) tr0(2) by (auto simp: fresh_descriptors_def)
  qed
  then have "connector_shape efd n es c'" using so off by (simp add: connector_shape_def)
  with bal lost(2) mono show ?thesis by (auto simp: fds_accounted_def)
qed

lemma stop_accounted:
  assumes "IpcConnector_Stop os c tr = (c', tr')" "connector_shape efd n [] c" "fds_accounted os efd (held_fds c) tr"
  shows "connector_shape efd n [] c' \<and> fds_accounted os efd (held_fds c') tr' \<and> abandoned os efd tr \<subseteq> abandoned os efd tr'"
proof (cases "co_isReady c")
  case False
  then show ?thesis using assms by (simp add: IpcConnector_Stop_def)
next
  case True
  obtain ss tr1 where cl: "close_all os (co_sockets c) tr = (ss, tr1)" by (cases "close_all os (co_sockets c) tr")
  have c': "c' = c\<lparr>co_sockets := ss, co_pollingfd := - 1, co_running := False, co_isReady := False\<rparr>" "tr' = tr1 @ [Close (co_pollingfd c)]"
    using assms(1) True cl by (auto simp: IpcConnector_Stop_def cleanupEPoll_def sys_def)
  obtain cs where ss: "ss = map (\<lambda>s. s\<lparr>socketDescriptor := - 1, clientsDescriptor := []\<rparr>) (co_sockets c)" "tr1 = tr @ cs"
    using cl by (auto simp: close_all_eq)
  obtain lost where lost: "balanced os (held_fds c + ({#efd#} + lost)) tr" "set_mset lost \<subseteq> abandoned os efd tr"
    using assms(3) by (auto simp: fds_accounted_def)
  have "balanced os (held_fds c' + ({#efd#} + lost)) tr'"
    using lost(1) close_all_calls [OF cl] True by (simp add: balanced_def held_fds_def c' obtained_def released_def ac_simps)
  moreover have "abandoned os efd tr \<subseteq> abandoned os efd tr'"
    using abandoned_append [of os efd tr "cs @ [Close (co_pollingfd c)]"] by (simp add: c'(2) ss(2))
  moreover have "connector_shape efd n [] c'" using assms(2) by (simp add: connector_shape_def c'(1) ss(1))
  ultimately show ?thesis using lost(2) unfolding fds_accounted_def by blast
qed

lemma accept_accounted:
  assumes "fresh_descriptors os" "accept_event_unix os e (co_sockets c, tr) = (ss, tr')"
    and "connector_shape efd n (e # es) c" "fds_accounted os efd (held_fds c) tr"
  shows "connector_shape efd n es (c\<lparr>co_sockets := ss\<rparr>) \<and> fds_accounted os efd (held_fds (c\<lparr>co_sockets := ss\<rparr>)) tr' \<and>
    abandoned os efd tr \<subseteq> abandoned os efd tr'"
proof -
  obtain ev i where e: "e = (ev, i)" by (cases e)
  have on: "co_isReady c" "0 \<le> i" "nat i < length (co_sockets c)"
    using assms(3) by (auto simp: connector_shape_def e split: if_splits)
  obtain lost where lost: "balanced os (held_fds c + ({#efd#} + lost)) tr" "set_mset lost \<subseteq> abandoned os efd tr"
    using assms(4) by (auto simp: fds_accounted_def)
  have "fresh_accepts os" using assms(1) by (simp add: fresh_descriptors_def fresh_accepts_def open_fds_def)
  moreover have "balanced os (endpoint_fds (co_sockets c) + ({#co_pollingfd c#} + ({#efd#} + lost))) tr"
    using lost(1) on(1) by (simp add: held_fds_def ac_simps)
  ultimately have "balanced os (endpoint_fds ss + ({#co_pollingfd c#} + ({#efd#} + lost))) tr' \<and> length ss = length (co_sockets c)"
    using accept_event_balanced assms(2) on(2,3) unfolding e by blast
  moreover have "\<exists>cs. tr' = tr @ cs" using assms(2) by (auto simp: e accept_event_unix_def sys_def Let_def split: if_splits)
  then have "abandoned os efd tr \<subseteq> abandoned os efd tr'" by (metis abandoned_append)
  ultimately show ?thesis using on(1) assms(3) lost(2)
    by (auto simp: connector_shape_def held_fds_def fds_accounted_def ac_simps intro!: exI [of _ lost])
qed

subsection \<open>Every step\<close>

lemma waited_events_trace:
  assumes "waited_events os m ms fd tr = (es, tr')"
  shows "\<exists>cs. tr' = tr @ cs \<and> (\<forall>c \<in> set cs. neutral c) \<and>
    (es = [] \<or> 0 \<le> fd \<and> cs = [Epoll_wait fd m ms] \<and>
       es = take (nat (ret os tr (Epoll_wait fd m ms))) (events_in os tr (Epoll_wait fd m ms)))"
  using assms by (auto simp: waited_events_def waitEPoll_def sys_def Let_def fold_collect split: if_splits)

lemma read_event_trace:
  assumes "Ipc_Receiver.read_event os capacity managed e ((drops, out), tr) = ((drops', out'), tr')"
  shows "(\<exists>cs. tr' = tr @ cs \<and> (\<forall>c \<in> set cs. neutral c)) \<and> drops' = drops @ map snd (filter hangs_up [e])"
  using assms
  by (auto simp: Ipc_Receiver.read_event_def sys_def Let_def hangs_up_def split: prod.splits if_splits option.splits)

lemma server_inv_neutral:
  assumes "server_inv os efd n st" "sv_connector st' = sv_connector st" "sv_accepting st' = sv_accepting st"
    and "re_pollingfd (sv_receiver st') = re_pollingfd (sv_receiver st)"
    and "\<exists>cs. sv_trace st' = sv_trace st @ cs \<and> (\<forall>c \<in> set cs. neutral c)"
    and "set (pending_drops (sv_pc st')) \<subseteq> abandoned os efd (sv_trace st')"
  shows "server_inv os efd n st'"
proof -
  obtain cs where "sv_trace st' = sv_trace st @ cs" and n: "\<forall>c \<in> set cs. neutral c" using assms(5) by blast
  then show ?thesis using assms(1-4,6) fds_accounted_neutral [OF _ n, of os efd "held_fds (sv_connector st)" "sv_trace st"]
    by (simp add: server_inv_def)
qed

lemma server_inv_update:
  assumes "server_inv os efd n st" "sv_receiver st' = sv_receiver st" "abandoned os efd (sv_trace st) \<subseteq> abandoned os efd (sv_trace st')"
    and "set (pending_drops (sv_pc st')) \<subseteq> set (pending_drops (sv_pc st))"
    and "connector_shape efd n (sv_accepting st') (sv_connector st')"
    and "fds_accounted os efd (held_fds (sv_connector st')) (sv_trace st')"
  shows "server_inv os efd n st'"
  using assms by (auto simp: server_inv_def)

lemma server_inv_forgets:
  assumes "server_inv os efd n st" "sv_connector st' = (sv_connector st)\<lparr>co_sockets := ss\<rparr>" "forgets d (sv_sockets st) ss"
    and "sv_receiver st' = sv_receiver st" "sv_accepting st' = sv_accepting st"
    and "set (pending_drops (sv_pc st')) \<subseteq> set (pending_drops (sv_pc st))"
    and "sv_trace st' = sv_trace st @ cs" "\<forall>c \<in> set cs. neutral c"
    and "ss = sv_sockets st \<or> d \<in> abandoned os efd (sv_trace st')"
  shows "server_inv os efd n st'"
proof (rule server_inv_update [OF assms(1,4) _ assms(6)])
  have shape: "connector_shape efd n (sv_accepting st) (sv_connector st)"
    and acc: "fds_accounted os efd (held_fds (sv_connector st)) (sv_trace st)"
    using assms(1) by (simp_all add: server_inv_def)
  note held = held_forgets [OF assms(3) shape]
  show "abandoned os efd (sv_trace st) \<subseteq> abandoned os efd (sv_trace st')" using abandoned_append assms(7) by simp
  show "connector_shape efd n (sv_accepting st') (sv_connector st')" using held assms(2,5) by simp
  have "fds_accounted os efd (held_fds (sv_connector st)) (sv_trace st')"
    using fds_accounted_neutral [OF acc assms(8)] assms(7) by simp
  then show "fds_accounted os efd (held_fds (sv_connector st')) (sv_trace st')"
    by (rule fds_accounted_forget) (use held assms(2,9) in auto)
qed

lemma server_inv_step:
  assumes "server_step os uid capacity joined st st'" "fresh_descriptors os" "endpoint_events os efd n" "server_inv os efd n st"
  shows "server_inv os efd n st'"
proof -
  have shape: "connector_shape efd n (sv_accepting st) (sv_connector st)" and efd: "re_pollingfd (sv_receiver st) = efd"
    and drops: "set (pending_drops (sv_pc st)) \<subseteq> abandoned os efd (sv_trace st)"
    and acc: "fds_accounted os efd (held_fds (sv_connector st)) (sv_trace st)"
    using assms(4) by (simp_all add: server_inv_def)
  note update = server_inv_update [OF assms(4)] and quiet = server_inv_neutral [OF assms(4)] and forget = server_inv_forgets [OF assms(4)]
  show ?thesis using assms(1)
  proof (cases rule: server_step.cases)
    case (start c tr)
    note s = start_accounted [OF assms(2) start(2) shape acc]
    show ?thesis by (rule update) (use s start(1) in simp_all)
  next
    case (stop c tr)
    note s = stop_accounted [OF stop(4) _ acc, of n] shape
    show ?thesis by (rule update) (use s stop(1,2) in simp_all)
  next
    case (wait_clients es tr)
    let ?fd = "co_pollingfd (sv_connector st)"
    from waited_events_trace [OF wait_clients(4)] obtain cs where
      cs: "tr = sv_trace st @ cs" "\<forall>c \<in> set cs. neutral c" "\<forall>e \<in> set es. e \<in> set (events_in os (sv_trace st) (Epoll_wait ?fd 10 1000))"
      by (auto dest: in_set_takeD)
    have on: "co_isReady (sv_connector st)" "?fd \<noteq> efd" using shape wait_clients(2) by (auto simp: connector_shape_def split: if_splits)
    then have "\<forall>e \<in> set es. 0 \<le> snd e \<and> nat (snd e) < n"
      using cs(3) assms(3) unfolding endpoint_events_def by blast
    then have sh: "connector_shape efd n es (sv_connector st)" using shape on(1) by (simp add: connector_shape_def)
    show ?thesis
      by (rule update) (use sh wait_clients(1) cs(1) fds_accounted_neutral [OF acc cs(2)] abandoned_append in simp_all)
  next
    case (accept e es ss tr)
    note s = accept_accounted [OF assms(2) accept(3) shape [unfolded accept(2)] acc]
    show ?thesis by (rule update) (use s accept(1) in simp_all)
  next
    case (validate r tr)
    have "neutral c" if "epoll_ctl_call c" for c using that by (cases c) simp_all
    then have cs: "\<exists>cs. tr = sv_trace st @ cs \<and> (\<forall>c \<in> set cs. neutral c)"
      using ValidateEPoll_trace(2) [OF validate(3)] by blast
    have "re_pollingfd r = re_pollingfd (sv_receiver st)" using ValidateEPoll_trace(1) [OF validate(3)] by simp
    then show ?thesis by (intro quiet) (use validate(1) cs in simp_all)
  next
    case (wait_data es tr)
    let ?c = "Epoll_wait efd 10 100"
    from waited_events_trace [OF wait_data(3)] obtain cs where cs: "tr = sv_trace st @ cs" "\<forall>c \<in> set cs. neutral c"
      and es: "es = [] \<or> cs = [?c] \<and> es = take (nat (ret os (sv_trace st) ?c)) (events_in os (sv_trace st) ?c)"
      unfolding efd by blast
    have "set (map snd (filter hangs_up es)) \<subseteq> abandoned os efd tr"
      using es
    proof
      assume "cs = [?c] \<and> es = take (nat (ret os (sv_trace st) ?c)) (events_in os (sv_trace st) ?c)"
      then have "map snd (filter hangs_up es) = hang_ups os efd (sv_trace st) ?c" by (simp add: hang_ups_def)
      then show ?thesis using cs(1) \<open>cs = [?c] \<and> _\<close> by (auto simp: abandoned_snoc)
    qed simp
    then show ?thesis by (intro quiet) (use wait_data(1) cs in auto)
  next
    case (read_data e es drops drops' out tr)
    note r = read_event_trace [OF read_data(3)]
    then obtain cs where cs: "tr = sv_trace st @ cs" "\<forall>c \<in> set cs. neutral c" by blast
    have "set (pending_drops (Reading es drops')) \<subseteq> set (pending_drops (sv_pc st))" using r read_data(2) by auto
    then have "set (pending_drops (Reading es drops')) \<subseteq> abandoned os efd tr"
      using drops abandoned_append [of os efd "sv_trace st" cs] cs(1) by blast
    then show ?thesis by (intro quiet) (use read_data(1) cs in auto)
  next
    case (purge d ds)
    have "d \<in> abandoned os efd (sv_trace st)" using drops purge(2) by simp
    then show ?thesis
      by (intro forget [OF _ purge_forgets [of d "sv_sockets st"], of _ "[]"]) (use purge in auto)
  next
    case (send_client i d ds data s tr)
    note sf = send_forgets [OF send_client(3), of efd]
    show ?thesis
      by (intro forget [of _ "(sv_sockets st)[i := s]" d "[Write_call d data]"]) (use sf send_client(1) in auto)
  next
    case (read_done drops)
    then show ?thesis by (intro quiet) (use drops in auto)
  qed (intro quiet; use drops in simp)+
qed

lemma server_inv_new:
  assumes "\<forall>s \<in> set ss. clientsDescriptor s = []" "re_pollingfd (sv_receiver (server_new os ss)) = efd" "0 \<le> efd"
  shows "server_inv os efd (length ss) (server_new os ss)"
proof -
  have new: "sv_connector (server_new os ss) = IpcConnector_new ss" "sv_accepting (server_new os ss) = []"
    "sv_pc (server_new os ss) = Validating" "sv_trace (server_new os ss) = [Epoll_create 1]" "efd = ret os [] (Epoll_create 1)"
    using assms(2) by (auto simp: server_new_def IpcReceiver_new_def prepareEPoll_def EPollWorker_new_def sys_def)
  have "fds_obtained os ([] @ [Epoll_create 1]) = {#efd#}" "fds_closed (([] :: int trace) @ [Epoll_create 1]) = {#}"
    unfolding fds_simps using assms(3) by (simp_all add: obtained_def released_def new(5))
  then have "balanced os ({#} + ({#efd#} + {#})) [Epoll_create 1]" by (simp add: balanced_def)
  then have "fds_accounted os efd {#} [Epoll_create 1]" unfolding fds_accounted_def by fastforce
  then show ?thesis
    using assms new(1-4) by (simp add: server_inv_def connector_shape_def held_fds_def IpcConnector_new_def EPollWorker_new_def)
qed

lemma server_inv_reach:
  assumes "(server_step os uid capacity joined)\<^sup>*\<^sup>* (server_new os ss) st" "fresh_descriptors os" "endpoint_events os efd (length ss)"
    and "\<forall>s \<in> set ss. clientsDescriptor s = []" "re_pollingfd (sv_receiver (server_new os ss)) = efd" "0 \<le> efd"
  shows "server_inv os efd (length ss) st"
  using assms(1)
proof (induction rule: rtranclp_induct)
  case base
  show ?case by (rule server_inv_new [OF assms(4-6)])
next
  case (step st st')
  from server_inv_step [OF step.hyps(2) assms(2,3) step.IH] show ?case .
qed


section \<open>Writes to open descriptors\<close>

definition open_writes :: "(int, 'z) os_scheme \<Rightarrow> int trace \<Rightarrow> bool" where
  "open_writes os tr \<longleftrightarrow> (\<forall>before d data later. tr = before @ Write_call d data # later \<longrightarrow> d \<in># open_fds os before)"

lemma open_writes_snoc:
  "open_writes os (tr @ [c]) \<longleftrightarrow> open_writes os tr \<and> (\<forall>d data. c = Write_call d data \<longrightarrow> d \<in># open_fds os tr)"
proof
  assume w: "open_writes os (tr @ [c])"
  have "tr @ [c] = before @ Write_call d data # later @ [c]" if "tr = before @ Write_call d data # later" for before d data later
    using that by simp
  then have "open_writes os tr" using w unfolding open_writes_def by blast
  moreover have "d \<in># open_fds os tr" if "c = Write_call d data" for d data
    using w that unfolding open_writes_def by blast
  ultimately show "open_writes os tr \<and> (\<forall>d data. c = Write_call d data \<longrightarrow> d \<in># open_fds os tr)" by blast
next
  assume w: "open_writes os tr \<and> (\<forall>d data. c = Write_call d data \<longrightarrow> d \<in># open_fds os tr)"
  show "open_writes os (tr @ [c])" unfolding open_writes_def
  proof (intro allI impI)
    fix before d data later
    assume eq: "tr @ [c] = before @ Write_call d data # later"
    show "d \<in># open_fds os before"
    proof (cases later rule: rev_cases)
      case Nil
      then show ?thesis using eq w by simp
    next
      case (snoc rest y)
      then have "tr @ [c] = (before @ Write_call d data # rest) @ [y]" using eq by simp
      then show ?thesis using w unfolding append1_eq_conv open_writes_def by blast
    qed
  qed
qed

lemma open_writes_append: "open_writes os tr \<Longrightarrow> \<forall>d data. Write_call d data \<notin> set cs \<Longrightarrow> open_writes os (tr @ cs)"
proof (induction cs rule: rev_induct)
  case (snoc c cs)
  then have "open_writes os ((tr @ cs) @ [c])" unfolding open_writes_snoc by auto
  then show ?case by simp
qed simp

lemma open_fds_keep:
  "\<forall>c \<in> set cs. starting_call c \<or> neutral c \<Longrightarrow> d \<in># open_fds os tr \<Longrightarrow> d \<in># open_fds os (tr @ cs)"
proof (induction cs rule: rev_induct)
  case (snoc c cs)
  then have d: "d \<in># open_fds os (tr @ cs)" and c: "starting_call c \<or> neutral c" by auto
  have "released (tr @ cs) c = []" using c by (cases c) (auto simp: released_def)
  then have "d \<in># open_fds os ((tr @ cs) @ [c])" using d by (simp only: fds_simps open_fds_def) (simp add: in_diff_count)
  then show ?case by simp
qed simp

text \<open>What the transmitter holds: packets for existing endpoints, and a copy of descriptors that are open.\<close>

definition sending_ok :: "(int, 'z) os_scheme \<Rightarrow> nat \<Rightarrow> server \<Rightarrow> bool" where
  "sending_ok os n st \<longleftrightarrow>
     (\<forall>p \<in> set (listOfDataToSend (sv_transmitter st)). fst p < n) \<and> open_writes os (sv_trace st) \<and>
     (case sv_sending st of
        None \<Rightarrow> True
      | Some (i, ds, data) \<Rightarrow> \<forall>d \<in> set ds. d \<in># open_fds os (sv_trace st))"

lemma sending_ok_keep:
  assumes "sending_ok os n st" "sv_sending st' = sv_sending st" "sv_transmitter st' = sv_transmitter st"
    and "\<exists>cs. sv_trace st' = sv_trace st @ cs \<and> (\<forall>c \<in> set cs. (starting_call c \<or> neutral c) \<and> (\<forall>d data. c \<noteq> Write_call d data))"
  shows "sending_ok os n st'"
proof -
  from assms(4) obtain cs where cs: "sv_trace st' = sv_trace st @ cs" "\<forall>c \<in> set cs. starting_call c \<or> neutral c"
    "\<forall>d data. Write_call d data \<notin> set cs" by blast
  have "open_writes os (sv_trace st')"
    using open_writes_append [OF _ cs(3), of os "sv_trace st"] assms(1) by (simp add: sending_ok_def cs(1))
  moreover have "\<forall>d \<in> set ds. d \<in># open_fds os (sv_trace st')" if "sv_sending st = Some (i, ds, data)" for i ds data
    using open_fds_keep [OF cs(2), of _ os "sv_trace st"] assms(1,2) that by (simp add: sending_ok_def cs(1))
  ultimately show ?thesis using assms(1-3) by (auto simp: sending_ok_def split: option.split)
qed

lemma clients_open:
  assumes "server_inv os efd n st" "i < n" "d \<in> set (clientsDescriptor (sv_sockets st ! i))"
  shows "d \<in># open_fds os (sv_trace st)"
proof -
  obtain lost where lost: "balanced os (held_fds (sv_connector st) + ({#efd#} + lost)) (sv_trace st)"
    using assms(1) by (auto simp: server_inv_def fds_accounted_def)
  have len: "i < length (sv_sockets st)" and shape: "connector_shape efd n (sv_accepting st) (sv_connector st)"
    using assms(1,2) by (auto simp: server_inv_def connector_shape_def)
  have "clientsDescriptor (sv_sockets st ! i) \<noteq> []" using assms(3) by auto
  then have "co_isReady (sv_connector st)" using shape len by (force simp: connector_shape_def split: if_splits)
  then have "d \<in># held_fds (sv_connector st)" using endpoint_fds_client [OF len assms(3)] by (simp add: held_fds_def)
  then show ?thesis unfolding open_held [OF lost] by simp
qed

lemma sending_ok_step:
  assumes "server_step os uid capacity True st st'" "server_inv os efd n st" "sending_ok os n st"
  shows "sending_ok os n st'"
proof -
  note keep = sending_ok_keep [OF assms(3)]
  have n: "length (sv_sockets st) = n" using assms(2) by (simp add: server_inv_def connector_shape_def)
  have wait: "\<exists>cs. tr = sv_trace st @ cs \<and> (\<forall>c \<in> set cs. (starting_call c \<or> neutral c) \<and> (\<forall>d data. c \<noteq> Write_call d data))"
    if "waited_events os m ms fd (sv_trace st) = (es, tr)" for m ms fd es tr
    using that by (auto simp: waited_events_def waitEPoll_def sys_def Let_def fold_collect split: if_splits)
  show ?thesis using assms(1)
  proof (cases rule: server_step.cases)
    case (start c tr)
    from start_trace [OF start(2)] obtain cs where "tr = sv_trace st @ cs" "\<forall>c \<in> set cs. starting_call c" by blast
    then show ?thesis by (intro keep) (use start(1) in fastforce)+
  next
    case (stop c tr)
    have "\<exists>cs. tr = sv_trace st @ cs \<and> (\<forall>d data. Write_call d data \<notin> set cs)"
      using stop(4) by (auto simp: IpcConnector_Stop_def close_all_eq cleanupEPoll_def sys_def split: if_splits)
    then have "open_writes os tr" using assms(3) open_writes_append by (auto simp: sending_ok_def)
    then show ?thesis using stop(1,3) assms(3) by (simp add: sending_ok_def)
  next
    case (wait_clients es tr)
    then show ?thesis by (intro keep wait) auto
  next
    case (accept e es ss tr)
    have "\<exists>cs. tr = sv_trace st @ cs \<and> (\<forall>c \<in> set cs. (starting_call c \<or> neutral c) \<and> (\<forall>d data. c \<noteq> Write_call d data))"
      using accept(3) by (auto simp: accept_event_unix_def sys_def Let_def split: if_splits prod.splits)
    then show ?thesis by (intro keep) (use accept(1) in auto)
  next
    case (validate r tr)
    have e: "neutral c \<and> (\<forall>d data. c \<noteq> Write_call d data)" if "epoll_ctl_call c" for c using that by (cases c) simp_all
    from ValidateEPoll_trace(2) [OF validate(3)] obtain cs where "tr = sv_trace st @ cs" "\<forall>c \<in> set cs. epoll_ctl_call c" by blast
    then show ?thesis by (intro keep) (use validate(1) e in auto)
  next
    case (wait_data es tr)
    then show ?thesis by (intro keep wait) auto
  next
    case (read_data e es drops drops' out tr)
    have "\<exists>cs. tr = sv_trace st @ cs \<and> (\<forall>c \<in> set cs. (starting_call c \<or> neutral c) \<and> (\<forall>d data. c \<noteq> Write_call d data))"
      using read_data(3)
      by (auto simp: Ipc_Receiver.read_event_def sys_def Let_def split: prod.splits if_splits option.splits)
    then show ?thesis by (intro keep) (use read_data(1) in auto)
  next
    case (send_data uri data)
    then show ?thesis using assms(3) n
      by (auto simp: sending_ok_def sendData_def dest!: find_idx_Some split: option.splits)
  next
    case (take_packet i data t)
    then have i: "i < n" and q: "\<forall>p \<in> set (listOfDataToSend t). fst p < n"
      using assms(3) by (auto simp: sending_ok_def getHead_def split: list.splits)
    have "\<forall>d \<in> set (clientsDescriptor (sv_sockets st ! i)). d \<in># open_fds os (sv_trace st)"
      using clients_open [OF assms(2) i] by blast
    then show ?thesis using take_packet(1) q assms(3) by (simp add: sending_ok_def getCopyOfClientsDescriptor_def)
  next
    case (send_client i d ds data s tr)
    have tr: "tr = sv_trace st @ [Write_call d data]" using send_forgets [OF send_client(3)] by blast
    have "\<forall>d' \<in> set (d # ds). d' \<in># open_fds os (sv_trace st)" using assms(3) send_client(2) by (simp add: sending_ok_def)
    moreover have "\<forall>c \<in> set [Write_call d data]. starting_call c \<or> neutral c" by simp
    ultimately show ?thesis using assms(3) send_client(1) open_fds_keep [of "[Write_call d data]" _ os "sv_trace st"]
      by (auto simp: sending_ok_def tr open_writes_snoc)
  next
    case (send_done i data)
    then show ?thesis using assms(3) by (simp add: sending_ok_def)
  qed (intro keep; simp)+
qed

text \<open>
  C13. As long as the connector is stopped only when the transmitter is idle, no interleaving of the threads
  writes a packet to a descriptor that is not open at that moment, although the transmitter works on a
  copy of the registry that the receiver may meanwhile have taken clients from: no descriptor is closed
  between the copy and the write, so none can have been given to somebody else.
\<close>

theorem server_writes_open_descriptors:
  assumes "fresh_descriptors os" and "endpoint_events os efd (length ss)"
    and "\<forall>s \<in> set ss. clientsDescriptor s = []"
    and "re_pollingfd (sv_receiver (server_new os ss)) = efd" and "0 \<le> efd"
    and "(server_step os uid capacity True)\<^sup>*\<^sup>* (server_new os ss) st"
    and "sv_trace st = before @ Write_call d data # later"
  shows "d \<in># open_fds os before"
proof -
  have "sending_ok os (length ss) st" using assms(6)
  proof (induction rule: rtranclp_induct)
    case base
    have "sv_trace (server_new os ss) = [Epoll_create 1]" "sv_sending (server_new os ss) = None"
      "listOfDataToSend (sv_transmitter (server_new os ss)) = []"
      by (auto simp: server_new_def IpcReceiver_new_def prepareEPoll_def EPollWorker_new_def sys_def)
    then show ?case by (auto simp: sending_ok_def open_writes_def Cons_eq_append_conv)
  next
    case (step st st')
    from sending_ok_step [OF step.hyps(2) server_inv_reach [OF step.hyps(1) assms(1-5)] step.IH] show ?case .
  qed
  then show ?thesis using assms(7) unfolding sending_ok_def open_writes_def by blast
qed

section \<open>A run\<close>

text \<open>A kernel that gives new numbers, has one client connect, and reports that it hung up.\<close>

definition hangup_os :: "int os" where
  "hangup_os = \<lparr>ret = (\<lambda>tr c. case c of Socket_call \<Rightarrow> 3 | Epoll_create n \<Rightarrow> 10 + int (length tr) | Accept d \<Rightarrow> 10 + int (length tr)
                         | Epoll_wait d n ms \<Rightarrow> 1 | _ \<Rightarrow> 0),
     bytes_in = (\<lambda>tr c. []),
     events_in = (\<lambda>tr c. case c of Epoll_wait d n ms \<Rightarrow> if d = 10 then [(EPOLLHUP, 21)] else [(EPOLLIN, 0)] | _ \<Rightarrow> []),
     ready_in = (\<lambda>tr c. {})\<rparr>"

lemma hangup_os_fresh: "fresh_descriptors hangup_os"
proof -
  have below: "\<forall>d \<in># fds_obtained hangup_os tr. d < 10 + int (length tr)" for tr
  proof (induction tr rule: rev_induct)
    case (snoc c tr)
    then show ?case by (cases c) (auto simp: obtained_def hangup_os_def Let_def)
  qed simp
  have "10 + int (length tr) \<notin># open_fds hangup_os tr" for tr
    using below [of tr] by (fastforce simp: open_fds_def dest: in_diffD)
  then show ?thesis by (simp add: fresh_descriptors_def hangup_os_def)
qed

definition lone_socket :: IpcSocketUnix where
  "lone_socket = plain_socket\<lparr>socketDescriptor := 0, clientsDescriptor := []\<rparr>"

definition started_connector :: "int list \<Rightarrow> IpcConnector" where
  "started_connector ds = \<lparr>co_sockets = [lone_socket\<lparr>socketDescriptor := 3, clientsDescriptor := ds\<rparr>], co_isReady = True,
     co_userGroup = ''ml'', co_pollingfd = 18, co_running = True\<rparr>"

definition start_calls :: "int trace" where
  "start_calls = [Epoll_create 1, Socket_call, Unlink ''/a'', Bind 3 ''/a'', Listen 3 5, Chmod ''/a'', Getgrnam ''ml'', Chown ''/a'' 0,
     Epoll_create 1, Epoll_add 18 3 (EPOLLIN OR EPOLLRDHUP OR EPOLLET) 0]"

lemma hangup_start:
  "IpcConnector_Start hangup_os 0 (IpcConnector_new [lone_socket]) [Epoll_create 1] = (None, started_connector [], start_calls)"
  by (simp add: IpcConnector_Start_def IpcConnector_new_def bindSocket_unix_def applyPermissions_def lone_socket_def plain_socket_def
      hangup_os_def sys_def setSocketDescriptor_def connector_items_def prepareEPoll_items_def addToEPoll_def EPollWorker_new_def
      started_connector_def start_calls_def sun_path_size_def Let_def)

text \<open>The calls until the client has hung up and is forgotten.\<close>

definition session_calls :: "int trace" where
  "session_calls = start_calls @ [Epoll_wait 18 10 1000, Accept 3,
     Epoll_add 10 21 (EPOLLRDHUP OR EPOLLHUP OR EPOLLIN OR EPOLLET) 21, Epoll_wait 10 10 100]"

definition hangup_server :: "int list \<Rightarrow> (u32 \<times> int) list \<Rightarrow> (int \<times> string) list \<Rightarrow> receiver_pc \<Rightarrow> int trace \<Rightarrow> server" where
  "hangup_server ds es managed pc tr = \<lparr>sv_connector = started_connector ds, sv_accepting = es,
     sv_receiver = \<lparr>managedDescriptors = managed, re_pollingfd = 10\<rparr>, sv_pc = pc, sv_dispatched = [],
     sv_transmitter = \<lparr>listOfDataToSend = []\<rparr>, sv_sending = None, sv_trace = tr\<rparr>"

lemma connect_run:
  "(server_step hangup_os 0 20 joined)\<^sup>*\<^sup>* (server_new hangup_os [lone_socket])
     (hangup_server [21] [] [] Validating (start_calls @ [Epoll_wait 18 10 1000, Accept 3]))"
proof -
  let ?step = "server_step hangup_os 0 20 joined" and ?tr2 = "start_calls @ [Epoll_wait 18 10 1000]"
  let ?tr3 = "start_calls @ [Epoll_wait 18 10 1000, Accept 3]"
  have new: "server_new hangup_os [lone_socket] = (hangup_server [] [] [] Validating [Epoll_create 1])
      \<lparr>sv_connector := IpcConnector_new [lone_socket]\<rparr>"
    by (simp add: server_new_def IpcReceiver_new_def prepareEPoll_def EPollWorker_new_def sys_def hangup_server_def hangup_os_def)
  have len: "length start_calls = 10" by (simp add: start_calls_def)
  have w1: "waited_events hangup_os 10 1000 18 start_calls = ([(EPOLLIN, 0)], ?tr2)"
    by (simp add: waited_events_def waitEPoll_def sys_def hangup_os_def)
  have a: "accept_event_unix hangup_os (EPOLLIN, 0) ([lone_socket\<lparr>socketDescriptor := 3\<rparr>], ?tr2) =
      ([lone_socket\<lparr>socketDescriptor := 3, clientsDescriptor := [21]\<rparr>], ?tr3)"
    by (simp add: accept_event_unix_def sys_def hangup_os_def len addClientDecriptor_def lone_socket_def EPOLLIN_def)
  note hs = hangup_server_def started_connector_def
  have l0: "lone_socket\<lparr>socketDescriptor := 3, clientsDescriptor := []\<rparr> = lone_socket\<lparr>socketDescriptor := 3\<rparr>" by (simp add: lone_socket_def)
  have "?step (server_new hangup_os [lone_socket]) (hangup_server [] [] [] Validating start_calls)"
    using server_step.start [of hangup_os 0 "server_new hangup_os [lone_socket]"] hangup_start by (simp add: new hangup_server_def)
  moreover have "?step (hangup_server [] [] [] Validating start_calls) (hangup_server [] [(EPOLLIN, 0)] [] Validating ?tr2)"
    using server_step.wait_clients [of "hangup_server [] [] [] Validating start_calls" hangup_os] w1 by (simp add: hs)
  moreover have "?step (hangup_server [] [(EPOLLIN, 0)] [] Validating ?tr2) (hangup_server [21] [] [] Validating ?tr3)"
    using server_step.accept [where st = "hangup_server [] [(EPOLLIN, 0)] [] Validating ?tr2" and e = "(EPOLLIN, 0)" and os = hangup_os] a
    by (simp add: hs l0)
  ultimately show ?thesis by (meson converse_rtranclp_into_rtranclp rtranclp.rtrancl_refl)
qed

lemma hangup_run:
  "(server_step hangup_os 0 20 joined)\<^sup>*\<^sup>* (server_new hangup_os [lone_socket])
     (hangup_server [] [] [(21, ''a'')] (Purging []) session_calls)"
proof -
  let ?step = "server_step hangup_os 0 20 joined" and ?m = "[(21, ''a'')]"
  let ?tr3 = "start_calls @ [Epoll_wait 18 10 1000, Accept 3]"
  let ?tr4 = "?tr3 @ [Epoll_add 10 21 (EPOLLRDHUP OR EPOLLHUP OR EPOLLIN OR EPOLLET) 21]"
  have c: "collectDescriptors [lone_socket\<lparr>socketDescriptor := 3, clientsDescriptor := [21]\<rparr>] = ?m"
    by (simp add: collectDescriptors_def lone_socket_def plain_socket_def getCopyOfClientsDescriptor_def set_insert_def)
  have v: "ValidateEPoll hangup_os [lone_socket\<lparr>socketDescriptor := 3, clientsDescriptor := [21]\<rparr>]
      \<lparr>managedDescriptors = [], re_pollingfd = 10\<rparr> ?tr3 = (\<lparr>managedDescriptors = ?m, re_pollingfd = 10\<rparr>, ?tr4)"
    by (simp add: ValidateEPoll_def c set_difference_def addToEPoll_def sys_def Let_def)
  have w2: "waited_events hangup_os 10 100 10 ?tr4 = ([(EPOLLHUP, 21)], session_calls)"
    by (simp add: waited_events_def waitEPoll_def sys_def hangup_os_def session_calls_def)
  have r: "Ipc_Receiver.read_event hangup_os 20 ?m (EPOLLHUP, 21) (([], []), session_calls) = (([21], []), session_calls)"
    by (simp add: Ipc_Receiver.read_event_def EPOLLHUP_def EPOLLIN_def)
  have p: "purgeSockets [21] [lone_socket\<lparr>socketDescriptor := 3, clientsDescriptor := [21]\<rparr>] = [lone_socket\<lparr>socketDescriptor := 3\<rparr>]"
    by (simp add: purgeSockets_def findParent_def lone_socket_def getCopyOfClientsDescriptor_def removeClientDescriptor_def)
  note hs = hangup_server_def started_connector_def
  have l0: "lone_socket\<lparr>socketDescriptor := 3, clientsDescriptor := []\<rparr> = lone_socket\<lparr>socketDescriptor := 3\<rparr>" by (simp add: lone_socket_def)
  note connect_run [of joined]
  moreover have "?step (hangup_server [21] [] [] Validating ?tr3) (hangup_server [21] [] ?m Waiting ?tr4)"
    using server_step.validate [of "hangup_server [21] [] [] Validating ?tr3"] v by (simp add: hs)
  moreover have "?step (hangup_server [21] [] ?m Waiting ?tr4) (hangup_server [21] [] ?m (Reading [(EPOLLHUP, 21)] []) session_calls)"
    using server_step.wait_data [of "hangup_server [21] [] ?m Waiting ?tr4"] w2 by (simp add: hs)
  moreover have "?step (hangup_server [21] [] ?m (Reading [(EPOLLHUP, 21)] []) session_calls)
      (hangup_server [21] [] ?m (Reading [] [21]) session_calls)"
    using server_step.read_data [where st = "hangup_server [21] [] ?m (Reading [(EPOLLHUP, 21)] []) session_calls"
        and e = "(EPOLLHUP, 21)" and os = hangup_os and capacity = 20] r by (simp add: hs)
  moreover have "?step (hangup_server [21] [] ?m (Reading [] [21]) session_calls) (hangup_server [21] [] ?m (Purging [21]) session_calls)"
    using server_step.read_done [where st = "hangup_server [21] [] ?m (Reading [] [21]) session_calls" and drops = "[21]"] by (simp add: hs)
  moreover have "?step (hangup_server [21] [] ?m (Purging [21]) session_calls) (hangup_server [] [] ?m (Purging []) session_calls)"
    using server_step.purge [where st = "hangup_server [21] [] ?m (Purging [21]) session_calls" and d = 21 and ds = "[]"] p by (simp add: hs l0)
  ultimately show ?thesis by (meson rtranclp.rtrancl_into_rtrancl)
qed

lemma hangup_stop:
  "server_step hangup_os 0 20 joined (hangup_server [] [] [(21, ''a'')] (Purging []) session_calls)
     ((hangup_server [] [] [(21, ''a'')] (Purging []) (session_calls @ [Close 3, Shutdown 3, Close 18]))
        \<lparr>sv_connector := fst (IpcConnector_Stop hangup_os (started_connector []) session_calls)\<rparr>)"
proof -
  have "snd (IpcConnector_Stop hangup_os (started_connector []) session_calls) = session_calls @ [Close 3, Shutdown 3, Close 18]"
    by (simp add: IpcConnector_Stop_def started_connector_def closeSocket_unix_eq cleanupEPoll_def sys_def)
  then have "IpcConnector_Stop hangup_os (started_connector []) session_calls =
      (fst (IpcConnector_Stop hangup_os (started_connector []) session_calls), session_calls @ [Close 3, Shutdown 3, Close 18])"
    by (metis prod.collapse)
  then show ?thesis
    using server_step.stop [where st = "hangup_server [] [] [(21, ''a'')] (Purging []) session_calls" and os = hangup_os]
    by (simp add: hangup_server_def)
qed


subsection \<open>A packet, and a stop in the middle of it\<close>

definition sending_server :: "int list \<Rightarrow> int trace \<Rightarrow> server" where
  "sending_server ds tr = (hangup_server [21] [] [] Validating tr)\<lparr>sv_sending := Some (0, ds, [7])\<rparr>"

lemma sending_run:
  "(server_step hangup_os 0 20 joined)\<^sup>*\<^sup>* (server_new hangup_os [lone_socket])
     (sending_server [21] (start_calls @ [Epoll_wait 18 10 1000, Accept 3]))"
proof -
  let ?step = "server_step hangup_os 0 20 joined" and ?st = "hangup_server [21] [] [] Validating (start_calls @ [Epoll_wait 18 10 1000, Accept 3])"
  let ?st2 = "?st\<lparr>sv_transmitter := \<lparr>listOfDataToSend = [(0, [7])]\<rparr>\<rparr>"
  note hs = hangup_server_def started_connector_def lone_socket_def plain_socket_def
  note connect_run [of joined]
  moreover have "?step ?st ?st2"
    using server_step.send_data [where st = ?st and uri = "''unix:/a''" and data = "[7]" and os = hangup_os]
    by (simp add: hs sendData_def)
  moreover have "?step ?st2 (sending_server [21] (start_calls @ [Epoll_wait 18 10 1000, Accept 3]))"
    using server_step.take_packet [where st = ?st2 and i = 0 and data = "[7]" and os = hangup_os]
    by (simp add: hs getHead_def sending_server_def getCopyOfClientsDescriptor_def)
  ultimately show ?thesis by (meson rtranclp.rtrancl_into_rtrancl)
qed

theorem server_writes_open_descriptors_witness:
  "\<exists>st before later. (server_step hangup_os 0 20 True)\<^sup>*\<^sup>* (server_new hangup_os [lone_socket]) st \<and>
     sv_trace st = before @ Write_call 21 [7] # later \<and> 21 \<in># open_fds hangup_os before"
proof -
  let ?tr = "start_calls @ [Epoll_wait 18 10 1000, Accept 3]"
  let ?st = "(sending_server [] (?tr @ [Write_call 21 [7]]))"
  have "innerSend_loop_unix hangup_os [21] [7] (s, ?tr) = (s, ?tr @ [Write_call 21 [7]])" for s
    by (simp add: sys_def hangup_os_def)
  then have "server_step hangup_os 0 20 True (sending_server [21] ?tr) ?st"
    using server_step.send_client [where st = "sending_server [21] ?tr" and d = 21 and ds = "[]" and os = hangup_os and i = 0]
    by (simp add: sending_server_def hangup_server_def started_connector_def)
  with sending_run have reach: "(server_step hangup_os 0 20 True)\<^sup>*\<^sup>* (server_new hangup_os [lone_socket]) ?st"
    by (rule rtranclp.rtrancl_into_rtrancl)
  have new: "re_pollingfd (sv_receiver (server_new hangup_os [lone_socket])) = 10"
    by (simp add: server_new_def IpcReceiver_new_def prepareEPoll_def EPollWorker_new_def sys_def hangup_os_def)
  have ev: "endpoint_events hangup_os 10 (length [lone_socket])" by (simp add: endpoint_events_def hangup_os_def)
  have none: "\<forall>s \<in> set [lone_socket]. clientsDescriptor s = []" by (simp add: lone_socket_def)
  have tr: "sv_trace ?st = ?tr @ Write_call 21 [7] # []" by (simp add: sending_server_def hangup_server_def)
  from server_writes_open_descriptors [OF hangup_os_fresh ev none new _ reach tr] reach tr show ?thesis by fastforce
qed

text \<open>
  A connector that is stopped while the transmitter is in the middle of a packet: there is an
  interleaving in which the packet is written to the number of a client that \<open>Stop\<close> has closed already.
\<close>

theorem stop_while_sending_writes_closed:
  "\<exists>st before data later. (server_step hangup_os 0 20 False)\<^sup>*\<^sup>* (server_new hangup_os [lone_socket]) st \<and>
     sv_trace st = before @ Write_call 21 data # later \<and> Close 21 \<in> set before \<and> 21 \<notin># open_fds hangup_os before"
proof -
  let ?tr = "start_calls @ [Epoll_wait 18 10 1000, Accept 3]"
  let ?tr2 = "?tr @ [Close 3, Shutdown 3, Close 21, Shutdown 21, Close 18]"
  obtain c where c: "IpcConnector_Stop hangup_os (started_connector [21]) ?tr = (c, ?tr2)"
    by (simp add: IpcConnector_Stop_def started_connector_def closeSocket_unix_eq cleanupEPoll_def sys_def)
  let ?st = "(sending_server [21] ?tr2)\<lparr>sv_connector := c\<rparr>"
  have "server_step hangup_os 0 20 False (sending_server [21] ?tr) ?st"
    using server_step.stop [where st = "sending_server [21] ?tr" and os = hangup_os and joined = False] c
    by (simp add: sending_server_def hangup_server_def)
  moreover have "innerSend_loop_unix hangup_os [21] [7] (s, ?tr2) = (s, ?tr2 @ [Write_call 21 [7]])" for s
    by (simp add: sys_def hangup_os_def)
  then have "\<exists>st. server_step hangup_os 0 20 False ?st st \<and> sv_trace st = ?tr2 @ Write_call 21 [7] # []"
    using server_step.send_client [where st = ?st and d = 21 and ds = "[]" and os = hangup_os and i = 0 and data = "[7]" and joined = False]
    by (intro exI conjI) (auto simp: sending_server_def hangup_server_def)
  then obtain st where st: "server_step hangup_os 0 20 False ?st st" "sv_trace st = ?tr2 @ Write_call 21 [7] # []" by blast
  ultimately have "(server_step hangup_os 0 20 False)\<^sup>*\<^sup>* (server_new hangup_os [lone_socket]) st"
    using sending_run [of False] by (meson rtranclp.rtrancl_into_rtrancl)
  moreover have "21 \<notin># open_fds hangup_os ?tr2"
    by (simp add: open_fds_def fds_obtained_def fds_closed_def start_calls_def obtained_def released_def hangup_os_def Let_def)
  moreover have "Close 21 \<in> set ?tr2" by simp
  ultimately show ?thesis using st(2) by blast
qed

end
