(* ===== verification/Windows_Session.thy ===== *)
theory Windows_Session
  imports Connector_Session
begin

text \<open>
  \<open>IpcConnector\<close> with its Windows implementation: \<open>Start\<close>, \<open>Loop\<close> and \<open>Stop\<close> of IpcConnector.cpp over the
  endpoints of IpcConnectorWindows.cpp, whose own \<open>start\<close> and \<open>stop\<close> do nothing, and the descriptors of its
  sessions. It is a second model of the locale \<open>closing_session\<close>.
\<close>

section \<open>The connector\<close>

record IpcConnectorW =
  cw_sockets :: "IpcSocketWindows list"
  cw_isReady :: bool
  cw_running :: bool

definition IpcConnectorW_new :: "IpcSocketWindows list \<Rightarrow> IpcConnectorW" where
  "IpcConnectorW_new sockets = \<lparr>cw_sockets = sockets, cw_isReady = False, cw_running = False\<rparr>"

definition start_windows :: "IpcSocketWindows list \<times> SOCKET trace \<Rightarrow> IpcSocketWindows list \<times> SOCKET trace" where
  "start_windows st = st"

definition stop_windows :: "IpcSocketWindows list \<times> SOCKET trace \<Rightarrow> IpcSocketWindows list \<times> SOCKET trace" where
  "stop_windows st = st"

fun bind_all_windows ::
  "(SOCKET, 'z) os_scheme \<Rightarrow> IpcSocketWindows list \<Rightarrow> SOCKET trace \<Rightarrow> string option \<times> IpcSocketWindows list \<times> SOCKET trace" where
  "bind_all_windows os [] tr = (None, [], tr)"
| "bind_all_windows os (s # ss) tr =
     (case bindSocket_windows os s tr of
        (False, s, tr) \<Rightarrow> (Some (w_socketUri s), s # ss, tr)
      | (True, s, tr) \<Rightarrow> (case bind_all_windows os ss tr of (e, ss, tr) \<Rightarrow> (e, s # ss, tr)))"

definition IpcConnectorW_Start ::
  "(SOCKET, 'z) os_scheme \<Rightarrow> IpcConnectorW \<Rightarrow> SOCKET trace \<Rightarrow> ipc_error option \<times> IpcConnectorW \<times> SOCKET trace" where
  "IpcConnectorW_Start os c tr =
     (if cw_isReady c then (None, c, tr)
      else case bind_all_windows os (cw_sockets c) tr of
        (Some uri, ss, tr) \<Rightarrow> (Some (LogicErr (''Can'' @ CHR 0x27 # ''t bind to '' @ uri)), c\<lparr>cw_sockets := ss\<rparr>, tr)
      | (None, ss, tr) \<Rightarrow>
          (case start_windows (ss, tr) of
             (ss, tr) \<Rightarrow> (None, c\<lparr>cw_sockets := ss, cw_running := True, cw_isReady := True\<rparr>, tr)))"

fun close_all_windows :: "(SOCKET, 'z) os_scheme \<Rightarrow> IpcSocketWindows list \<Rightarrow> SOCKET trace \<Rightarrow> IpcSocketWindows list \<times> SOCKET trace" where
  "close_all_windows os [] tr = ([], tr)"
| "close_all_windows os (s # ss) tr =
     (case closeSocket_windows os s tr of (s, tr) \<Rightarrow> case close_all_windows os ss tr of (ss, tr) \<Rightarrow> (s # ss, tr))"

definition IpcConnectorW_Stop :: "(SOCKET, 'z) os_scheme \<Rightarrow> IpcConnectorW \<Rightarrow> SOCKET trace \<Rightarrow> IpcConnectorW \<times> SOCKET trace" where
  "IpcConnectorW_Stop os c tr =
     (if \<not> cw_isReady c then (c, tr)
      else case stop_windows (close_all_windows os (cw_sockets c) tr) of
        (ss, tr) \<Rightarrow> (c\<lparr>cw_sockets := ss, cw_running := False, cw_isReady := False\<rparr>, tr))"

definition IpcConnectorW_Loop :: "(SOCKET, 'z) os_scheme \<Rightarrow> IpcConnectorW \<Rightarrow> SOCKET trace \<Rightarrow> IpcConnectorW \<times> SOCKET trace" where
  "IpcConnectorW_Loop os c tr =
     (case connector_loop_windows os (cw_sockets c, tr) of (ss, tr) \<Rightarrow> (c\<lparr>cw_sockets := ss\<rparr>, tr))"

section \<open>Descriptors\<close>

text \<open>\<open>socket\<close> and \<open>accept\<close> return a descriptor or \<open>INVALID_SOCKET\<close>.\<close>

definition obtained_windows :: "(SOCKET, 'z) os_scheme \<Rightarrow> SOCKET trace \<Rightarrow> SOCKET os_call \<Rightarrow> SOCKET list" where
  "obtained_windows os tr c =
     (let d = word_of_int (ret os tr c) in
      case c of
        Socket_call \<Rightarrow> if d = INVALID_SOCKET then [] else [d]
      | Accept e \<Rightarrow> if d = INVALID_SOCKET then [] else [d]
      | _ \<Rightarrow> [])"

definition sockets_obtained :: "(SOCKET, 'z) os_scheme \<Rightarrow> SOCKET trace \<Rightarrow> SOCKET multiset" where
  "sockets_obtained os tr = mset (gather (obtained_windows os) [] tr)"

lemma sockets_simps [simp]:
  "sockets_obtained os [] = {#}" "sockets_obtained os (tr @ [c]) = sockets_obtained os tr + mset (obtained_windows os tr c)"
  by (simp_all add: sockets_obtained_def)

definition socket_fds :: "IpcSocketWindows list \<Rightarrow> SOCKET multiset" where
  "socket_fds ss = (\<Sum>s \<leftarrow> ss. mset (socketDescriptor s # clientsDescriptor s))"

lemma socket_fds_simps [simp]:
  "socket_fds [] = {#}" "socket_fds (s # ss) = {#socketDescriptor s#} + mset (clientsDescriptor s) + socket_fds ss"
  by (simp_all add: socket_fds_def)

definition balanced_windows :: "(SOCKET, 'z) os_scheme \<Rightarrow> SOCKET multiset \<Rightarrow> SOCKET trace \<Rightarrow> bool" where
  "balanced_windows os held tr \<longleftrightarrow> sockets_obtained os tr = held + fds_closed tr"

definition fresh_accepts_windows :: "(SOCKET, 'z) os_scheme \<Rightarrow> bool" where
  "fresh_accepts_windows os \<longleftrightarrow>
     (\<forall>tr d. word_of_int (ret os tr (Accept d)) \<notin># sockets_obtained os tr - fds_closed tr)"

lemma bindSocket_windows_obtains:
  assumes "bindSocket_windows os s tr = (True, s', tr')"
  shows "sockets_obtained os tr' = add_mset (socketDescriptor s') (sockets_obtained os tr) \<and> fds_closed tr' = fds_closed tr \<and>
     clientsDescriptor s' = clientsDescriptor s"
proof -
  let ?d = "word_of_int (ret os tr Socket_call) :: SOCKET"
  have s': "s' = setSocketDescriptor ?d s" "?d \<noteq> INVALID_SOCKET"
    and tr': "tr' = tr @ [Socket_call, Resolve (w_host s'), Bind_port ?d (w_port s'), Listen ?d 1, Set_nonblock ?d]"
    using assms by (auto simp: bindSocket_windows_def sys_def Let_def setSocketToNonBlock_def setSocketDescriptor_def
        split: if_splits prod.splits)
  have tr'': "tr' = ((((tr @ [Socket_call]) @ [Resolve (w_host s')]) @ [Bind_port ?d (w_port s')]) @ [Listen ?d 1]) @ [Set_nonblock ?d]"
    by (simp add: tr')
  show ?thesis unfolding tr'' using s'
    by (simp only: sockets_simps fds_simps) (simp add: obtained_windows_def released_def setSocketDescriptor_def Let_def)
qed

lemma bind_all_windows_obtains:
  "bind_all_windows os ss tr = (None, ss', tr') \<Longrightarrow>
   sockets_obtained os tr' = sockets_obtained os tr + mset (map socketDescriptor ss') \<and> fds_closed tr' = fds_closed tr \<and>
   map clientsDescriptor ss' = map clientsDescriptor ss"
proof (induction ss arbitrary: tr ss' tr')
  case (Cons s ss)
  obtain ok s1 tr1 where b: "bindSocket_windows os s tr = (ok, s1, tr1)" by (cases "bindSocket_windows os s tr")
  obtain e ss1 tr2 where r: "bind_all_windows os ss tr1 = (e, ss1, tr2)" by (cases "bind_all_windows os ss tr1")
  have "ok" "e = None" "ss' = s1 # ss1" "tr' = tr2" using Cons.prems b r by (auto split: bool.splits)
  with Cons.IH [of tr1 ss1 tr2] r b bindSocket_windows_obtains [of os s tr s1 tr1] show ?case by simp
qed simp

lemma fds_of_idle: "\<forall>s \<in> set ss. clientsDescriptor s = [] \<Longrightarrow> socket_fds ss = mset (map socketDescriptor ss)"
  by (induction ss) simp_all

lemma close_calls_windows:
  "sockets_obtained os (tr @ map Close ds) = sockets_obtained os tr \<and> fds_closed (tr @ map Close ds) = fds_closed tr + mset ds"
proof (induction ds arbitrary: tr)
  case (Cons d ds)
  have "tr @ map Close (d # ds) = (tr @ [Close d]) @ map Close ds" by simp
  then show ?case using Cons.IH [of "tr @ [Close d]"] by (simp only: fds_simps sockets_simps) (simp add: obtained_windows_def released_def)
qed simp

lemma fold_closes: "fold (\<lambda>d tr. tr @ [Close d]) ds tr = tr @ map Close ds"
  by (induction ds arbitrary: tr) auto

lemma closeSocket_windows_eq:
  "closeSocket_windows os s tr = (s\<lparr>socketDescriptor := INVALID_SOCKET, clientsDescriptor := []\<rparr>,
     tr @ map Close (socketDescriptor s # clientsDescriptor s))"
  by (simp add: closeSocket_windows_def sys_def Let_def fold_closes setSocketDescriptor_def getCopyOfClientsDescriptor_def
      clearClientsDescriptor_def)

lemma close_all_windows_calls:
  "close_all_windows os ss tr = (ss', tr') \<Longrightarrow>
   sockets_obtained os tr' = sockets_obtained os tr \<and> fds_closed tr' = fds_closed tr + socket_fds ss \<and>
   (\<forall>s \<in> set ss'. clientsDescriptor s = [])"
proof (induction ss arbitrary: tr ss' tr')
  case (Cons s ss)
  let ?tr = "tr @ map Close (socketDescriptor s # clientsDescriptor s)"
  obtain ss1 tr1 where r: "close_all_windows os ss ?tr = (ss1, tr1)" by (cases "close_all_windows os ss ?tr")
  have "tr' = tr1" "ss' = s\<lparr>socketDescriptor := INVALID_SOCKET, clientsDescriptor := []\<rparr> # ss1"
    using Cons.prems r by (simp_all add: closeSocket_windows_eq)
  with Cons.IH [OF r] close_calls_windows [of os tr "socketDescriptor s # clientsDescriptor s"] show ?case by simp
qed simp

section \<open>Accepting\<close>

lemma collect_balanced:
  assumes "fresh_accepts_windows os" "balanced_windows os (socket_fds [s] + h) tr"
    and "collectSocket os (word_of_int (ret os tr (Accept e))) (s, tr @ [Accept e]) = (s', tr')"
  shows "balanced_windows os (socket_fds [s'] + h) tr'"
proof -
  let ?d = "word_of_int (ret os tr (Accept e)) :: SOCKET" and ?tr1 = "tr @ [Accept e]"
  show ?thesis
  proof (cases "?d = INVALID_SOCKET")
    case True
    then have "s' = s" "tr' = tr @ [Accept e]" using assms(3) by (simp_all add: collectSocket_def)
    with True show ?thesis using assms(2) by (simp add: balanced_windows_def obtained_windows_def released_def)
  next
    case False
    have "?d \<notin># socket_fds [s] + h"
      using assms(1,2) by (auto simp: fresh_accepts_windows_def balanced_windows_def dest!: spec [of _ tr] spec [of _ e])
    then have new: "?d \<notin> set (clientsDescriptor s)" by simp
    have acc: "balanced_windows os (add_mset ?d (socket_fds [s] + h)) ?tr1"
      using assms(2) False by (simp add: balanced_windows_def obtained_windows_def released_def)
    have nb: "balanced_windows os (add_mset ?d (socket_fds [s] + h)) (?tr1 @ [Set_nonblock ?d])"
      using acc unfolding balanced_windows_def by (simp only: sockets_simps fds_simps) (simp add: obtained_windows_def released_def)
    show ?thesis
    proof (cases "ret os ?tr1 (Set_nonblock ?d) = 0")
      case True
      then have "s' = addClientDecriptor ?d s" "tr' = ?tr1 @ [Set_nonblock ?d]"
        using assms(3) False by (auto simp: collectSocket_def setSocketToNonBlock_def sys_def)
      then show ?thesis using nb new by (simp add: addClientDecriptor_def)
    next
      case ok: False
      then have "s' = s" "tr' = (?tr1 @ [Set_nonblock ?d]) @ [Close ?d]"
        using assms(3) False by (auto simp: collectSocket_def setSocketToNonBlock_def sys_def)
      then show ?thesis using nb unfolding balanced_windows_def
        by (simp only: sockets_simps fds_simps) (simp add: obtained_windows_def released_def)
    qed
  qed
qed

lemma accepting_balanced:
  assumes "fresh_accepts_windows os"
  shows "balanced_windows os (socket_fds ss + h) tr \<Longrightarrow> acceptIncommingSockets os matcher (ss, tr) = (ss', tr') \<Longrightarrow>
    balanced_windows os (socket_fds ss' + h) tr'"
proof (induction ss arbitrary: h tr ss' tr')
  case (Cons s ss)
  obtain s1 tr1 where one: "(if matcher (socketDescriptor s)
      then collectSocket os (word_of_int (ret os tr (Accept (socketDescriptor s)))) (s, tr @ [Accept (socketDescriptor s)]) else (s, tr)) = (s1, tr1)"
    by fastforce
  obtain ss1 tr2 where r: "acceptIncommingSockets os matcher (ss, tr1) = (ss1, tr2)" by fastforce
  have res: "ss' = s1 # ss1" "tr' = tr2" using Cons.prems(2) one r by (simp_all add: sys_def Let_def split: prod.splits if_splits)
  have "balanced_windows os (socket_fds [s] + (socket_fds ss + h)) tr" using Cons.prems(1) by (simp add: ac_simps)
  then have "balanced_windows os (socket_fds [s1] + (socket_fds ss + h)) tr1"
    using collect_balanced [OF assms] one by (auto split: if_splits)
  then have "balanced_windows os (socket_fds ss + (socket_fds [s1] + h)) tr1" by (simp add: ac_simps)
  from Cons.IH [OF this r] show ?case by (simp add: res ac_simps)
qed simp

section \<open>Its sessions\<close>

definition windows_startable :: "(SOCKET, 'z) os_scheme \<Rightarrow> IpcConnectorW \<Rightarrow> bool" where
  "windows_startable os c \<longleftrightarrow> fresh_accepts_windows os \<and> \<not> cw_isReady c \<and> (\<forall>s \<in> set (cw_sockets c). clientsDescriptor s = [])"

definition windows_started :: "(SOCKET, 'z) os_scheme \<Rightarrow> IpcConnectorW \<Rightarrow> bool" where
  "windows_started os c \<longleftrightarrow> fresh_accepts_windows os \<and> cw_isReady c"

interpretation windows: closing_session "IpcConnectorW_Start os" "IpcConnectorW_Loop os" "IpcConnectorW_Stop os"
  "\<lambda>c. socket_fds (cw_sockets c)" "sockets_obtained os" fds_closed "windows_startable os" "windows_started os" for os
proof
  fix c tr c' tr'
  assume c: "windows_startable os c" "IpcConnectorW_Start os c tr = (None, c', tr')"
  obtain e ss tr1 where b: "bind_all_windows os (cw_sockets c) tr = (e, ss, tr1)" by (cases "bind_all_windows os (cw_sockets c) tr")
  have e: "e = None" "c' = c\<lparr>cw_sockets := ss, cw_running := True, cw_isReady := True\<rparr>" "tr' = tr1"
    using c b by (auto simp: IpcConnectorW_Start_def windows_startable_def start_windows_def split: option.splits)
  note bind = bind_all_windows_obtains [OF b [unfolded e(1)]]
  then have "\<forall>s \<in> set ss. clientsDescriptor s = []"
    using c(1) unfolding windows_startable_def by (metis (mono_tags, lifting) image_iff image_set)
  with bind c(1) show "sockets_obtained os tr' = sockets_obtained os tr + socket_fds (cw_sockets c') \<and>
      fds_closed tr' = fds_closed tr \<and> windows_started os c'"
    by (simp add: e fds_of_idle windows_started_def windows_startable_def)
next
  fix c tr c' tr'
  assume c: "windows_started os c" "sockets_obtained os tr = socket_fds (cw_sockets c) + fds_closed tr"
    "IpcConnectorW_Loop os c tr = (c', tr')"
  let ?c = "Select (FdSet_new (map socketDescriptor (cw_sockets c))) 500"
  have sel: "balanced_windows os (socket_fds (cw_sockets c) + {#}) (tr @ [?c])"
    using c(2) by (simp add: balanced_windows_def obtained_windows_def released_def)
  obtain ss tr1 where l: "connector_loop_windows os (cw_sockets c, tr) = (ss, tr1)"
    by (cases "connector_loop_windows os (cw_sockets c, tr)")
  have "balanced_windows os (socket_fds ss + {#}) tr1"
    using l sel accepting_balanced [OF _ sel] c(1)
    by (auto simp: connector_loop_windows_def SelectWrapper_call_def sys_def Let_def windows_started_def split: if_splits)
  then show "sockets_obtained os tr' = socket_fds (cw_sockets c') + fds_closed tr' \<and> windows_started os c'"
    using c(1,3) l by (auto simp: IpcConnectorW_Loop_def balanced_windows_def windows_started_def)
next
  fix c tr c' tr'
  assume c: "windows_started os c" "sockets_obtained os tr = socket_fds (cw_sockets c) + fds_closed tr"
    "IpcConnectorW_Stop os c tr = (c', tr')"
  obtain ss tr1 where cl: "close_all_windows os (cw_sockets c) tr = (ss, tr1)" by (cases "close_all_windows os (cw_sockets c) tr")
  from close_all_windows_calls [OF cl] c cl show "sockets_obtained os tr' = fds_closed tr' \<and> windows_startable os c'"
    by (auto simp: IpcConnectorW_Stop_def windows_started_def windows_startable_def stop_windows_def)
qed

text \<open>
  The connector on Windows: after any number of sessions, each with any number of turns of the loop,
  the sockets that were obtained, listening or accepted, and those that were closed are the same, each as
  often; also the connections that could not be made non-blocking were closed. The kernel is assumed to
  give \<open>accept\<close> only descriptors that are not open.
\<close>

theorem windows_sessions_close_all:
  assumes "fresh_accepts_windows os" and "\<forall>s \<in> set ss. clientsDescriptor s = []"
    and "sessions (IpcConnectorW_Start os) (IpcConnectorW_Loop os) (IpcConnectorW_Stop os) ns (IpcConnectorW_new ss) [] = Some (c, tr)"
  shows "sockets_obtained os tr = fds_closed tr"
proof -
  have "windows_startable os (IpcConnectorW_new ss)"
    using assms(1,2) by (simp add: windows_startable_def IpcConnectorW_new_def)
  from windows.sessions_close [OF this _ assms(3)] show ?thesis by simp
qed

text \<open>A kernel that has one connection to give.\<close>

fun is_accept :: "'d os_call \<Rightarrow> bool" where
  "is_accept (Accept d) = True"
| "is_accept c = False"

definition one_client_os :: "SOCKET os" where
  "one_client_os = \<lparr>ret = (\<lambda>tr c. case c of Socket_call \<Rightarrow> 3 | Accept d \<Rightarrow> if filter is_accept tr = [] then 7 else - 1
                         | Select ds ms \<Rightarrow> 1 | _ \<Rightarrow> 0),
     bytes_in = (\<lambda>tr c. []), events_in = (\<lambda>tr c. []), ready_in = (\<lambda>tr c. {3})\<rparr>"

lemma one_client_fresh: "fresh_accepts_windows one_client_os"
proof -
  have none: "filter is_accept tr = [] \<Longrightarrow> set_mset (sockets_obtained one_client_os tr) \<subseteq> {3}" for tr
  proof (induction tr rule: rev_induct)
    case (snoc c tr)
    then show ?case by (cases c) (auto simp: obtained_windows_def one_client_os_def split: if_splits)
  qed simp
  have valid: "INVALID_SOCKET \<notin># sockets_obtained one_client_os tr" for tr
  proof (induction tr rule: rev_induct)
    case (snoc c tr)
    then show ?case by (cases c) (auto simp: obtained_windows_def Let_def split: if_splits)
  qed simp
  show ?thesis unfolding fresh_accepts_windows_def
  proof (intro allI)
    fix tr d
    show "word_of_int (ret one_client_os tr (Accept d)) \<notin># sockets_obtained one_client_os tr - fds_closed tr"
    proof (cases "filter is_accept tr = []")
      case True
      then have "ret one_client_os tr (Accept d) = 7" by (simp add: one_client_os_def)
      then show ?thesis using none [OF True] by (fastforce dest: in_diffD)
    next
      case False
      then have "ret one_client_os tr (Accept d) = - 1" by (simp add: one_client_os_def)
      then show ?thesis using valid [of tr] by (auto simp: INVALID_SOCKET_def dest: in_diffD)
    qed
  qed
qed

definition windows_socket :: IpcSocketWindows where
  "windows_socket = \<lparr>socketDescriptor = 0, clientsDescriptor = [], w_socketUri = ''tcp://h:80'', w_socketName = ''a'', w_port = 80,
     w_host = ''h''\<rparr>"

lemma two_turns: "loop_turns turn 2 c tr = (case turn c tr of (c, tr) \<Rightarrow> turn c tr)"
  by (simp add: numeral_2_eq_2 split: prod.split)

theorem windows_sessions_close_all_witness:
  "\<exists>c tr. sessions (IpcConnectorW_Start one_client_os) (IpcConnectorW_Loop one_client_os) (IpcConnectorW_Stop one_client_os) [2, 1]
       (IpcConnectorW_new [windows_socket]) [] = Some (c, tr) \<and>
     Close 7 \<in> set tr \<and> sockets_obtained one_client_os tr = fds_closed tr"
proof -
  let ?run = "sessions (IpcConnectorW_Start one_client_os) (IpcConnectorW_Loop one_client_os) (IpcConnectorW_Stop one_client_os) [2, 1]
       (IpcConnectorW_new [windows_socket]) []"
  have "\<exists>c tr. ?run = Some (c, tr) \<and> Close 7 \<in> set tr"
    by (simp add: two_turns IpcConnectorW_new_def IpcConnectorW_Start_def IpcConnectorW_Loop_def IpcConnectorW_Stop_def
        connector_loop_windows_def SelectWrapper_call_def FdSet_new_def FdSet_addSocket_def bindSocket_windows_def
        setSocketToNonBlock_def collectSocket_def closeSocket_windows_eq windows_socket_def one_client_os_def sys_def
        setSocketDescriptor_def addClientDecriptor_def start_windows_def stop_windows_def INVALID_SOCKET_def Let_def)
  then obtain c tr where run: "?run = Some (c, tr)" "Close 7 \<in> set tr" by blast
  have none: "\<forall>s \<in> set [windows_socket]. clientsDescriptor s = []" by (simp add: windows_socket_def)
  from windows_sessions_close_all [OF one_client_fresh none run(1)] run show ?thesis by blast
qed

end
