(* ===== verification/Windows_Server.thy ===== *)
theory Windows_Server
  imports Windows_Session Ipc_Transmitter
begin

text \<open>
  A server on Windows: the connector and the transmitter over the same endpoints, cut into the steps
  between which the other thread can run. The receiver only reads the registries, so it takes no part in
  what becomes of a descriptor. Which packet is sent, and to which endpoint, is left open.
\<close>

section \<open>The connector's turn, endpoint by endpoint\<close>

definition accept_at ::
  "(SOCKET, 'z) os_scheme \<Rightarrow> nat \<Rightarrow> IpcSocketWindows list \<times> SOCKET trace \<Rightarrow> IpcSocketWindows list \<times> SOCKET trace" where
  "accept_at os i st =
     (case st of (ss, tr) \<Rightarrow>
        let (r, tr) = sys os (Accept (socketDescriptor (ss ! i))) tr;
            (s, tr) = collectSocket os (word_of_int r) (ss ! i, tr)
        in (ss[i := s], tr))"

definition ready_at :: "(SOCKET \<Rightarrow> bool) \<Rightarrow> IpcSocketWindows list \<Rightarrow> nat list" where
  "ready_at matcher ss = filter (\<lambda>i. matcher (socketDescriptor (ss ! i))) [0..<length ss]"

lemma accepting_positions:
  "fold (accept_at os) (filter (\<lambda>i. matcher (socketDescriptor ((pre @ ss) ! i))) [length pre..<length pre + length ss]) (pre @ ss, tr) =
     (case acceptIncommingSockets os matcher (ss, tr) of (ss, tr) \<Rightarrow> (pre @ ss, tr))"
proof (induction ss arbitrary: pre tr)
  case (Cons s ss)
  let ?n = "length pre"
  have range: "[?n..<?n + length (s # ss)] = ?n # [Suc ?n..<Suc ?n + length ss]"
    using upt_conv_Cons [of ?n "?n + length (s # ss)"] by simp
  obtain s1 tr1 where one: "(if matcher (socketDescriptor s)
      then collectSocket os (word_of_int (ret os tr (Accept (socketDescriptor s)))) (s, tr @ [Accept (socketDescriptor s)]) else (s, tr)) = (s1, tr1)"
    by fastforce
  have len: "length (pre @ [s1]) = Suc ?n" by simp
  have same: "filter (\<lambda>i. matcher (socketDescriptor ((pre @ s # ss) ! i))) [Suc ?n..<Suc ?n + length ss] =
      filter (\<lambda>i. matcher (socketDescriptor (((pre @ [s1]) @ ss) ! i))) [Suc ?n..<Suc ?n + length ss]"
    by (rule filter_cong) (auto simp: nth_append nth_Cons')
  have rest: "fold (accept_at os) (filter (\<lambda>i. matcher (socketDescriptor ((pre @ s # ss) ! i))) [Suc ?n..<Suc ?n + length ss])
      (pre @ s1 # ss, tr1) = (case acceptIncommingSockets os matcher (ss, tr1) of (ss, tr) \<Rightarrow> (pre @ s1 # ss, tr))"
    unfolding same using Cons.IH [of "pre @ [s1]" tr1] unfolding len by simp
  have at: "matcher (socketDescriptor s) \<Longrightarrow> accept_at os ?n (pre @ s # ss, tr) = (pre @ s1 # ss, tr1)"
    using one by (simp add: accept_at_def sys_def)
  have acc: "acceptIncommingSockets os matcher (s # ss, tr) =
      (case acceptIncommingSockets os matcher (ss, tr1) of (ss, tr) \<Rightarrow> (s1 # ss, tr))"
    using one by (simp add: sys_def Let_def split: if_splits)
  show ?case
  proof (cases "matcher (socketDescriptor s)")
    case True
    then show ?thesis using rest at acc by (simp only: range) (simp split: prod.splits)
  next
    case False
    then have "s1 = s" "tr1 = tr" using one by simp_all
    then show ?thesis using False rest acc by (simp only: range) (simp split: prod.splits)
  qed
qed simp

lemma acceptIncommingSockets_positions:
  "acceptIncommingSockets os matcher (ss, tr) = fold (accept_at os) (ready_at matcher ss) (ss, tr)"
  using accepting_positions [where pre = "[]" and ss = ss and os = os and matcher = matcher and tr = tr]
  by (simp add: ready_at_def split: prod.splits)

section \<open>The threads\<close>

text \<open>
  \<open>ws_accepting\<close> are the endpoints the connector's turn still has to look at, \<open>ws_sending\<close> the endpoint and
  the copy of its clients that a packet still has to be sent to, \<open>ws_closing\<close> a client that was taken out of
  the registry and is about to be closed. With \<open>joined\<close> the connector is stopped only when the transmitter
  is idle.
\<close>

record windows_server =
  ws_connector :: IpcConnectorW
  ws_accepting :: "nat list"
  ws_sending :: "(nat \<times> SOCKET list) option"
  ws_closing :: "SOCKET list"
  ws_trace :: "SOCKET trace"

abbreviation ws_sockets :: "windows_server \<Rightarrow> IpcSocketWindows list" where
  "ws_sockets st \<equiv> cw_sockets (ws_connector st)"

abbreviation with_ws_sockets :: "IpcSocketWindows list \<Rightarrow> windows_server \<Rightarrow> windows_server" where
  "with_ws_sockets ss st \<equiv> st\<lparr>ws_connector := (ws_connector st)\<lparr>cw_sockets := ss\<rparr>\<rparr>"

definition select_ready :: "(SOCKET, 'z) os_scheme \<Rightarrow> IpcSocketWindows list \<Rightarrow> SOCKET trace \<Rightarrow> nat list \<times> SOCKET trace" where
  "select_ready os ss tr =
     SelectWrapper_call os (FdSet_new (map socketDescriptor ss)) 500 (\<lambda>matcher (_, tr). (ready_at matcher ss, tr)) ([], tr)"

inductive windows_step :: "(SOCKET, 'z) os_scheme \<Rightarrow> bool \<Rightarrow> windows_server \<Rightarrow> windows_server \<Rightarrow> bool" for os joined where
  w_start: "IpcConnectorW_Start os (ws_connector st) (ws_trace st) = (None, c, tr) \<Longrightarrow>
    windows_step os joined st (st\<lparr>ws_connector := c, ws_trace := tr\<rparr>)"
| w_stop: "ws_accepting st = [] \<Longrightarrow> (joined \<longrightarrow> ws_sending st = None) \<Longrightarrow>
    IpcConnectorW_Stop os (ws_connector st) (ws_trace st) = (c, tr) \<Longrightarrow>
    windows_step os joined st (st\<lparr>ws_connector := c, ws_trace := tr\<rparr>)"
| w_select: "cw_running (ws_connector st) \<Longrightarrow> ws_accepting st = [] \<Longrightarrow>
    select_ready os (ws_sockets st) (ws_trace st) = (is, tr) \<Longrightarrow>
    windows_step os joined st (st\<lparr>ws_accepting := is, ws_trace := tr\<rparr>)"
| w_accept: "ws_accepting st = i # is \<Longrightarrow> accept_at os i (ws_sockets st, ws_trace st) = (ss, tr) \<Longrightarrow>
    windows_step os joined st ((with_ws_sockets ss st)\<lparr>ws_accepting := is, ws_trace := tr\<rparr>)"
| w_packet: "ws_sending st = None \<Longrightarrow> i < length (ws_sockets st) \<Longrightarrow>
    windows_step os joined st (st\<lparr>ws_sending := Some (i, getCopyOfClientsDescriptor (ws_sockets st ! i))\<rparr>)"
| w_sent: "ws_sending st = Some (i, d # ds) \<Longrightarrow> ws_closing st = [] \<Longrightarrow>
    sys os (Send_call d data) (ws_trace st) = (result, tr) \<Longrightarrow> result \<noteq> - 1 \<Longrightarrow>
    windows_step os joined st (st\<lparr>ws_sending := Some (i, ds), ws_trace := tr\<rparr>)"
| w_send_fails: "ws_sending st = Some (i, d # ds) \<Longrightarrow> ws_closing st = [] \<Longrightarrow>
    sys os (Send_call d data) (ws_trace st) = (result, tr) \<Longrightarrow> result = - 1 \<Longrightarrow>
    windows_step os joined st
      ((with_ws_sockets ((ws_sockets st)[i := removeClientDescriptor d (ws_sockets st ! i)]) st)
         \<lparr>ws_sending := Some (i, ds), ws_closing := [d], ws_trace := tr\<rparr>)"
| w_close: "ws_closing st = [d] \<Longrightarrow> sys os (Close d) (ws_trace st) = (result, tr) \<Longrightarrow>
    windows_step os joined st (st\<lparr>ws_closing := [], ws_trace := tr\<rparr>)"
| w_done: "ws_sending st = Some (i, []) \<Longrightarrow> ws_closing st = [] \<Longrightarrow> windows_step os joined st (st\<lparr>ws_sending := None\<rparr>)"

definition windows_server_new :: "IpcSocketWindows list \<Rightarrow> windows_server" where
  "windows_server_new sockets =
     \<lparr>ws_connector = IpcConnectorW_new sockets, ws_accepting = [], ws_sending = None, ws_closing = [], ws_trace = []\<rparr>"

section \<open>The steps are those of the loops\<close>

lemma select_ready_loop:
  "connector_loop_windows os (ss, tr) = (case select_ready os ss tr of (is, tr) \<Rightarrow> fold (accept_at os) is (ss, tr))"
  by (simp add: connector_loop_windows_def select_ready_def SelectWrapper_call_def sys_def Let_def acceptIncommingSockets_positions)

lemma windows_then:
  "windows_step os joined a b \<Longrightarrow> (windows_step os joined)\<^sup>*\<^sup>* b c \<Longrightarrow> (windows_step os joined)\<^sup>*\<^sup>* a c"
  by (rule converse_rtranclp_into_rtranclp)

lemma windows_accept_steps:
  "ws_accepting st = is \<Longrightarrow> fold (accept_at os) is (ws_sockets st, ws_trace st) = (ss, tr) \<Longrightarrow>
   (windows_step os joined)\<^sup>*\<^sup>* st ((with_ws_sockets ss st)\<lparr>ws_accepting := [], ws_trace := tr\<rparr>)"
proof (induction "is" arbitrary: st)
  case Nil
  then have "(with_ws_sockets ss st)\<lparr>ws_accepting := [], ws_trace := tr\<rparr> = st" by (cases st) auto
  then show ?case by simp
next
  case (Cons i rest)
  obtain ss1 tr1 where a: "accept_at os i (ws_sockets st, ws_trace st) = (ss1, tr1)"
    by (cases "accept_at os i (ws_sockets st, ws_trace st)")
  let ?st = "(with_ws_sockets ss1 st)\<lparr>ws_accepting := rest, ws_trace := tr1\<rparr>"
  have "(windows_step os joined)\<^sup>*\<^sup>* ?st ((with_ws_sockets ss ?st)\<lparr>ws_accepting := [], ws_trace := tr\<rparr>)"
    by (rule Cons.IH) (use Cons.prems(2) a in simp_all)
  moreover have "windows_step os joined st ?st" by (rule windows_step.w_accept [OF Cons.prems(1) a])
  ultimately have "(windows_step os joined)\<^sup>*\<^sup>* st ((with_ws_sockets ss ?st)\<lparr>ws_accepting := [], ws_trace := tr\<rparr>)"
    by (rule windows_then [rotated])
  then show ?case by simp
qed

lemma windows_turn_steps:
  assumes "cw_running (ws_connector st)" "ws_accepting st = []"
    and "IpcConnectorW_Loop os (ws_connector st) (ws_trace st) = (c, tr)"
  shows "(windows_step os joined)\<^sup>*\<^sup>* st (st\<lparr>ws_connector := c, ws_trace := tr\<rparr>)"
proof -
  obtain ps tr1 where w: "select_ready os (ws_sockets st) (ws_trace st) = (ps, tr1)"
    by (cases "select_ready os (ws_sockets st) (ws_trace st)")
  obtain ss where f: "fold (accept_at os) ps (ws_sockets st, tr1) = (ss, tr)" "c = (ws_connector st)\<lparr>cw_sockets := ss\<rparr>"
    using assms(3) by (auto simp: IpcConnectorW_Loop_def select_ready_loop w split: prod.splits)
  let ?st = "st\<lparr>ws_accepting := ps, ws_trace := tr1\<rparr>"
  have "(windows_step os joined)\<^sup>*\<^sup>* ?st ((with_ws_sockets ss ?st)\<lparr>ws_accepting := [], ws_trace := tr\<rparr>)"
    by (rule windows_accept_steps) (use f(1) in simp_all)
  moreover have "windows_step os joined st ?st" by (rule windows_step.w_select [OF assms(1,2) w])
  moreover have "(with_ws_sockets ss ?st)\<lparr>ws_accepting := [], ws_trace := tr\<rparr> = st\<lparr>ws_connector := c, ws_trace := tr\<rparr>"
    using assms(2) f(2) by (cases st) simp
  ultimately show ?thesis using windows_then by metis
qed

lemma windows_send_steps:
  "ws_sending st = Some (i, ds) \<Longrightarrow> ws_closing st = [] \<Longrightarrow> i < length (ws_sockets st) \<Longrightarrow>
   innerSend_loop_windows os ds data (ws_sockets st ! i, ws_trace st) = (s, tr) \<Longrightarrow>
   (windows_step os joined)\<^sup>*\<^sup>* st ((with_ws_sockets ((ws_sockets st)[i := s]) st)\<lparr>ws_sending := Some (i, []), ws_trace := tr\<rparr>)"
proof (induction ds arbitrary: st)
  case Nil
  then have "s = ws_sockets st ! i" "tr = ws_trace st" by simp_all
  then have "(with_ws_sockets ((ws_sockets st)[i := s]) st)\<lparr>ws_sending := Some (i, []), ws_trace := tr\<rparr> = st"
    using Nil.prems(1) by (cases st) simp
  then show ?case by simp
next
  case (Cons d ds)
  obtain result tr1 where c: "sys os (Send_call d data) (ws_trace st) = (result, tr1)"
    by (cases "sys os (Send_call d data) (ws_trace st)")
  let ?r = "removeClientDescriptor d (ws_sockets st ! i)"
  let ?final = "\<lambda>st. (with_ws_sockets ((ws_sockets st)[i := s]) st)\<lparr>ws_sending := Some (i, []), ws_trace := tr\<rparr>"
  show ?case
  proof (cases "result = - 1")
    case False
    let ?st = "st\<lparr>ws_sending := Some (i, ds), ws_trace := tr1\<rparr>"
    have rest: "(windows_step os joined)\<^sup>*\<^sup>* ?st (?final ?st)"
      by (rule Cons.IH) (use Cons.prems c False in simp_all)
    have "windows_step os joined st ?st" by (rule windows_step.w_sent [OF Cons.prems(1,2) c False])
    from windows_then [OF this rest] show ?thesis by simp
  next
    case True
    let ?st = "(with_ws_sockets ((ws_sockets st)[i := ?r]) st)\<lparr>ws_sending := Some (i, ds), ws_closing := [d], ws_trace := tr1\<rparr>"
    let ?st2 = "?st\<lparr>ws_closing := [], ws_trace := tr1 @ [Close d]\<rparr>"
    have rest: "(windows_step os joined)\<^sup>*\<^sup>* ?st2 (?final ?st2)"
      by (rule Cons.IH) (use Cons.prems c True in \<open>simp_all add: sys_def Let_def\<close>)
    have "windows_step os joined ?st ?st2"
      by (rule windows_step.w_close) (simp_all add: sys_def)
    note rest = windows_then [OF this rest]
    have "windows_step os joined st ?st" by (rule windows_step.w_send_fails [OF Cons.prems(1,2) c True])
    note rest = windows_then [OF this rest]
    have "?final ?st2 = ?final st" using Cons.prems(2) by (cases st) simp
    with rest show ?thesis by simp
  qed
qed

section \<open>The account of the sockets\<close>

definition windows_held :: "IpcConnectorW \<Rightarrow> SOCKET multiset" where
  "windows_held c = (if cw_isReady c then socket_fds (cw_sockets c) else {#})"

definition windows_shape :: "nat \<Rightarrow> windows_server \<Rightarrow> bool" where
  "windows_shape n st \<longleftrightarrow>
     length (ws_sockets st) = n \<and> cw_running (ws_connector st) = cw_isReady (ws_connector st) \<and>
     (\<forall>i \<in> set (ws_accepting st). i < n) \<and> (\<forall>i < n. distinct (clientsDescriptor (ws_sockets st ! i))) \<and>
     (\<not> cw_isReady (ws_connector st) \<longrightarrow> ws_accepting st = [] \<and> (\<forall>i < n. clientsDescriptor (ws_sockets st ! i) = [])) \<and>
     (case ws_sending st of
        None \<Rightarrow> ws_closing st = []
      | Some (i, ds) \<Rightarrow> i < n \<and> distinct ds \<and> set ds \<subseteq> set (clientsDescriptor (ws_sockets st ! i)))"

definition windows_inv :: "(SOCKET, 'z) os_scheme \<Rightarrow> nat \<Rightarrow> windows_server \<Rightarrow> bool" where
  "windows_inv os n st \<longleftrightarrow>
     windows_shape n st \<and> balanced_windows os (windows_held (ws_connector st) + mset (ws_closing st)) (ws_trace st)"

lemma socket_fds_at:
  "i < length ss \<Longrightarrow> \<exists>rest. socket_fds ss = socket_fds [ss ! i] + rest \<and> (\<forall>s. socket_fds (ss[i := s]) = socket_fds [s] + rest)"
proof (induction ss arbitrary: i)
  case (Cons x ss)
  show ?case
  proof (cases i)
    case 0
    then show ?thesis by (intro exI [of _ "socket_fds ss"]) simp
  next
    case (Suc j)
    with Cons obtain rest where "socket_fds ss = socket_fds [ss ! j] + rest" "\<forall>s. socket_fds (ss[j := s]) = socket_fds [s] + rest" by auto
    with Suc show ?thesis by (intro exI [of _ "socket_fds [x] + rest"]) (simp add: ac_simps)
  qed
qed simp

lemma collect_clients:
  assumes "collectSocket os d (s, tr) = (s', tr')"
  shows "set (clientsDescriptor s) \<subseteq> set (clientsDescriptor s')" "distinct (clientsDescriptor s) \<Longrightarrow> distinct (clientsDescriptor s')"
  using assms by (auto simp: collectSocket_def addClientDecriptor_def split: if_splits prod.splits)

lemma accept_at_balanced:
  assumes "fresh_accepts_windows os" "i < length ss" "balanced_windows os (socket_fds ss + h) tr" "accept_at os i (ss, tr) = (ss', tr')"
  shows "balanced_windows os (socket_fds ss' + h) tr' \<and> (\<exists>s. ss' = ss[i := s] \<and>
    set (clientsDescriptor (ss ! i)) \<subseteq> set (clientsDescriptor s) \<and> (distinct (clientsDescriptor (ss ! i)) \<longrightarrow> distinct (clientsDescriptor s)))"
proof -
  let ?l = "socketDescriptor (ss ! i)"
  obtain s' where c: "collectSocket os (word_of_int (ret os tr (Accept ?l))) (ss ! i, tr @ [Accept ?l]) = (s', tr')" "ss' = ss[i := s']"
    using assms(4) by (auto simp: accept_at_def sys_def split: prod.splits)
  obtain rest where r: "socket_fds ss = socket_fds [ss ! i] + rest" "\<forall>s. socket_fds (ss[i := s]) = socket_fds [s] + rest"
    using socket_fds_at [OF assms(2)] by blast
  have "balanced_windows os (socket_fds [ss ! i] + (rest + h)) tr" using assms(3) by (simp add: r(1) ac_simps)
  from collect_balanced [OF assms(1) this c(1)] have "balanced_windows os (socket_fds ss' + h) tr'"
    by (simp add: c(2) r(2) ac_simps)
  with collect_clients [OF c(1)] c(2) show ?thesis by blast
qed

lemma socket_fds_remove:
  assumes "i < length ss" "d \<in> set (clientsDescriptor (ss ! i))"
  shows "socket_fds ss = add_mset d (socket_fds (ss[i := removeClientDescriptor d (ss ! i)]))"
proof -
  obtain rest where r: "socket_fds ss = socket_fds [ss ! i] + rest" "\<forall>s. socket_fds (ss[i := s]) = socket_fds [s] + rest"
    using socket_fds_at [OF assms(1)] by blast
  show ?thesis using assms(2) by (simp only: r) (simp add: removeClientDescriptor_def)
qed

text \<open>Calls that neither obtain nor close a socket.\<close>

lemma balanced_neutral:
  "balanced_windows os h tr \<Longrightarrow> obtained_windows os tr c = [] \<Longrightarrow> released tr c = [] \<Longrightarrow> balanced_windows os h (tr @ [c])"
  by (simp add: balanced_windows_def)

lemma select_ready_cases:
  assumes "select_ready os ss tr = (is, tr')"
  shows "(\<exists>c. tr' = tr @ [c] \<and> obtained_windows os tr c = [] \<and> released tr c = []) \<and> (\<forall>i \<in> set is. i < length ss)"
  using assms by (auto simp: select_ready_def SelectWrapper_call_def sys_def Let_def ready_at_def obtained_windows_def released_def
      split: if_splits)

lemma start_windows_cases:
  assumes "IpcConnectorW_Start os c tr = (None, c', tr')" "\<not> cw_isReady c" "\<forall>s \<in> set (cw_sockets c). clientsDescriptor s = []"
    and "fresh_accepts_windows os"
  shows "sockets_obtained os tr' = sockets_obtained os tr + socket_fds (cw_sockets c') \<and> fds_closed tr' = fds_closed tr \<and>
    cw_isReady c' \<and> cw_running c' \<and> length (cw_sockets c') = length (cw_sockets c) \<and> (\<forall>s \<in> set (cw_sockets c'). clientsDescriptor s = [])"
proof -
  have "windows_startable os c" using assms(2-4) by (simp add: windows_startable_def)
  note law = windows.start_law [OF this assms(1)]
  obtain e ss tr1 where b: "bind_all_windows os (cw_sockets c) tr = (e, ss, tr1)" by (cases "bind_all_windows os (cw_sockets c) tr")
  have c': "e = None" "c' = c\<lparr>cw_sockets := ss, cw_running := True, cw_isReady := True\<rparr>"
    using assms(1,2) b by (auto simp: IpcConnectorW_Start_def start_windows_def split: option.splits)
  from bind_all_windows_obtains [OF b [unfolded c'(1)]] have m: "map clientsDescriptor ss = map clientsDescriptor (cw_sockets c)" by blast
  then have "length ss = length (cw_sockets c)" by (metis length_map)
  moreover have "\<forall>s \<in> set ss. clientsDescriptor s = []"
    using m assms(3) by (metis (mono_tags, lifting) image_iff image_set)
  ultimately show ?thesis using law c'(2) by simp
qed

lemma stop_windows_cases:
  assumes "IpcConnectorW_Stop os c tr = (c', tr')" "cw_isReady c"
  shows "sockets_obtained os tr' = sockets_obtained os tr \<and> fds_closed tr' = fds_closed tr + socket_fds (cw_sockets c) \<and>
    \<not> cw_isReady c' \<and> \<not> cw_running c' \<and> length (cw_sockets c') = length (cw_sockets c) \<and> (\<forall>s \<in> set (cw_sockets c'). clientsDescriptor s = [])"
proof -
  obtain ss tr1 where cl: "close_all_windows os (cw_sockets c) tr = (ss, tr1)" by (cases "close_all_windows os (cw_sockets c) tr")
  have len: "close_all_windows os ss0 tr0 = (ss1, tr1) \<Longrightarrow> length ss1 = length ss0" for ss0 ss1 tr0 tr1
    by (induction ss0 arbitrary: tr0 ss1 tr1) (auto split: prod.splits)
  show ?thesis using close_all_windows_calls [OF cl] len [OF cl] assms cl by (auto simp: IpcConnectorW_Stop_def stop_windows_def)
qed

lemma windows_inv_step:
  assumes "windows_step os True st st'" "fresh_accepts_windows os" "windows_inv os n st"
  shows "windows_inv os n st'"
proof -
  have shape: "windows_shape n st" and bal: "balanced_windows os (windows_held (ws_connector st) + mset (ws_closing st)) (ws_trace st)"
    using assms(3) by (simp_all add: windows_inv_def)
  note sh = shape [unfolded windows_shape_def]
  show ?thesis using assms(1)
  proof (cases rule: windows_step.cases)
    case (w_start c tr)
    show ?thesis
    proof (cases "cw_isReady (ws_connector st)")
      case True
      then have "st' = st" using w_start by (cases st) (auto simp: IpcConnectorW_Start_def)
      then show ?thesis using assms(3) by simp
    next
      case False
      then have idle: "\<forall>s \<in> set (ws_sockets st). clientsDescriptor s = []" using sh by (auto simp: in_set_conv_nth)
      note st = start_windows_cases [OF w_start(2) False idle assms(2)]
      have none: "\<forall>i < n. clientsDescriptor (cw_sockets c ! i) = []" using st sh by simp
      have "windows_shape n st'" using w_start(1) sh st none False by (auto simp: windows_shape_def split: option.splits)
      moreover have "balanced_windows os (windows_held c + mset (ws_closing st)) tr"
        using bal False st by (simp add: balanced_windows_def windows_held_def ac_simps)
      ultimately show ?thesis using w_start(1) by (simp add: windows_inv_def)
    qed
  next
    case (w_stop c tr)
    then have idle: "ws_sending st = None" "ws_closing st = []" using sh by auto
    show ?thesis
    proof (cases "cw_isReady (ws_connector st)")
      case False
      then have "st' = st" using w_stop(1,4) by (cases st) (auto simp: IpcConnectorW_Stop_def)
      then show ?thesis using assms(3) by simp
    next
      case True
      note st = stop_windows_cases [OF w_stop(4) True]
      then have "\<forall>i < n. clientsDescriptor (cw_sockets c ! i) = []" using sh by simp
      then have "windows_shape n st'" using w_stop(1,2) sh st idle by (auto simp: windows_shape_def)
      moreover have "balanced_windows os (windows_held c + mset (ws_closing st)) tr"
        using bal True st idle by (simp add: balanced_windows_def windows_held_def ac_simps)
      ultimately show ?thesis using w_stop(1) by (simp add: windows_inv_def)
    qed
  next
    case (w_select ps tr)
    obtain c where c: "tr = ws_trace st @ [c]" "obtained_windows os (ws_trace st) c = []" "released (ws_trace st) c = []"
      and ps: "\<forall>i \<in> set ps. i < n"
      using select_ready_cases [OF w_select(4)] sh by auto
    have "windows_shape n st'" using w_select(1,2) sh ps by (auto simp: windows_shape_def split: option.splits)
    then show ?thesis using balanced_neutral [OF bal c(2,3)] w_select(1) c(1) by (simp add: windows_inv_def)
  next
    case (w_accept i ps ss tr)
    have on: "i < length (ws_sockets st)" "cw_isReady (ws_connector st)" using w_accept(2) sh by auto
    from accept_at_balanced [OF assms(2) on(1) _ w_accept(3), of "mset (ws_closing st)"] bal on(2)
    obtain s where b: "balanced_windows os (socket_fds ss + mset (ws_closing st)) tr" "ss = (ws_sockets st)[i := s]"
      "set (clientsDescriptor (ws_sockets st ! i)) \<subseteq> set (clientsDescriptor s)"
      "distinct (clientsDescriptor (ws_sockets st ! i)) \<Longrightarrow> distinct (clientsDescriptor s)"
      by (auto simp: windows_held_def)
    have grow: "distinct (clientsDescriptor (ss ! j)) \<and> set (clientsDescriptor (ws_sockets st ! j)) \<subseteq> set (clientsDescriptor (ss ! j))"
      if "j < n" for j
      using b(2-4) sh on(1) that by (auto simp: nth_list_update)
    have "case ws_sending st of None \<Rightarrow> ws_closing st = []
        | Some (j, ds) \<Rightarrow> j < n \<and> distinct ds \<and> set ds \<subseteq> set (clientsDescriptor (ss ! j))"
    proof (cases "ws_sending st")
      case (Some p)
      obtain j ds where p: "p = (j, ds)" by (cases p)
      then have "j < n" "distinct ds" "set ds \<subseteq> set (clientsDescriptor (ws_sockets st ! j))" using sh Some by auto
      with grow [of j] Some p show ?thesis by auto
    qed (use sh in simp)
    then have "windows_shape n st'"
      using w_accept(1,2) sh b(2) on(2) grow by (auto simp: windows_shape_def split: option.splits)
    then show ?thesis using b(1) on(2) w_accept(1) by (simp add: windows_inv_def windows_held_def)
  next
    case (w_packet i)
    then have "windows_shape n st'" using sh by (auto simp: windows_shape_def getCopyOfClientsDescriptor_def)
    then show ?thesis using bal w_packet(1) by (simp add: windows_inv_def)
  next
    case (w_sent i d ds data result tr)
    have "balanced_windows os (windows_held (ws_connector st) + mset (ws_closing st)) tr"
      using balanced_neutral [OF bal, of "Send_call d data"] w_sent(4) by (auto simp: sys_def obtained_windows_def released_def)
    moreover have "windows_shape n st'" using w_sent(1,2) sh by (auto simp: windows_shape_def)
    ultimately show ?thesis using w_sent(1) by (simp add: windows_inv_def)
  next
    case (w_send_fails i d ds data result tr)
    have i: "i < length (ws_sockets st)" "d \<in> set (clientsDescriptor (ws_sockets st ! i))" "d \<notin> set ds"
      and sub: "set ds \<subseteq> set (clientsDescriptor (ws_sockets st ! i))" "distinct ds"
      using w_send_fails(2) sh by auto
    then have on: "cw_isReady (ws_connector st)" using sh by fastforce
    let ?ss = "(ws_sockets st)[i := removeClientDescriptor d (ws_sockets st ! i)]"
    have "balanced_windows os (windows_held (ws_connector st) + mset (ws_closing st)) tr"
      using balanced_neutral [OF bal, of "Send_call d data"] w_send_fails(4) by (auto simp: sys_def obtained_windows_def released_def)
    then have "balanced_windows os (socket_fds ?ss + {#d#}) tr"
      using socket_fds_remove [OF i(1,2)] on w_send_fails(3) by (simp add: windows_held_def)
    moreover have "x \<in> set (clientsDescriptor (removeClientDescriptor d (ws_sockets st ! i)))" if "x \<in> set ds" for x
    proof -
      have "x \<noteq> d" using i(3) that by blast
      then show ?thesis using sub(1) that by (auto simp: removeClientDescriptor_def)
    qed
    then have "set ds \<subseteq> set (clientsDescriptor (removeClientDescriptor d (ws_sockets st ! i)))" by blast
    then have "windows_shape n st'"
      using w_send_fails(1,2) sh i sub(2) on by (auto simp: windows_shape_def nth_list_update removeClientDescriptor_def)
    ultimately show ?thesis using w_send_fails(1) on by (simp add: windows_inv_def windows_held_def)
  next
    case (w_close d result tr)
    have "balanced_windows os (windows_held (ws_connector st)) tr"
      using bal w_close(2,3) by (auto simp: sys_def balanced_windows_def obtained_windows_def released_def ac_simps)
    moreover have "windows_shape n st'" using w_close(1) sh by (auto simp: windows_shape_def split: option.splits)
    ultimately show ?thesis using w_close(1) by (simp add: windows_inv_def)
  next
    case (w_done i)
    then have "windows_shape n st'" using sh by (auto simp: windows_shape_def)
    then show ?thesis using bal w_done(1) by (simp add: windows_inv_def)
  qed
qed


section \<open>Runs\<close>

text \<open>A kernel with one client, number 7, to which nothing can be sent.\<close>

definition refusing_os :: "SOCKET os" where
  "refusing_os = one_client_os\<lparr>ret := \<lambda>tr c. case c of Send_call d data \<Rightarrow> - 1 | _ \<Rightarrow> ret one_client_os tr c\<rparr>"

lemma refusing_os_obtained: "obtained_windows refusing_os tr c = obtained_windows one_client_os tr c"
  by (cases c) (simp_all add: obtained_windows_def refusing_os_def)

lemma refusing_os_fresh: "fresh_accepts_windows refusing_os"
proof -
  have f: "obtained_windows refusing_os = obtained_windows one_client_os" by (intro ext) (rule refusing_os_obtained)
  have "sockets_obtained refusing_os tr = sockets_obtained one_client_os tr" for tr
    by (simp add: sockets_obtained_def f)
  moreover have "ret refusing_os tr (Accept d) = ret one_client_os tr (Accept d)" for tr d by (simp add: refusing_os_def)
  ultimately show ?thesis using one_client_fresh unfolding fresh_accepts_windows_def by simp
qed

definition windows_state :: "SOCKET list \<Rightarrow> nat list \<Rightarrow> (nat \<times> SOCKET list) option \<Rightarrow> SOCKET list \<Rightarrow> SOCKET trace \<Rightarrow> windows_server" where
  "windows_state ds is sending closing tr =
     \<lparr>ws_connector = \<lparr>cw_sockets = [windows_socket\<lparr>socketDescriptor := 3, clientsDescriptor := ds\<rparr>], cw_isReady = True, cw_running = True\<rparr>,
      ws_accepting = is, ws_sending = sending, ws_closing = closing, ws_trace = tr\<rparr>"

definition windows_calls :: "SOCKET trace" where
  "windows_calls = [Socket_call, Resolve ''h'', Bind_port 3 80, Listen 3 1, Set_nonblock 3, Select [3] 500, Accept 3, Set_nonblock 7]"

lemma windows_sending_run:
  "(windows_step refusing_os joined)\<^sup>*\<^sup>* (windows_server_new [windows_socket]) (windows_state [7] [] (Some (0, [7])) [] windows_calls)"
proof -
  let ?tr = "[Socket_call, Resolve ''h'', Bind_port 3 80, Listen 3 1, Set_nonblock 3] :: SOCKET trace"
  have st: "IpcConnectorW_Start refusing_os (IpcConnectorW_new [windows_socket]) [] =
      (None, ws_connector (windows_state [] [] None [] []), ?tr)"
    by (simp add: IpcConnectorW_Start_def IpcConnectorW_new_def bindSocket_windows_def windows_socket_def windows_state_def
        refusing_os_def one_client_os_def sys_def setSocketDescriptor_def setSocketToNonBlock_def start_windows_def INVALID_SOCKET_def
        Let_def)
  have l: "IpcConnectorW_Loop refusing_os (ws_connector (windows_state [] [] None [] [])) ?tr =
      (ws_connector (windows_state [7] [] None [] []), windows_calls)"
    by (simp add: IpcConnectorW_Loop_def connector_loop_windows_def SelectWrapper_call_def FdSet_new_def FdSet_addSocket_def
        windows_state_def windows_socket_def refusing_os_def one_client_os_def sys_def collectSocket_def setSocketToNonBlock_def
        addClientDecriptor_def INVALID_SOCKET_def windows_calls_def Let_def)
  have a: "windows_step refusing_os joined (windows_server_new [windows_socket]) (windows_state [] [] None [] ?tr)"
    using windows_step.w_start [where st = "windows_server_new [windows_socket]" and os = refusing_os] st
    by (simp add: windows_server_new_def windows_state_def)
  have b: "(windows_step refusing_os joined)\<^sup>*\<^sup>* (windows_state [] [] None [] ?tr) (windows_state [7] [] None [] windows_calls)"
    using windows_turn_steps [where st = "windows_state [] [] None [] ?tr" and os = refusing_os and joined = joined] l
    by (simp add: windows_state_def)
  have "windows_step refusing_os joined (windows_state [7] [] None [] windows_calls)
      (windows_state [7] [] (Some (0, [7])) [] windows_calls)"
    using windows_step.w_packet [where st = "windows_state [7] [] None [] windows_calls" and i = 0]
    by (simp add: windows_state_def getCopyOfClientsDescriptor_def)
  with windows_then [OF a b] show ?thesis by (rule rtranclp.rtrancl_into_rtrancl)
qed


text \<open>
  A connector that is stopped while the transmitter is in the middle of a packet: \<open>Stop\<close> closes the clients,
  the transmitter's \<open>send\<close> to one of them fails, and it closes the number again, which may meanwhile be
  somebody else's.
\<close>

theorem windows_stop_while_sending_closes_twice:
  "\<exists>st. (windows_step refusing_os False)\<^sup>*\<^sup>* (windows_server_new [windows_socket]) st \<and>
     count (sockets_obtained refusing_os (ws_trace st)) 7 = 1 \<and> count (fds_closed (ws_trace st)) 7 = 2"
proof -
  let ?st0 = "windows_state [7] [] (Some (0, [7])) [] windows_calls" and ?tr = "windows_calls @ [Close 3, Close 7]"
  have sp: "IpcConnectorW_Stop refusing_os (ws_connector ?st0) windows_calls =
      (fst (IpcConnectorW_Stop refusing_os (ws_connector ?st0) windows_calls), ?tr)"
    by (simp add: IpcConnectorW_Stop_def stop_windows_def closeSocket_windows_eq windows_state_def)
  let ?c = "fst (IpcConnectorW_Stop refusing_os (ws_connector ?st0) windows_calls)"
  let ?st1 = "?st0\<lparr>ws_connector := ?c, ws_trace := ?tr\<rparr>"
  let ?st2 = "(with_ws_sockets ((ws_sockets ?st1)[0 := removeClientDescriptor 7 (ws_sockets ?st1 ! 0)]) ?st1)
     \<lparr>ws_sending := Some (0, []), ws_closing := [7], ws_trace := ?tr @ [Send_call 7 [1]]\<rparr>"
  let ?st3 = "?st2\<lparr>ws_closing := [], ws_trace := ?tr @ [Send_call 7 [1], Close 7]\<rparr>"
  have "windows_step refusing_os False ?st0 ?st1"
    by (rule windows_step.w_stop) (use sp in \<open>simp_all add: windows_state_def\<close>)
  moreover have "windows_step refusing_os False ?st1 ?st2"
    by (rule windows_step.w_send_fails [where data = "[1]" and result = "- 1"])
       (simp_all add: windows_state_def sys_def refusing_os_def)
  moreover have "windows_step refusing_os False ?st2 ?st3"
    by (rule windows_step.w_close) (simp_all add: sys_def)
  ultimately have "(windows_step refusing_os False)\<^sup>*\<^sup>* (windows_server_new [windows_socket]) ?st3"
    using windows_sending_run [of False] by (meson rtranclp.rtrancl_into_rtrancl)
  moreover have "count (sockets_obtained refusing_os (ws_trace ?st3)) 7 = 1 \<and> count (fds_closed (ws_trace ?st3)) 7 = 2"
    by (simp add: windows_calls_def sockets_obtained_def fds_closed_def obtained_windows_def released_def refusing_os_def
        one_client_os_def INVALID_SOCKET_def Let_def)
  ultimately show ?thesis by blast
qed

end
