(* ===== verification/Inotify_Events.thy ===== *)
theory Inotify_Events
  imports Converter_Utils Os_Calls
begin

text \<open>
  The layout of the kernel's \<open>struct inotify_event\<close> in a read buffer, which the folder monitor and
  the C examples overlay on their buffers: a signed watch descriptor, a mask, a cookie and the length
  of the name, four bytes each and little-endian on the machines the programs are built for, and the
  name, which the kernel pads with NUL bytes. A read outside the buffer is \<open>None\<close>.
\<close>

definition IN_MODIFY :: u32 where "IN_MODIFY = 0x2"
definition IN_CLOSE_WRITE :: u32 where "IN_CLOSE_WRITE = 0x8"
definition IN_CLOSE_NOWRITE :: u32 where "IN_CLOSE_NOWRITE = 0x10"
definition IN_CLOSE :: u32 where "IN_CLOSE = 0x18"
definition IN_OPEN :: u32 where "IN_OPEN = 0x20"
definition IN_CREATE :: u32 where "IN_CREATE = 0x100"
definition IN_DELETE :: u32 where "IN_DELETE = 0x200"
definition IN_IGNORED :: u32 where "IN_IGNORED = 0x8000"
definition IN_ISDIR :: u32 where "IN_ISDIR = 0x40000000"
definition IN_NONBLOCK :: u32 where "IN_NONBLOCK = 0x800"

definition has_flag :: "u32 \<Rightarrow> u32 \<Rightarrow> bool" where
  "has_flag m flag \<longleftrightarrow> m AND flag \<noteq> 0"

definition of_le32 :: "byte list \<Rightarrow> u32" where
  "of_le32 bs = of_be32 (rev bs)"

definition le32 :: "u32 \<Rightarrow> byte list" where
  "le32 v = rev (be32 v)"

lemma length_le32 [simp]: "length (le32 v) = 4"
  by (simp add: le32_def)

lemma of_le32_le32 [simp]: "of_le32 (le32 v) = v"
  by (simp add: of_le32_def le32_def)

record inotify_event =
  ev_wd :: int
  ev_mask :: u32
  ev_cookie :: u32
  ev_len :: nat

definition SIZEOF_INOTIFY_EVENT :: nat where
  "SIZEOF_INOTIFY_EVENT = 16"

definition inotify_header :: "byte list \<Rightarrow> nat \<Rightarrow> inotify_event option" where
  "inotify_header buf i =
     (if i + SIZEOF_INOTIFY_EVENT \<le> length buf then
        Some \<lparr>ev_wd = sint (of_le32 (take 4 (drop i buf))), ev_mask = of_le32 (take 4 (drop (i + 4) buf)),
              ev_cookie = of_le32 (take 4 (drop (i + 8) buf)), ev_len = unat (of_le32 (take 4 (drop (i + 12) buf)))\<rparr>
      else None)"

text \<open>The \<open>len\<close> bytes of the name of the event at \<open>i\<close>.\<close>

definition inotify_name :: "byte list \<Rightarrow> nat \<Rightarrow> nat \<Rightarrow> byte list option" where
  "inotify_name buf i len =
     (if i + SIZEOF_INOTIFY_EVENT + len \<le> length buf
      then Some (take len (drop (i + SIZEOF_INOTIFY_EVENT) buf)) else None)"

text \<open>The name as a C string: up to its first NUL, which must come before the end of the buffer.\<close>

definition inotify_cname :: "byte list \<Rightarrow> nat \<Rightarrow> string option" where
  "inotify_cname buf i =
     (let s = drop (i + SIZEOF_INOTIFY_EVENT) buf
      in if 0 \<in> set s then Some (map (\<lambda>b. char_of (unat b)) (takeWhile (\<lambda>b. b \<noteq> 0) s)) else None)"

text \<open>What the kernel leaves in a buffer of which it fills the beginning.\<close>

definition fill_buffer :: "byte list \<Rightarrow> byte list \<Rightarrow> byte list" where
  "fill_buffer bs buf = take (length buf) bs @ drop (length bs) buf"

section \<open>Events as the kernel writes them\<close>

record kevent =
  kwd :: "u32"
  kmask :: u32
  kcookie :: u32
  kname :: "byte list"

definition encode_event :: "kevent \<Rightarrow> byte list" where
  "encode_event e = le32 (kwd e) @ le32 (kmask e) @ le32 (kcookie e) @ le32 (word_of_nat (length (kname e))) @ kname e"

abbreviation encode_events :: "kevent list \<Rightarrow> byte list" where
  "encode_events es \<equiv> concat (map encode_event es)"

definition short_names :: "kevent list \<Rightarrow> bool" where
  "short_names es \<longleftrightarrow> (\<forall>e \<in> set es. length (kname e) < 2 ^ 32)"

lemma length_encode_event [simp]: "length (encode_event e) = 16 + length (kname e)"
  by (simp add: encode_event_def)

lemma encode_event_ne [simp]: "encode_event e \<noteq> []"
  using length_encode_event [of e] by (auto simp del: length_encode_event)

lemma short_names_simps [simp]:
  "short_names []" "short_names (e # es) \<longleftrightarrow> length (kname e) < 2 ^ 32 \<and> short_names es"
  by (simp_all add: short_names_def)

lemma fill_buffer_fits: "length bs \<le> length buf \<Longrightarrow> fill_buffer bs buf = bs @ drop (length bs) buf"
  by (simp add: fill_buffer_def)

lemma length_fill_buffer [simp]: "length (fill_buffer bs buf) = length buf"
  by (simp add: fill_buffer_def)

lemma inotify_header_encode [simp]:
  "length (kname e) < 2 ^ 32 \<Longrightarrow> inotify_header (pre @ encode_event e @ post) (length pre) =
     Some \<lparr>ev_wd = sint (kwd e), ev_mask = kmask e, ev_cookie = kcookie e, ev_len = length (kname e)\<rparr>"
  by (simp add: inotify_header_def SIZEOF_INOTIFY_EVENT_def encode_event_def unat_word_of_nat)

lemma inotify_name_encode [simp]:
  "inotify_name (pre @ encode_event e @ post) (length pre) (length (kname e)) = Some (kname e)"
  by (simp add: inotify_name_def SIZEOF_INOTIFY_EVENT_def encode_event_def)

lemma inotify_cname_encode [simp]:
  "0 \<in> set (kname e) \<Longrightarrow> inotify_cname (pre @ encode_event e @ post) (length pre) =
     Some (map (\<lambda>b. char_of (unat b)) (takeWhile (\<lambda>b. b \<noteq> 0) (kname e)))"
  by (simp add: inotify_cname_def SIZEOF_INOTIFY_EVENT_def encode_event_def takeWhile_append1)

end
