(* ===== verification/Folder_Monitor.thy ===== *)
theory Folder_Monitor
  imports Inotify_Events "HOL-Library.Signed_Division"
begin

text \<open>
  \<open>FolderMonitor\<close> (DeploymentAgent/src/folder_monitor.h and its copy in notify_file): the files it
  watches, the read buffer and the parser of the kernel's events, and what the consumer is told.
  Times are nanoseconds of the steady clock; \<open>clock\<close> gives the reading the code takes for the event
  at an offset of the buffer, or for the file at a position of the vector. Paths are the bytes the
  kernel delivered.
\<close>

record WatchedFile =
  wf_path :: "byte list"
  consumed :: bool
  inUse :: bool
  lastAccessTime :: int

definition WatchedFile_new :: "int \<Rightarrow> byte list \<Rightarrow> WatchedFile" where
  "WatchedFile_new now path = \<lparr>wf_path = path, consumed = False, inUse = False, lastAccessTime = now\<rparr>"

definition notTouchedIn :: "int \<Rightarrow> int \<Rightarrow> WatchedFile \<Rightarrow> bool" where
  "notTouchedIn now unusedTime f \<longleftrightarrow> (now - lastAccessTime f) sdiv 1000000 > unusedTime"

definition handleStateChange :: "int \<Rightarrow> u32 \<Rightarrow> WatchedFile \<Rightarrow> WatchedFile" where
  "handleStateChange now event f =
     (let f = f\<lparr>lastAccessTime := now\<rparr>
      in if has_flag event IN_OPEN then f\<lparr>inUse := True\<rparr>
         else if has_flag event IN_CLOSE then f\<lparr>inUse := False\<rparr> else f)"

definition EVENT_BUFF_SIZE :: nat where "EVENT_BUFF_SIZE = SIZEOF_INOTIFY_EVENT * 4"
definition FILE_READY_TIMEOUT :: int where "FILE_READY_TIMEOUT = 2 * 1000"

record FolderMonitor =
  descriptor :: int
  fileReadyTimeout :: int
  eventBuffer :: "byte list"
  watchedFiles :: "WatchedFile list"

definition FolderMonitor_new :: "(int, 'z) os_scheme \<Rightarrow> string \<Rightarrow> int trace \<Rightarrow> (string + FolderMonitor) \<times> int trace" where
  "FolderMonitor_new os path tr =
     (let (fd, tr) = sys os (Inotify_init IN_NONBLOCK) tr
      in if fd < 0 then (Inl ''inotify_init1() failed'', tr)
         else let (wd, tr) = sys os (Inotify_add fd path (IN_CREATE OR IN_CLOSE OR IN_OPEN OR IN_DELETE)) tr
              in if wd < 0 then (Inl ''inotify_add_watch() failed'', snd (sys os (Close fd) tr))
                 else (Inr \<lparr>descriptor = fd, fileReadyTimeout = FILE_READY_TIMEOUT,
                        eventBuffer = replicate EVENT_BUFF_SIZE 0, watchedFiles = []\<rparr>, tr))"

definition FolderMonitor_destroy :: "(int, 'z) os_scheme \<Rightarrow> FolderMonitor \<Rightarrow> int trace \<Rightarrow> int trace" where
  "FolderMonitor_destroy os m tr = (if 0 \<le> descriptor m then snd (sys os (Close (descriptor m)) tr) else tr)"

text \<open>The move constructor: the new object, and what is left of the other. The buffer is not moved.\<close>

definition FolderMonitor_move :: "FolderMonitor \<Rightarrow> FolderMonitor \<times> FolderMonitor" where
  "FolderMonitor_move m =
     (\<lparr>descriptor = descriptor m, fileReadyTimeout = fileReadyTimeout m, eventBuffer = [], watchedFiles = watchedFiles m\<rparr>,
      m\<lparr>descriptor := - 1, fileReadyTimeout := FILE_READY_TIMEOUT, watchedFiles := []\<rparr>)"

definition FolderMonitor_move_assign :: "FolderMonitor \<Rightarrow> FolderMonitor \<Rightarrow> FolderMonitor \<times> FolderMonitor" where
  "FolderMonitor_move_assign this other =
     (this\<lparr>descriptor := descriptor other, fileReadyTimeout := fileReadyTimeout other, watchedFiles := watchedFiles other\<rparr>,
      other\<lparr>descriptor := descriptor this, fileReadyTimeout := fileReadyTimeout this, watchedFiles := []\<rparr>)"

definition setFileReadyTimeout :: "int \<Rightarrow> FolderMonitor \<Rightarrow> FolderMonitor" where
  "setFileReadyTimeout timeout m = m\<lparr>fileReadyTimeout := timeout\<rparr>"

fun update_first :: "('a \<Rightarrow> bool) \<Rightarrow> ('a \<Rightarrow> 'a) \<Rightarrow> 'a list \<Rightarrow> 'a list" where
  "update_first P f [] = []"
| "update_first P f (x # xs) = (if P x then f x # xs else x # update_first P f xs)"

text \<open>What one event does to the files; an event that is ignored is not given to it.\<close>

definition apply_event :: "int \<Rightarrow> u32 \<Rightarrow> byte list \<Rightarrow> WatchedFile list \<Rightarrow> WatchedFile list" where
  "apply_event now m path files =
     (if has_flag m IN_CREATE then files @ [WatchedFile_new now path]
      else if has_flag m IN_DELETE then erase_first (\<lambda>f. wf_path f = path) files
      else update_first (\<lambda>f. wf_path f = path) (handleStateChange now m) files)"

text \<open>The loop from an index on; \<open>None\<close> is a read outside the buffer.\<close>

function parseEvents :: "(nat \<Rightarrow> int) \<Rightarrow> byte list \<Rightarrow> nat \<Rightarrow> nat \<Rightarrow> WatchedFile list \<Rightarrow> WatchedFile list option" where
  "parseEvents clock buf index len files =
     (if index < len then do {
        event \<leftarrow> inotify_header buf index;
        let index' = index + (SIZEOF_INOTIFY_EVENT + ev_len event);
        if has_flag (ev_mask event) IN_IGNORED then parseEvents clock buf index' len files
        else do {
          path \<leftarrow> inotify_name buf index (ev_len event);
          parseEvents clock buf index' len (apply_event (clock index) (ev_mask event) path files)
        }
      } else Some files)"
  by pat_completeness auto
termination
  by (relation "measure (\<lambda>(clock, buf, index, len, files). len - index)") (auto simp: SIZEOF_INOTIFY_EVENT_def)

declare parseEvents.simps [simp del]

definition handleIncommingEvents :: "(int, 'z) os_scheme \<Rightarrow> (nat \<Rightarrow> int) \<Rightarrow> FolderMonitor \<Rightarrow> int trace \<Rightarrow> (FolderMonitor \<times> int trace) option" where
  "handleIncommingEvents os clock m tr =
     (let c = Read_call (descriptor m) (length (eventBuffer m)); (len, tr') = sys os c tr
      in if 0 < len then do {
           let buf = fill_buffer (bytes_in os tr c) (eventBuffer m);
           files \<leftarrow> parseEvents clock buf 0 (nat len) (watchedFiles m);
           Some (m\<lparr>eventBuffer := buf, watchedFiles := files\<rparr>, tr')
         } else Some (m, tr'))"

text \<open>The paths the consumer is called with, and the files afterwards.\<close>

fun process_files :: "(nat \<Rightarrow> int) \<Rightarrow> int \<Rightarrow> nat \<Rightarrow> WatchedFile list \<Rightarrow> byte list list \<times> WatchedFile list" where
  "process_files clock timeout k [] = ([], [])"
| "process_files clock timeout k (f # files) =
     (case process_files clock timeout (Suc k) files of
        (paths, files) \<Rightarrow>
          if \<not> consumed f \<and> \<not> inUse f \<and> notTouchedIn (clock k) timeout f
          then (wf_path f # paths, f\<lparr>consumed := True\<rparr> # files)
          else (paths, f # files))"

definition FolderMonitor_process :: "(nat \<Rightarrow> int) \<Rightarrow> FolderMonitor \<Rightarrow> byte list list \<times> FolderMonitor" where
  "FolderMonitor_process clock m =
     (case process_files clock (fileReadyTimeout m) 0 (watchedFiles m) of
        (paths, files) \<Rightarrow> (paths, m\<lparr>watchedFiles := files\<rparr>))"

section \<open>Parsing is applying the events\<close>

text \<open>The events one after the other, with the clock readings their offsets have.\<close>

fun apply_events :: "(nat \<Rightarrow> int) \<Rightarrow> nat \<Rightarrow> kevent list \<Rightarrow> WatchedFile list \<Rightarrow> WatchedFile list" where
  "apply_events clock index [] files = files"
| "apply_events clock index (e # es) files =
     apply_events clock (index + (16 + length (kname e))) es
       (if has_flag (kmask e) IN_IGNORED then files else apply_event (clock index) (kmask e) (kname e) files)"

lemma parseEvents_encode:
  "short_names es \<Longrightarrow> parseEvents clock (pre @ encode_events es @ post) (length pre) (length pre + length (encode_events es)) files =
     Some (apply_events clock (length pre) es files)"
proof (induction es arbitrary: pre files)
  case Nil
  then show ?case by (simp add: parseEvents.simps)
next
  case (Cons e es)
  then have h: "inotify_header (pre @ encode_event e @ encode_events es @ post) (length pre) =
      Some \<lparr>ev_wd = sint (kwd e), ev_mask = kmask e, ev_cookie = kcookie e, ev_len = length (kname e)\<rparr>" by simp
  have IH: "parseEvents clock (pre @ encode_event e @ encode_events es @ post) (length pre + (16 + length (kname e)))
      (length pre + (16 + length (kname e) + length (encode_events es))) files =
      Some (apply_events clock (length pre + (16 + length (kname e))) es files)" for files
    using Cons.IH [of "pre @ encode_event e" files] Cons.prems by (simp add: add.assoc)
  show ?case
    by (subst parseEvents.simps) (simp add: h SIZEOF_INOTIFY_EVENT_def IH del: length_concat)
qed

text \<open>
  C21. Reading events is applying them: whatever sequence of events the kernel delivers, as long as
  their encoding fits into the buffer, the parser stays inside the buffer, handles each of them once
  and in order, skips the ignored ones and changes nothing but the files and the buffer.
\<close>

theorem folder_events_applied:
  assumes "ret os tr (Read_call (descriptor m) (length (eventBuffer m))) = int (length (encode_events es))"
    and "bytes_in os tr (Read_call (descriptor m) (length (eventBuffer m))) = encode_events es"
    and "length (encode_events es) \<le> length (eventBuffer m)" "short_names es"
  shows "\<exists>buf. length buf = length (eventBuffer m) \<and> handleIncommingEvents os clock m tr =
    Some (m\<lparr>eventBuffer := buf, watchedFiles := apply_events clock 0 es (watchedFiles m)\<rparr>,
          tr @ [Read_call (descriptor m) (length (eventBuffer m))])"
proof (cases "es = []")
  case True
  with assms(1) show ?thesis
    by (intro exI [of _ "eventBuffer m"]) (simp add: handleIncommingEvents_def sys_def)
next
  case False
  then obtain e es' where "es = e # es'" by (cases es) auto
  then have pos: "0 < length (encode_events es)" by simp
  let ?buf = "fill_buffer (encode_events es) (eventBuffer m)"
  have "parseEvents clock ?buf 0 (length (encode_events es)) (watchedFiles m) = Some (apply_events clock 0 es (watchedFiles m))"
    using parseEvents_encode [OF assms(4), of clock "[]" "drop (length (encode_events es)) (eventBuffer m)" "watchedFiles m"] assms(3)
    by (simp add: fill_buffer_fits)
  with pos show ?thesis
    by (intro exI [of _ ?buf]) (simp add: handleIncommingEvents_def sys_def assms(1,2) del: length_concat)
qed

definition one_file :: kevent where
  "one_file = \<lparr>kwd = 1, kmask = IN_CREATE, kcookie = 0, kname = [0x61, 0, 0, 0, 0, 0, 0, 0, 0, 0, 0, 0, 0, 0, 0, 0]\<rparr>"

definition file_created_os :: "int os" where
  "file_created_os = \<lparr>ret = (\<lambda>tr c. 32), bytes_in = (\<lambda>tr c. encode_event one_file), events_in = (\<lambda>tr c. []), ready_in = (\<lambda>tr c. {})\<rparr>"

definition fresh_monitor :: FolderMonitor where
  "fresh_monitor = \<lparr>descriptor = 3, fileReadyTimeout = FILE_READY_TIMEOUT, eventBuffer = replicate EVENT_BUFF_SIZE 0, watchedFiles = []\<rparr>"

theorem folder_events_applied_witness:
  "\<exists>buf. handleIncommingEvents file_created_os (\<lambda>_. 7) fresh_monitor [] =
    Some (fresh_monitor\<lparr>eventBuffer := buf, watchedFiles := [WatchedFile_new 7 (kname one_file)]\<rparr>, [Read_call 3 64])"
  using folder_events_applied [of file_created_os "[]" fresh_monitor "[one_file]" "\<lambda>_. 7"]
  by (auto simp: file_created_os_def fresh_monitor_def one_file_def EVENT_BUFF_SIZE_def SIZEOF_INOTIFY_EVENT_def
      apply_event_def has_flag_def IN_CREATE_def IN_IGNORED_def)

section \<open>No file is reported twice\<close>

text \<open>
  The monitor's runs: the paths created so far, the paths reported so far and the watched files. An
  event and a call of \<open>process\<close> may come at any time.
\<close>

inductive watching :: "byte list list \<Rightarrow> byte list list \<Rightarrow> WatchedFile list \<Rightarrow> bool" where
  start: "watching [] [] []"
| created: "watching cs rs files \<Longrightarrow> has_flag m IN_CREATE \<Longrightarrow> watching (cs @ [path]) rs (apply_event now m path files)"
| other: "watching cs rs files \<Longrightarrow> \<not> has_flag m IN_CREATE \<Longrightarrow> watching cs rs (apply_event now m path files)"
| process: "watching cs rs files \<Longrightarrow> process_files clock timeout k files = (paths, files') \<Longrightarrow> watching cs (rs @ paths) files'"

definition unreported :: "byte list \<Rightarrow> WatchedFile list \<Rightarrow> nat" where
  "unreported path files = length (filter (\<lambda>f. wf_path f = path \<and> \<not> consumed f) files)"

lemma unreported_simps [simp]:
  "unreported path [] = 0"
  "unreported path (f # files) = (if wf_path f = path \<and> \<not> consumed f then 1 else 0) + unreported path files"
  "unreported path (files @ files') = unreported path files + unreported path files'"
  by (simp_all add: unreported_def)

lemma unreported_erase: "unreported path (erase_first P files) \<le> unreported path files"
  by (induction files) auto

lemma unreported_update:
  "unreported path (update_first P (handleStateChange now m) files) = unreported path files"
  by (induction files) (auto simp: handleStateChange_def Let_def)

lemma process_files_counts:
  "process_files clock timeout k files = (paths, files') \<Longrightarrow>
   count_list paths path + unreported path files' = unreported path files"
  by (induction files arbitrary: k paths files') (fastforce split: prod.splits if_splits)+

lemma watching_counts: "watching cs rs files \<Longrightarrow> count_list rs path + unreported path files \<le> count_list cs path"
proof (induction rule: watching.induct)
  case (created cs rs files m path' now)
  then show ?case by (simp add: apply_event_def WatchedFile_new_def)
next
  case (other cs rs files m now path')
  then show ?case using unreported_erase [of path "\<lambda>f. wf_path f = path'" files]
    by (auto simp: apply_event_def unreported_update)
next
  case (process cs rs files clock timeout k paths files')
  then show ?case using process_files_counts [OF process.hyps(2), of path] by simp
qed simp

text \<open>The events of one read and the calls of \<open>process\<close> are such steps.\<close>

fun creations :: "kevent list \<Rightarrow> byte list list" where
  "creations [] = []"
| "creations (e # es) =
     (if \<not> has_flag (kmask e) IN_IGNORED \<and> has_flag (kmask e) IN_CREATE then [kname e] else []) @ creations es"

lemma watching_events:
  "watching cs rs files \<Longrightarrow> watching (cs @ creations es) rs (apply_events clock index es files)"
proof (induction es arbitrary: cs files index)
  case (Cons e es)
  consider "has_flag (kmask e) IN_IGNORED" | "\<not> has_flag (kmask e) IN_IGNORED" "has_flag (kmask e) IN_CREATE"
    | "\<not> has_flag (kmask e) IN_IGNORED" "\<not> has_flag (kmask e) IN_CREATE" by blast
  then show ?case
  proof cases
    case 1
    then show ?thesis using Cons by simp
  next
    case 2
    then show ?thesis using Cons.IH [OF watching.created [OF Cons.prems 2(2)]] by simp
  next
    case 3
    then show ?thesis using Cons.IH [OF watching.other [OF Cons.prems 3(2)]] by simp
  qed
qed simp

text \<open>The rounds of a monitor: what was delivered in each, and the clock of its two halves.\<close>

fun monitor_rounds :: "int \<Rightarrow> (kevent list \<times> (nat \<Rightarrow> int) \<times> (nat \<Rightarrow> int)) list \<Rightarrow> WatchedFile list \<Rightarrow> byte list list \<times> WatchedFile list" where
  "monitor_rounds timeout [] files = ([], files)"
| "monitor_rounds timeout ((es, clock, clock') # rounds) files =
     (case process_files clock' timeout 0 (apply_events clock 0 es files) of
        (paths, files) \<Rightarrow> (case monitor_rounds timeout rounds files of (paths', files) \<Rightarrow> (paths @ paths', files)))"

lemma watching_rounds:
  "watching cs rs files \<Longrightarrow> monitor_rounds timeout rounds files = (paths, files') \<Longrightarrow>
   watching (cs @ concat (map (creations \<circ> fst) rounds)) (rs @ paths) files'"
proof (induction rounds arbitrary: cs rs files paths files')
  case (Cons r rounds)
  obtain es clock clock' where r: "r = (es, clock, clock')" by (cases r)
  obtain p1 fs where p: "process_files clock' timeout 0 (apply_events clock 0 es files) = (p1, fs)" by fastforce
  obtain p2 fs' where q: "monitor_rounds timeout rounds fs = (p2, fs')" by fastforce
  have "paths = p1 @ p2" "files' = fs'" using Cons.prems(2) by (simp_all add: r p q)
  moreover have "watching (cs @ creations es) (rs @ p1) fs"
    using watching.process [OF watching_events [OF Cons.prems(1)] p] .
  ultimately show ?case using Cons.IH [OF _ q, of "cs @ creations es" "rs @ p1"] by (simp add: r)
qed simp

text \<open>
  Over any sequence of rounds of events and processing, a path is reported at most as often as it
  was created, however often it is opened, closed and deleted in between.
\<close>

theorem reported_at_most_created:
  "count_list (fst (monitor_rounds timeout rounds [])) path \<le> count_list (concat (map (creations \<circ> fst) rounds)) path"
proof -
  obtain paths files where m: "monitor_rounds timeout rounds [] = (paths, files)" by fastforce
  show ?thesis using watching_counts [OF watching_rounds [OF watching.start m], of path] by (simp add: m)
qed

section \<open>A monitor that was moved\<close>

lemma handle_without_buffer:
  "bounded_reads os \<Longrightarrow> eventBuffer m = [] \<Longrightarrow> handleIncommingEvents os clock m tr = Some (m, tr @ [Read_call (descriptor m) 0])"
  unfolding bounded_reads_def by (drule spec [of _ tr], drule spec [of _ "descriptor m"], drule spec [of _ 0])
    (simp add: handleIncommingEvents_def sys_def)

end
