(* ===== verification/Archive_Detector.thy ===== *)
theory Archive_Detector
  imports Prelude
begin

text \<open>
  Recognising what is to be installed (DeploymentAgent/src): \<open>FileMatcher\<close>, \<open>FileNameDetector\<close>,
  \<open>ArchiveDetector\<close>, \<open>InstallPkg\<close> and \<open>InstallPackageDetector\<close>. The directories are an argument: the
  names \<open>readdir\<close> delivers, \<open>None\<close> when \<open>opendir\<close> fails. A result \<open>None\<close> of a matcher is a read before
  the beginning of a string.
\<close>

type_synonym dirs = "string \<Rightarrow> string list option"

text \<open>\<open>std::equal\<close> with three iterators: the second range is not checked for its end.\<close>

fun std_equal :: "'a list \<Rightarrow> 'a list \<Rightarrow> bool option" where
  "std_equal [] ys = Some True"
| "std_equal (x # xs) [] = None"
| "std_equal (x # xs) (y # ys) = (if x = y then std_equal xs ys else Some False)"

definition suffix_matcher :: "string \<Rightarrow> string \<Rightarrow> bool option" where
  "suffix_matcher suffix filePath = std_equal (rev suffix) (rev filePath)"

fun FileMatcher_loop :: "(string \<Rightarrow> bool option) \<Rightarrow> string \<Rightarrow> string list \<Rightarrow> string list option" where
  "FileMatcher_loop matcher path [] = Some []"
| "FileMatcher_loop matcher path (filePath # names) = do {
     m \<leftarrow> matcher (path @ ''/'' @ filePath);
     result \<leftarrow> FileMatcher_loop matcher path names;
     Some (if m then filePath # result else result)
   }"

definition FileMatcher_process :: "dirs \<Rightarrow> (string \<Rightarrow> bool option) \<Rightarrow> string \<Rightarrow> string list option" where
  "FileMatcher_process dirs matcher path =
     (case dirs path of None \<Rightarrow> Some [] | Some names \<Rightarrow> FileMatcher_loop matcher path names)"

definition FileNameDetector_process :: "dirs \<Rightarrow> string \<Rightarrow> string \<Rightarrow> string list option" where
  "FileNameDetector_process dirs path filename = FileMatcher_process dirs (suffix_matcher filename) path"

definition FileNameDetector_bool :: "dirs \<Rightarrow> string \<Rightarrow> string \<Rightarrow> bool option" where
  "FileNameDetector_bool dirs path filename = map_option (\<lambda>r. 0 < length r) (FileNameDetector_process dirs path filename)"

definition ExtensionMatcher :: "string \<Rightarrow> string \<Rightarrow> bool option" where
  "ExtensionMatcher extension path = suffix_matcher extension path"

definition MODULE_CONFIG :: string where "MODULE_CONFIG = ''MLModule.json''"
definition MODULE_IMPL :: string where "MODULE_IMPL = ''concrete_module.py''"
definition MODULE_WEIGHTS_EXT :: string where "MODULE_WEIGHTS_EXT = ''.hdf5''"

definition StructureMatcher :: "dirs \<Rightarrow> string \<Rightarrow> bool option" where
  "StructureMatcher dirs path = do {
     config \<leftarrow> FileNameDetector_bool dirs path MODULE_CONFIG;
     if \<not> config then Some False
     else do {
       impl \<leftarrow> FileNameDetector_bool dirs path MODULE_IMPL;
       if \<not> impl then Some False
       else do {
         weights \<leftarrow> FileMatcher_process dirs (ExtensionMatcher MODULE_WEIGHTS_EXT) path;
         Some (length weights = 1)
       }
     }
   }"

datatype ArchiveType = UNKNOWN | ZIP | TAR | FOLDER

definition archTypes :: "dirs \<Rightarrow> (ArchiveType \<times> (string \<Rightarrow> bool option)) list" where
  "archTypes dirs =
     [(ZIP, ExtensionMatcher ''.zip''), (TAR, ExtensionMatcher ''.tar''), (FOLDER, StructureMatcher dirs)]"

fun identify_loop :: "(ArchiveType \<times> (string \<Rightarrow> bool option)) list \<Rightarrow> string \<Rightarrow> ArchiveType option" where
  "identify_loop [] path = Some UNKNOWN"
| "identify_loop ((t, p) # ps) path = do { m \<leftarrow> p path; if m then Some t else identify_loop ps path }"

definition ArchiveDetector_identify :: "dirs \<Rightarrow> string \<Rightarrow> ArchiveType option" where
  "ArchiveDetector_identify dirs path = identify_loop (archTypes dirs) path"

fun match_loop :: "(ArchiveType \<times> (string \<Rightarrow> bool option)) list \<Rightarrow> string \<Rightarrow> bool option" where
  "match_loop [] filePath = Some False"
| "match_loop ((t, p) # ps) filePath = do { m \<leftarrow> p filePath; if m then Some True else match_loop ps filePath }"

definition ArchiveDetector_match :: "dirs \<Rightarrow> string \<Rightarrow> bool option" where
  "ArchiveDetector_match dirs filePath = match_loop (archTypes dirs) filePath"

definition ArchiveDetector_process :: "dirs \<Rightarrow> string \<Rightarrow> string list option" where
  "ArchiveDetector_process dirs path = FileMatcher_process dirs (ArchiveDetector_match dirs) path"

section \<open>Packages\<close>

record InstallPkg =
  rootPath :: string
  policyFile :: string
  archives :: "string list"

text \<open>\<open>back\<close> of an empty string is not defined by the library; the paths of the agent are not empty.\<close>

definition addLastDelimiter :: "string \<Rightarrow> string" where
  "addLastDelimiter path = (if last path \<noteq> CHR ''/'' then path @ ''/'' else path)"

definition InstallPkg_new :: "string \<Rightarrow> string \<Rightarrow> string list \<Rightarrow> InstallPkg" where
  "InstallPkg_new root policy archs = \<lparr>rootPath = addLastDelimiter root, policyFile = policy, archives = archs\<rparr>"

definition getPolicyPath :: "bool \<Rightarrow> InstallPkg \<Rightarrow> string" where
  "getPolicyPath fullpath pkg = (if fullpath then rootPath pkg @ policyFile pkg else policyFile pkg)"

definition getArchivesPath :: "bool \<Rightarrow> InstallPkg \<Rightarrow> string list" where
  "getArchivesPath fullpath pkg = (if \<not> fullpath then archives pkg else map (\<lambda>arch. rootPath pkg @ arch) (archives pkg))"

definition allFiles :: "bool \<Rightarrow> InstallPkg \<Rightarrow> string list" where
  "allFiles fullpath pkg = getArchivesPath fullpath pkg @ [getPolicyPath fullpath pkg]"

definition setRootPath :: "string \<Rightarrow> InstallPkg \<Rightarrow> InstallPkg" where
  "setRootPath path pkg = pkg\<lparr>rootPath := addLastDelimiter path\<rparr>"

definition POLICY_FILE :: string where "POLICY_FILE = ''Policy.json''"

text \<open>The package found, \<open>Some None\<close> for the result false.\<close>

definition InstallPackageDetector_process :: "dirs \<Rightarrow> string \<Rightarrow> InstallPkg option option" where
  "InstallPackageDetector_process dirs path = do {
     policyFiles \<leftarrow> FileNameDetector_process dirs path POLICY_FILE;
     if policyFiles = [] then Some None
     else do {
       archFiles \<leftarrow> ArchiveDetector_process dirs path;
       if length archFiles \<noteq> 1 then Some None
       else Some (Some (InstallPkg_new path (hd policyFiles) archFiles))
     }
   }"

section \<open>What the matchers decide\<close>

lemma std_equal_eq:
  "std_equal xs ys = (if is_prefix xs ys then Some True else if is_prefix ys xs then None else Some False)"
  by (induction xs ys rule: std_equal.induct) auto

lemma is_prefix_rev: "is_prefix (rev xs) (rev ys) \<longleftrightarrow> (\<exists>pre. ys = pre @ xs)"
  unfolding is_prefix_iff by (metis rev_append rev_rev_ident)

text \<open>With a separator in the path and none in the name, the comparison stays inside the path.\<close>

lemma suffix_matcher_path:
  assumes "CHR ''/'' \<notin> set suffix"
  shows "suffix_matcher suffix (path @ ''/'' @ name) = Some (\<exists>pre. name = pre @ suffix)"
proof -
  have "\<not> is_prefix (rev (path @ ''/'' @ name)) (rev suffix)"
    unfolding is_prefix_rev using assms by auto
  moreover have "(\<exists>pre. path @ ''/'' @ name = pre @ suffix) \<longleftrightarrow> (\<exists>pre. name = pre @ suffix)"
  proof
    assume "\<exists>pre. path @ ''/'' @ name = pre @ suffix"
    then obtain pre where e: "path @ CHR ''/'' # name = pre @ suffix" by auto
    then consider us where "path = pre @ us" "us @ CHR ''/'' # name = suffix"
      | us where "path @ us = pre" "CHR ''/'' # name = us @ suffix"
      by (auto simp: append_eq_append_conv2)
    then show "\<exists>pre. name = pre @ suffix"
    proof cases
      case 1
      with assms show ?thesis by auto
    next
      case 2
      then show ?thesis using assms by (cases us) auto
    qed
  next
    assume "\<exists>pre. name = pre @ suffix"
    then obtain pre where "name = pre @ suffix" by blast
    then show "\<exists>pre. path @ ''/'' @ name = pre @ suffix" by (intro exI [of _ "path @ ''/'' @ pre"]) simp
  qed
  ultimately show ?thesis unfolding suffix_matcher_def std_equal_eq is_prefix_rev by auto
qed

definition has_suffix :: "string \<Rightarrow> string \<Rightarrow> bool" where
  "has_suffix suffix name \<longleftrightarrow> is_prefix (rev suffix) (rev name)"

lemma suffix_matcher_has [simp]:
  "CHR ''/'' \<notin> set suffix \<Longrightarrow> suffix_matcher suffix (path @ CHR ''/'' # name) = Some (has_suffix suffix name)"
  using suffix_matcher_path [of suffix path name] by (simp add: has_suffix_def is_prefix_rev)

lemma FileMatcher_loop_total:
  "(\<And>name. matcher (path @ CHR ''/'' # name) = Some (P name)) \<Longrightarrow> FileMatcher_loop matcher path names = Some (filter P names)"
  by (induction names) auto

lemma FileMatcher_process_total:
  assumes "\<And>name. matcher (path @ CHR ''/'' # name) = Some (P name)"
  shows "FileMatcher_process dirs matcher path = Some (case dirs path of None \<Rightarrow> [] | Some names \<Rightarrow> filter P names)"
  using FileMatcher_loop_total [of matcher path P, OF assms] by (simp add: FileMatcher_process_def split: option.split)

definition entries :: "dirs \<Rightarrow> string \<Rightarrow> string list" where
  "entries dirs path = (case dirs path of None \<Rightarrow> [] | Some names \<Rightarrow> names)"

lemma FileMatcher_process_filter:
  "(\<And>name. matcher (path @ CHR ''/'' # name) = Some (P name)) \<Longrightarrow>
   FileMatcher_process dirs matcher path = Some (filter P (entries dirs path))"
  using FileMatcher_process_total [of matcher path P dirs] by (simp add: entries_def split: option.split)

lemma matcher_names [simp]:
  "CHR ''/'' \<notin> set MODULE_CONFIG" "CHR ''/'' \<notin> set MODULE_IMPL" "CHR ''/'' \<notin> set MODULE_WEIGHTS_EXT" "CHR ''/'' \<notin> set POLICY_FILE"
  by (simp_all add: MODULE_CONFIG_def MODULE_IMPL_def MODULE_WEIGHTS_EXT_def POLICY_FILE_def)

definition is_module :: "dirs \<Rightarrow> string \<Rightarrow> bool" where
  "is_module dirs path \<longleftrightarrow>
     (\<exists>n \<in> set (entries dirs path). has_suffix MODULE_CONFIG n) \<and> (\<exists>n \<in> set (entries dirs path). has_suffix MODULE_IMPL n) \<and>
     length (filter (has_suffix MODULE_WEIGHTS_EXT) (entries dirs path)) = 1"

lemma FileNameDetector_bool_eq:
  assumes "CHR ''/'' \<notin> set f"
  shows "FileNameDetector_bool dirs path f = Some (\<exists>n \<in> set (entries dirs path). has_suffix f n)"
  using FileMatcher_process_filter [of "suffix_matcher f" path "has_suffix f" dirs] assms
  by (auto simp: FileNameDetector_bool_def FileNameDetector_process_def filter_empty_conv)

lemma StructureMatcher_eq: "StructureMatcher dirs path = Some (is_module dirs path)"
proof -
  have "FileMatcher_process dirs (ExtensionMatcher MODULE_WEIGHTS_EXT) path =
      Some (filter (has_suffix MODULE_WEIGHTS_EXT) (entries dirs path))"
    by (rule FileMatcher_process_filter) (simp add: ExtensionMatcher_def)
  then show ?thesis by (auto simp: StructureMatcher_def is_module_def FileNameDetector_bool_eq)
qed

definition archive_kind :: "dirs \<Rightarrow> string \<Rightarrow> string \<Rightarrow> ArchiveType" where
  "archive_kind dirs path name =
     (if has_suffix ''.zip'' name then ZIP else if has_suffix ''.tar'' name then TAR
      else if is_module dirs (path @ ''/'' @ name) then FOLDER else UNKNOWN)"

lemma identify_kind: "ArchiveDetector_identify dirs (path @ CHR ''/'' # name) = Some (archive_kind dirs path name)"
  by (simp add: ArchiveDetector_identify_def archTypes_def ExtensionMatcher_def StructureMatcher_eq archive_kind_def)

lemma match_kind: "ArchiveDetector_match dirs (path @ CHR ''/'' # name) = Some (archive_kind dirs path name \<noteq> UNKNOWN)"
  by (simp add: ArchiveDetector_match_def archTypes_def ExtensionMatcher_def StructureMatcher_eq archive_kind_def)

lemma InstallPackageDetector_process_shape:
  "InstallPackageDetector_process dirs path =
     Some (case (filter (has_suffix POLICY_FILE) (entries dirs path),
                 filter (\<lambda>n. archive_kind dirs path n \<noteq> UNKNOWN) (entries dirs path)) of
             (policy # _, [arch]) \<Rightarrow> Some \<lparr>rootPath = addLastDelimiter path, policyFile = policy, archives = [arch]\<rparr>
           | _ \<Rightarrow> None)"
proof -
  have p: "FileNameDetector_process dirs path POLICY_FILE = Some (filter (has_suffix POLICY_FILE) (entries dirs path))"
    unfolding FileNameDetector_process_def by (rule FileMatcher_process_filter) simp
  have a: "ArchiveDetector_process dirs path = Some (filter (\<lambda>n. archive_kind dirs path n \<noteq> UNKNOWN) (entries dirs path))"
    unfolding ArchiveDetector_process_def by (rule FileMatcher_process_filter) (simp add: match_kind)
  show ?thesis
    by (simp add: InstallPackageDetector_process_def p a InstallPkg_new_def split: list.split)
qed

text \<open>
  C29. The detector never reads outside a string; it finds a package in a directory exactly if some
  entry's name ends in the policy file's name and exactly one entry is an archive or a module folder,
  and it takes the first such policy entry, also one whose name only ends like the policy file's.
\<close>

theorem package_detection:
  "InstallPackageDetector_process dirs path =
     Some (case (filter (has_suffix POLICY_FILE) (entries dirs path),
                 filter (\<lambda>n. archive_kind dirs path n \<noteq> UNKNOWN) (entries dirs path)) of
             (policy # _, [arch]) \<Rightarrow> Some \<lparr>rootPath = addLastDelimiter path, policyFile = policy, archives = [arch]\<rparr>
           | _ \<Rightarrow> None)"
  by (rule InstallPackageDetector_process_shape)

end
