(* ===== verification/Usb_Monitor.thy ===== *)
theory Usb_Monitor
  imports Archive_Detector "HOL-Library.Multiset"
begin

text \<open>
  \<open>UsbMassStorageMonitor\<close> and \<open>MountPointResolver\<close> (DeploymentAgent/src). The libraries libudev and
  mntent are not under src: what they answer is a record, and the environment gives one for every
  point of the run, named by the references taken and released so far. Devices are any type; a
  reference counted pointer is a device together with its entries in the trace. A result \<open>None\<close> is
  undefined behaviour: a null pointer used as a C string, or a read behind a string.
\<close>

record 'dev udev_lib =
  child_paths :: "'dev \<Rightarrow> string \<Rightarrow> string list"
  scsi_paths :: "string list"
  from_syspath :: "string \<Rightarrow> 'dev option"
  usb_parent :: "'dev \<Rightarrow> 'dev option"
  devnode :: "'dev \<Rightarrow> string option"
  devpath :: "'dev \<Rightarrow> string option"
  sysattr :: "'dev \<Rightarrow> string \<Rightarrow> string option"
  action :: "'dev \<Rightarrow> string option"
  received :: "'dev option"
  mtab :: "(string \<times> string) list option"

datatype 'dev ref_call = Acquire 'dev | Ref 'dev | Unref 'dev

type_synonym 'dev refs = "'dev ref_call list"
type_synonym 'dev udev_env = "'dev refs \<Rightarrow> 'dev udev_lib"

section \<open>Mount points\<close>

fun resolve_entries :: "('s \<Rightarrow> string \<Rightarrow> string \<Rightarrow> 's option) \<Rightarrow> (string \<times> string) list \<Rightarrow> 's \<Rightarrow> 's option" where
  "resolve_entries consumer [] s = Some s"
| "resolve_entries consumer ((fsName, dir) # es) s = do { s \<leftarrow> consumer s fsName dir; resolve_entries consumer es s }"

definition MountPointResolver_resolve ::
  "(string \<times> string) list option \<Rightarrow> ('s \<Rightarrow> string \<Rightarrow> string \<Rightarrow> 's option) \<Rightarrow> 's \<Rightarrow> 's option" where
  "MountPointResolver_resolve table consumer s =
     (case table of None \<Rightarrow> Some s | Some es \<Rightarrow> resolve_entries consumer es s)"

section \<open>Devices\<close>

record UsbMassStorage =
  mountPath :: string
  fsName :: string
  vendor :: string
  productId :: string

definition UsbMassStorage_empty :: UsbMassStorage where
  "UsbMassStorage_empty = \<lparr>mountPath = [], fsName = [], vendor = [], productId = []\<rparr>"

definition UsbMassStorage_bool :: "UsbMassStorage \<Rightarrow> bool" where
  "UsbMassStorage_bool s \<longleftrightarrow> 0 < length (mountPath s)"

definition UsbMassStorage_show :: "UsbMassStorage \<Rightarrow> string" where
  "UsbMassStorage_show s = ''fsName='' @ fsName s @ '', mountPath='' @ mountPath s @ '', '' @ vendor s @ '':'' @ productId s"

definition GetChild :: "'dev udev_env \<Rightarrow> 'dev \<Rightarrow> string \<Rightarrow> 'dev refs \<Rightarrow> 'dev option \<times> 'dev refs" where
  "GetChild env parent subsystem tr =
     (case child_paths (env tr) parent subsystem of
        [] \<Rightarrow> (None, tr)
      | path # _ \<Rightarrow>
          (case from_syspath (env tr) path of
             None \<Rightarrow> (None, tr)
           | Some child \<Rightarrow> (Some child, tr @ [Acquire child])))"

text \<open>\<open>udev_device_unref\<close>, which accepts a null pointer.\<close>

definition unref :: "'dev option \<Rightarrow> 'dev refs \<Rightarrow> 'dev refs" where
  "unref dev tr = (case dev of None \<Rightarrow> tr | Some d \<Rightarrow> tr @ [Unref d])"

definition mount_of :: "(string \<times> string) list option \<Rightarrow> string \<Rightarrow> string option" where
  "mount_of table devFsName =
     MountPointResolver_resolve table
       (\<lambda>mountPoint fsName dir. do { eq \<leftarrow> std_equal devFsName fsName; Some (if eq then dir else mountPoint) }) []"

definition processDevice :: "'dev udev_env \<Rightarrow> 'dev \<Rightarrow> 'dev refs \<Rightarrow> (UsbMassStorage \<times> 'dev refs) option" where
  "processDevice env dev tr =
     (case GetChild env dev ''block'' tr of (block, tr) \<Rightarrow>
      case GetChild env dev ''scsi_disk'' tr of (scsi_disk, tr) \<Rightarrow>
      case (block, scsi_disk, usb_parent (env tr) dev) of
        (Some b, Some s, Some usb) \<Rightarrow> do {
          devFsName \<leftarrow> devnode (env tr) b;
          mountPoint \<leftarrow> mount_of (mtab (env tr)) devFsName;
          let tr = unref (Some s) (unref (Some b) tr);
          if mountPoint = [] then Some (UsbMassStorage_empty, tr)
          else do {
            v \<leftarrow> sysattr (env tr) usb ''idVendor'';
            p \<leftarrow> sysattr (env tr) usb ''idProduct'';
            Some (\<lparr>mountPath = mountPoint, fsName = devFsName, vendor = v, productId = p\<rparr>, tr)
          }
        }
      | _ \<Rightarrow> Some (UsbMassStorage_empty, unref scsi_disk (unref block tr)))"

fun enumerate_loop :: "'dev udev_env \<Rightarrow> string list \<Rightarrow> 'dev refs \<Rightarrow> (UsbMassStorage list \<times> 'dev refs) option" where
  "enumerate_loop env [] tr = Some ([], tr)"
| "enumerate_loop env (path # paths) tr =
     (case from_syspath (env tr) path of
        None \<Rightarrow> enumerate_loop env paths tr
      | Some dev \<Rightarrow> do {
          (s, tr) \<leftarrow> processDevice env dev (tr @ [Acquire dev]);
          (result, tr) \<leftarrow> enumerate_loop env paths (tr @ [Unref dev]);
          Some (if UsbMassStorage_bool s then s # result else result, tr)
        })"

definition enumerateDevices :: "'dev udev_env \<Rightarrow> 'dev refs \<Rightarrow> (UsbMassStorage list \<times> 'dev refs) option" where
  "enumerateDevices env tr = enumerate_loop env (scsi_paths (env tr)) tr"

section \<open>The monitor\<close>

text \<open>The constructor's exception, and whether it first released what it had taken.\<close>

definition UsbMassStorageMonitor_new :: "bool \<Rightarrow> bool \<Rightarrow> int \<Rightarrow> int \<Rightarrow> (string \<times> bool) option" where
  "UsbMassStorageMonitor_new udev mon filterResult enableResult =
     (if \<not> udev then Some (''udev_new() failed'', False)
      else if \<not> mon then Some (''udev_monitor_new_from_netlink() failed'', True)
      else if filterResult < 0 then Some (''udev_monitor_filter_add_match_subsystem_devtype() failed'', True)
      else if enableResult < 0 then Some (''udev_monitor_enable_receiving() failed'', True)
      else None)"

text \<open>\<open>strncmp\<close> on strings without NUL.\<close>

definition strncmp_eq :: "string \<Rightarrow> string \<Rightarrow> nat \<Rightarrow> bool" where
  "strncmp_eq a b n \<longleftrightarrow> take n a = take n b"

definition checkIfSameDevice :: "'dev udev_lib \<Rightarrow> 'dev \<Rightarrow> 'dev \<Rightarrow> bool" where
  "checkIfSameDevice lib dev otherDev =
     (case (devpath lib dev, devpath lib otherDev) of
        (Some thisId, Some otherId) \<Rightarrow> strncmp_eq thisId otherId 255
      | _ \<Rightarrow> False)"

definition handle_usb_events :: "'dev udev_env \<Rightarrow> 'dev list \<Rightarrow> 'dev refs \<Rightarrow> ('dev list \<times> 'dev refs) option" where
  "handle_usb_events env delayed tr =
     (case received (env tr) of
        None \<Rightarrow> Some (delayed, tr)
      | Some dev \<Rightarrow> do {
          let tr = tr @ [Acquire dev];
          act \<leftarrow> action (env tr) dev;
          let (delayed, tr) =
            (if strncmp_eq ''add'' act 3 then (delayed @ [dev], tr @ [Ref dev])
             else if strncmp_eq ''remove'' act 6 then
               (case find_idx (\<lambda>item. checkIfSameDevice (env tr) item dev) delayed of
                  None \<Rightarrow> (delayed, tr)
                | Some i \<Rightarrow> (erase_at i delayed, tr @ [Unref (delayed ! i)]))
             else (delayed, tr));
          Some (delayed, tr @ [Unref dev])
        })"

text \<open>
  The predicate \<open>process\<close> gives to \<open>std::partition\<close>, and the partition itself for a predicate with
  effects: from the front up to the first element that fails, then from the back down to the last one
  that passes, the two exchanged, and so on inwards. The result is what stands before the boundary and
  what stands behind it.
\<close>

definition keep_device ::
  "'dev udev_env \<Rightarrow> 'dev \<Rightarrow> UsbMassStorage list \<times> 'dev refs \<Rightarrow> (bool \<times> UsbMassStorage list \<times> 'dev refs) option" where
  "keep_device env dev st =
     (case st of (reports, tr) \<Rightarrow> do {
        (s, tr) \<leftarrow> processDevice env dev tr;
        Some (\<not> UsbMassStorage_bool s, if UsbMassStorage_bool s then reports @ [s] else reports, tr)
      })"

fun scan_back :: "('a \<Rightarrow> 's \<Rightarrow> (bool \<times> 's) option) \<Rightarrow> 'a list \<Rightarrow> 's \<Rightarrow> ('a list \<times> ('a \<times> 'a list) option \<times> 's) option" where
  "scan_back pred [] s = Some ([], None, s)"
| "scan_back pred (y # ys) s = do {
     (keep, s) \<leftarrow> pred y s;
     if keep then Some ([], Some (y, ys), s)
     else do { (failed, r, s) \<leftarrow> scan_back pred ys s; Some (y # failed, r, s) }
   }"

lemma scan_back_split:
  "scan_back pred xs s = Some (failed, r, s') \<Longrightarrow>
   xs = failed @ (case r of None \<Rightarrow> [] | Some (y, ys) \<Rightarrow> y # ys)"
  by (induction xs arbitrary: s failed) (auto split: if_splits bind_splits)

function partition_with :: "('a \<Rightarrow> 's \<Rightarrow> (bool \<times> 's) option) \<Rightarrow> 'a list \<Rightarrow> 's \<Rightarrow> ('a list \<times> 'a list \<times> 's) option" where
  "partition_with pred [] s = Some ([], [], s)"
| "partition_with pred (x # xs) s =
     (case pred x s of
        None \<Rightarrow> None
      | Some (True, s) \<Rightarrow> map_option (\<lambda>(k, r, s). (x # k, r, s)) (partition_with pred xs s)
      | Some (False, s) \<Rightarrow>
          (case scan_back pred (rev xs) s of
             None \<Rightarrow> None
           | Some (failed, None, s) \<Rightarrow> Some ([], x # rev failed, s)
           | Some (failed, Some (y, ys), s) \<Rightarrow>
               map_option (\<lambda>(k, r, s). (y # k, r @ x # rev failed, s)) (partition_with pred (rev ys) s)))"
  by pat_completeness auto
termination
  by (relation "measure (\<lambda>(pred, xs, s). length xs)") (auto dest!: scan_back_split dest: arg_cong [of _ _ length])

definition process_usb :: "'dev udev_env \<Rightarrow> 'dev list \<Rightarrow> 'dev refs \<Rightarrow> (UsbMassStorage list \<times> 'dev list \<times> 'dev refs) option" where
  "process_usb env delayed tr = do {
     (kept, done, reports, tr) \<leftarrow> partition_with (keep_device env) delayed ([], tr);
     Some (reports, kept, tr @ map Unref done)
   }"

text \<open>The destructor releases the devices that are still delayed.\<close>

definition UsbMassStorageMonitor_destroy :: "'dev list \<Rightarrow> 'dev refs \<Rightarrow> 'dev refs" where
  "UsbMassStorageMonitor_destroy delayed tr = tr @ map Unref delayed"

end
