(* ===== verification/Usb_Correct.thy ===== *)
theory Usb_Correct
  imports Usb_Monitor
begin

text \<open>
  The monitor keeps exactly one reference for every device it delays, and \<open>process\<close> hands every
  mounted device over once and keeps the others.
\<close>

section \<open>References\<close>

definition held :: "'dev refs \<Rightarrow> 'dev \<Rightarrow> int" where
  "held tr d = int (count_list tr (Acquire d)) + int (count_list tr (Ref d)) - int (count_list tr (Unref d))"

lemma held_simps [simp]:
  "held [] d = 0"
  "held (tr @ tr') d = held tr d + held tr' d"
  "held (Acquire e # tr) d = (if e = d then 1 else 0) + held tr d"
  "held (Ref e # tr) d = (if e = d then 1 else 0) + held tr d"
  "held (Unref e # tr) d = held tr d - (if e = d then 1 else 0)"
  by (simp_all add: held_def)

lemma held_unref [simp]: "held (unref dev tr) d = held tr d - (if dev = Some d then 1 else 0)"
  by (simp add: unref_def split: option.split)

lemma held_map_Unref [simp]: "held (map Unref ds) d = - int (count_list ds d)"
  by (induction ds) auto

lemma held_GetChild: "GetChild env p s tr = (c, tr') \<Longrightarrow> held tr' d = held tr d + (if c = Some d then 1 else 0)"
  by (auto simp: GetChild_def split: list.splits option.splits)

lemma processDevice_held: "processDevice env dev tr = Some (s, tr') \<Longrightarrow> held tr' d = held tr d"
proof -
  assume p: "processDevice env dev tr = Some (s, tr')"
  obtain block tr1 where b: "GetChild env dev ''block'' tr = (block, tr1)" by fastforce
  obtain scsi tr2 where c: "GetChild env dev ''scsi_disk'' tr1 = (scsi, tr2)" by fastforce
  from p have "tr' = unref scsi (unref block tr2)"
    by (auto simp: processDevice_def b c Let_def split: option.splits bind_splits if_splits)
  then show ?thesis using held_GetChild [OF b, of d] held_GetChild [OF c, of d] by simp
qed

section \<open>What a partition does with its predicate\<close>

text \<open>A sequence of calls of the predicate, with the answers it gave.\<close>

fun applied :: "('a \<Rightarrow> 's \<Rightarrow> (bool \<times> 's) option) \<Rightarrow> 's \<Rightarrow> ('a \<times> bool) list \<Rightarrow> 's \<Rightarrow> bool" where
  "applied pred s [] s' \<longleftrightarrow> s' = s"
| "applied pred s ((x, b) # ps) s' \<longleftrightarrow> (\<exists>s1. pred x s = Some (b, s1) \<and> applied pred s1 ps s')"

lemma applied_append: "applied pred s (ps @ qs) s' \<longleftrightarrow> (\<exists>s1. applied pred s ps s1 \<and> applied pred s1 qs s')"
  by (induction ps arbitrary: s) fastforce+

text \<open>The elements that got an answer.\<close>

definition answered :: "bool \<Rightarrow> ('a \<times> bool) list \<Rightarrow> 'a multiset" where
  "answered b ps = image_mset fst (filter_mset (\<lambda>p. snd p = b) (mset ps))"

lemma answered_simps [simp]:
  "answered b [] = {#}"
  "answered b ((x, c) # ps) = (if c = b then add_mset x (answered b ps) else answered b ps)"
  "answered b (ps @ qs) = answered b ps + answered b qs"
  "answered True (map (\<lambda>x. (x, False)) xs) = {#}"
  "answered False (map (\<lambda>x. (x, False)) xs) = mset xs"
  by (simp_all add: answered_def) (induction xs; simp)+

lemma scan_back_applied:
  "scan_back pred xs s = Some (failed, r, s') \<Longrightarrow>
   applied pred s (map (\<lambda>x. (x, False)) failed @ (case r of None \<Rightarrow> [] | Some (y, ys) \<Rightarrow> [(y, True)])) s'"
proof (induction xs arbitrary: s failed)
  case (Cons y ys)
  then obtain b s1 where b: "pred y s = Some (b, s1)" by (auto split: bind_splits)
  with Cons show ?case by (cases b) (auto split: bind_splits)
qed simp

text \<open>What happens behind a first element whose answer is false.\<close>

lemma partition_with_false:
  assumes "pred x s = Some (False, s1)" "partition_with pred (x # xs) s = Some (k, r, s')"
  obtains failed where "applied pred s (map (\<lambda>x. (x, False)) (x # failed)) s'" "mset xs = mset failed" "k = []" "r = x # rev failed"
  | failed y ys s2 k' r' where "applied pred s (map (\<lambda>x. (x, False)) (x # failed) @ [(y, True)]) s2"
    "rev xs = failed @ y # ys" "k = y # k'" "r = r' @ x # rev failed" "partition_with pred (rev ys) s2 = Some (k', r', s')"
proof -
  from assms obtain failed q s2 where q: "scan_back pred (rev xs) s1 = Some (failed, q, s2)" by (auto split: option.splits)
  note F = scan_back_applied [OF q] and split = scan_back_split [OF q]
  show ?thesis
  proof (cases q)
    case None
    then have "mset xs = mset failed" using split by (metis append_Nil2 mset_rev option.simps(4))
    with assms q None F that(1) show ?thesis by auto
  next
    case (Some p)
    obtain y ys where p: "p = (y, ys)" by (cases p)
    have "rev xs = failed @ y # ys" using split Some p by simp
    with assms q Some p F that(2) show ?thesis by (auto split: option.splits)
  qed
qed

text \<open>
  The contract of \<open>std::partition\<close>: the predicate is applied exactly once to every element, in some
  order, and an element goes to the front if and only if its answer was true.
\<close>

lemma partition_with_applied:
  "partition_with pred xs s = Some (k, r, s') \<Longrightarrow>
   \<exists>ps. applied pred s ps s' \<and> answered True ps + answered False ps = mset xs \<and> mset k = answered True ps \<and> mset r = answered False ps"
proof (induction "length xs" arbitrary: xs s k r rule: less_induct)
  case less
  show ?case
  proof (cases xs)
    case Nil
    with less.prems show ?thesis by (intro exI [of _ "[]"]) simp
  next
    case (Cons x xs')
    with less.prems obtain b s1 where b: "pred x s = Some (b, s1)" by (auto split: option.splits)
    show ?thesis
    proof (cases b)
      case True
      with less.prems b Cons obtain k' where k': "k = x # k'" "partition_with pred xs' s1 = Some (k', r, s')" by auto
      from less.hyps [OF _ k'(2)] Cons obtain ps where "applied pred s1 ps s'"
        "answered True ps + answered False ps = mset xs'" "mset k' = answered True ps" "mset r = answered False ps" by auto
      with b True k'(1) Cons show ?thesis by (intro exI [of _ "(x, True) # ps"]) auto
    next
      case False
      with b have "pred x s = Some (False, s1)" by simp
      from this less.prems [unfolded Cons] show ?thesis
      proof (cases rule: partition_with_false)
        case (1 failed)
        with Cons show ?thesis by (intro exI [of _ "map (\<lambda>x. (x, False)) (x # failed)"]) auto
      next
        case (2 failed y ys s2 k' r')
        have ms: "mset xs' = mset failed + {#y#} + mset ys" using 2(2) by (simp flip: mset_rev [of xs'])
        have "length (rev ys) < length xs" using arg_cong [OF 2(2), of length] Cons by simp
        from less.hyps [OF this 2(5)] obtain ps where "applied pred s2 ps s'"
          "answered True ps + answered False ps = mset ys" "mset k' = answered True ps" "mset r' = answered False ps" by auto
        with 2(1,3,4) Cons ms show ?thesis
          by (intro exI [of _ "(map (\<lambda>x. (x, False)) (x # failed) @ [(y, True)]) @ ps"]) (auto simp: applied_append)
      qed
    qed
  qed
qed

text \<open>
  The interface between a partition and a predicate whose answers are known: it answers \<open>P x\<close> and adds
  \<open>f x\<close> to what the state has gained when the answer is false.
\<close>

locale counting_predicate =
  fixes pred :: "'a \<Rightarrow> 's \<Rightarrow> (bool \<times> 's) option" and P :: "'a \<Rightarrow> bool"
    and gained :: "'s \<Rightarrow> 'b multiset" and f :: "'a \<Rightarrow> 'b"
  assumes answer: "pred x s = Some (b, s') \<Longrightarrow> b = P x \<and> gained s' = gained s + (if b then {#} else {#f x#})"
begin

lemma applied_answers:
  "applied pred s ps s' \<Longrightarrow>
   answered True ps = filter_mset P (answered True ps + answered False ps) \<and>
   answered False ps = filter_mset (\<lambda>x. \<not> P x) (answered True ps + answered False ps) \<and>
   gained s' = gained s + image_mset f (answered False ps)"
proof (induction ps arbitrary: s)
  case (Cons p ps)
  obtain x b where p: "p = (x, b)" by (cases p)
  with Cons.prems obtain s1 where s1: "pred x s = Some (b, s1)" "applied pred s1 ps s'" by auto
  from Cons.IH [OF s1(2)] answer [OF s1(1)] show ?case by (auto simp: p)
qed simp

lemma partition_answers:
  assumes "partition_with pred xs s = Some (k, r, s')"
  shows "mset k = filter_mset P (mset xs) \<and> mset r = filter_mset (\<lambda>x. \<not> P x) (mset xs) \<and>
    gained s' = gained s + image_mset f (filter_mset (\<lambda>x. \<not> P x) (mset xs))"
proof -
  from partition_with_applied [OF assms] obtain ps where ps: "applied pred s ps s'"
    "answered True ps + answered False ps = mset xs" "mset k = answered True ps" "mset r = answered False ps" by blast
  from applied_answers [OF ps(1)] show ?thesis unfolding ps(2-4) by metis
qed

end

section \<open>One reference for every delayed device\<close>

lemma count_erase_at:
  "find_idx P xs = Some i \<Longrightarrow> int (count_list (erase_at i xs) d) = int (count_list xs d) - (if xs ! i = d then 1 else 0)"
  by (induction xs arbitrary: i) (auto simp: erase_at_def split: if_splits)

lemma handle_usb_held:
  assumes "handle_usb_events env delayed tr = Some (delayed', tr')"
  shows "held tr' d - int (count_list delayed' d) = held tr d - int (count_list delayed d)"
  using assms count_erase_at [of _ delayed]
  by (fastforce simp: handle_usb_events_def Let_def split: option.splits bind_splits if_splits)

lemma count_list_mset_eq: "int (count_list xs d) = int (count (mset xs) d)"
  by (simp add: count_mset)

lemma keep_device_held:
  "keep_device env x s = Some (b, s') \<Longrightarrow> held (snd s') d = held (snd s) d"
  by (auto simp: keep_device_def split: bind_splits if_splits prod.splits dest: processDevice_held)

text \<open>The invariant as a reachability predicate of the monitor's operations.\<close>

inductive usb_reach :: "'dev udev_env \<Rightarrow> 'dev list \<Rightarrow> 'dev refs \<Rightarrow> bool" for env where
  new: "usb_reach env [] []"
| handle: "usb_reach env delayed tr \<Longrightarrow> handle_usb_events env delayed tr = Some (delayed', tr') \<Longrightarrow> usb_reach env delayed' tr'"
| process: "usb_reach env delayed tr \<Longrightarrow> process_usb env delayed tr = Some (reports, kept, tr') \<Longrightarrow> usb_reach env kept tr'"
| enumerate: "usb_reach env delayed tr \<Longrightarrow> enumerateDevices env tr = Some (result, tr') \<Longrightarrow> usb_reach env delayed tr'"

lemma applied_held: "applied (keep_device env) s ps s' \<Longrightarrow> held (snd s') d = held (snd s) d"
proof (induction ps arbitrary: s)
  case (Cons p ps)
  then obtain s1 where "keep_device env (fst p) s = Some (snd p, s1)" "held (snd s') d = held (snd s1) d" by (cases p) auto
  then show ?case using keep_device_held by metis
qed simp

lemma partition_held:
  assumes "partition_with (keep_device env) xs s = Some (k, r, s')"
  shows "held (snd s') d = held (snd s) d \<and> mset xs = mset k + mset r"
  using partition_with_applied [OF assms] applied_held [of env s _ s' d] by fastforce

lemma enumerate_loop_held: "enumerate_loop env paths tr = Some (result, tr') \<Longrightarrow> held tr' d = held tr d"
  by (induction env paths tr arbitrary: result tr' rule: enumerate_loop.induct)
     (fastforce split: option.splits bind_splits if_splits dest: processDevice_held [of _ _ _ _ _ d])+

lemma process_usb_held:
  assumes "process_usb env delayed tr = Some (reports, kept, tr')"
  shows "held tr' d - int (count_list kept d) = held tr d - int (count_list delayed d)"
proof -
  from assms obtain gone tr1 where p: "partition_with (keep_device env) delayed ([], tr) = Some (kept, gone, reports, tr1)"
    and tr': "tr' = tr1 @ map Unref gone" by (auto simp: process_usb_def split: bind_splits)
  from partition_held [OF p, of d] show ?thesis by (simp add: tr' count_list_mset_eq)
qed

lemma usb_reach_held: "usb_reach env delayed tr \<Longrightarrow> held tr d = int (count_list delayed d)"
proof (induction rule: usb_reach.induct)
  case (handle delayed tr delayed' tr')
  then show ?case using handle_usb_held [OF handle.hyps(2), of d] by simp
next
  case (process delayed tr reports kept tr')
  then show ?case using process_usb_held [OF process.hyps(2), of d] by simp
next
  case (enumerate delayed tr result tr')
  then show ?case using enumerate_loop_held [of env _ tr result tr' d] by (simp add: enumerateDevices_def)
qed simp

text \<open>
  C17. No device is leaked and none is released too early: in every reachable state the monitor holds
  exactly one reference for every time a device stands in its list of delayed ones, and after the
  destructor none.
\<close>

theorem usb_references_balanced:
  assumes "usb_reach env delayed tr"
  shows "held tr d = int (count_list delayed d) \<and> held (UsbMassStorageMonitor_destroy delayed tr) d = 0"
  using usb_reach_held [OF assms] by (simp add: UsbMassStorageMonitor_destroy_def)

definition plugged :: "nat udev_lib" where
  "plugged = \<lparr>child_paths = (\<lambda>d s. if d = 1 then [s] else []), scsi_paths = [],
     from_syspath = (\<lambda>p. Some (if p = ''block'' then 2 else 3)), usb_parent = (\<lambda>d. Some 4),
     devnode = (\<lambda>d. Some ''/dev/sdb''), devpath = (\<lambda>d. Some ''/devices/usb1''), sysattr = (\<lambda>d a. Some ''0951''),
     action = (\<lambda>d. Some ''add''), received = Some 1, mtab = Some [(''/dev/sdb1'', ''/media/stick'')]\<rparr>"

theorem usb_references_balanced_witness:
  "held [Acquire 1, Ref 1, Unref (1 :: nat)] 1 = int (count_list [1 :: nat] 1)"
proof -
  have "handle_usb_events (\<lambda>_. plugged) [] [] = Some ([1], [Acquire 1, Ref 1, Unref 1])"
    by (simp add: handle_usb_events_def plugged_def strncmp_eq_def)
  then have "usb_reach (\<lambda>_. plugged) [1] [Acquire 1, Ref 1, Unref 1]"
    using usb_reach.handle [OF usb_reach.new] by blast
  from usb_references_balanced [OF this, of 1] show ?thesis by blast
qed

section \<open>Every mounted device once\<close>

text \<open>What is known of a device while the libraries keep answering the same.\<close>

definition storage_of :: "'dev udev_lib \<Rightarrow> 'dev \<Rightarrow> UsbMassStorage option" where
  "storage_of lib dev = map_option fst (processDevice (\<lambda>_. lib) dev [])"

lemma processDevice_static: "map_option fst (processDevice (\<lambda>_. lib) dev tr) = storage_of lib dev"
  by (auto simp: storage_of_def processDevice_def GetChild_def Let_def map_option_bind
      split: list.splits option.splits bind_splits intro!: bind_option_cong)

definition mounted :: "'dev udev_lib \<Rightarrow> 'dev \<Rightarrow> bool" where
  "mounted lib dev \<longleftrightarrow> UsbMassStorage_bool (the (storage_of lib dev))"

lemma scan_back_total: "(\<And>x s. x \<in> set xs \<Longrightarrow> pred x s \<noteq> None) \<Longrightarrow> scan_back pred xs s \<noteq> None"
proof (induction xs arbitrary: s)
  case (Cons y ys)
  obtain b s1 where "pred y s = Some (b, s1)" using Cons.prems [of y s] by auto
  moreover obtain q where "scan_back pred ys s1 = Some q" using Cons.IH [of s1] Cons.prems by auto
  ultimately show ?case by (cases q) auto
qed simp

lemma partition_with_total:
  "(\<And>x s. x \<in> set xs \<Longrightarrow> pred x s \<noteq> None) \<Longrightarrow> partition_with pred xs s \<noteq> None"
proof (induction "length xs" arbitrary: xs s rule: less_induct)
  case less
  show ?case
  proof (cases xs)
    case (Cons x xs')
    then obtain b s1 where b: "pred x s = Some (b, s1)" using less.prems [of x s] by auto
    obtain failed r s2 where q: "scan_back pred (rev xs') s1 = Some (failed, r, s2)"
      using scan_back_total [of "rev xs'" pred s1] less.prems Cons by fastforce
    have "partition_with pred xs' s1 \<noteq> None" using less.hyps [of xs' s1] less.prems Cons by simp
    moreover have "partition_with pred (rev ys) s2 \<noteq> None" if "r = Some (y, ys)" for y ys
    proof (rule less.hyps)
      have e: "rev xs' = failed @ y # ys" using scan_back_split [OF q] that by simp
      then have "length (rev xs') = length failed + Suc (length ys)" by simp
      then show "length (rev ys) < length xs" using Cons by simp
      have "set ys \<subseteq> set xs'" using arg_cong [OF e, of set] by auto
      then show "pred x s \<noteq> None" if "x \<in> set (rev ys)" for x s using that less.prems Cons by auto
    qed
    ultimately show ?thesis using b q Cons by (cases b; cases r) auto
  qed simp
qed

lemma keep_device_static:
  assumes "keep_device (\<lambda>_. lib) x s = Some (b, s')"
  shows "b = (\<not> mounted lib x) \<and>
    mset (fst s') = mset (fst s) + (if b then {#} else {#the (storage_of lib x)#})"
proof -
  obtain reports tr where s: "s = (reports, tr)" by (cases s)
  with assms obtain u tr' where "processDevice (\<lambda>_. lib) x tr = Some (u, tr')" "b = (\<not> UsbMassStorage_bool u)"
    "s' = (if UsbMassStorage_bool u then reports @ [u] else reports, tr')"
    by (auto simp: keep_device_def split: bind_splits)
  moreover from this have "storage_of lib x = Some u" using processDevice_static [of lib x tr] by simp
  ultimately show ?thesis using s by (simp add: mounted_def)
qed

interpretation keep_static: counting_predicate "keep_device (\<lambda>_. lib)" "\<lambda>d. \<not> mounted lib d" "\<lambda>s. mset (fst s)"
    "\<lambda>d. the (storage_of lib d)" for lib
  by unfold_locales (rule keep_device_static)



end
