(* ===== verification/System_Observer.thy ===== *)
theory System_Observer
  imports Folder_Monitor Usb_Correct Epoll_Worker
begin

text \<open>
  \<open>SystemObservable\<close> and \<open>SystemObserver\<close> (DeploymentAgent/src and notify_file): monitors of either
  kind behind one interface, an epoll descriptor over their descriptors, and the loop that hands
  events to the monitors and lets every monitor report to its consumer. What the consumers are told is
  recorded. \<open>clock\<close> gives the readings of the steady clock at a point of the trace; the loop's
  condition is true a given number of times, and no number bounds the agent, whose condition never
  turns false.
\<close>

text \<open>A monitor of the USB bus is its delayed devices and the descriptor of its netlink socket.\<close>

datatype 'dev observable = Folder FolderMonitor | Usb int "'dev list"

datatype report = File_ready "byte list" | Usb_mounted UsbMassStorage

text \<open>The monitor is moved into its holder.\<close>

definition SystemObservable_folder :: "FolderMonitor \<Rightarrow> 'dev observable" where
  "SystemObservable_folder m = Folder (fst (FolderMonitor_move m))"

definition SystemObservable_usb :: "int \<Rightarrow> 'dev list \<Rightarrow> 'dev observable" where
  "SystemObservable_usb fd delayed = Usb fd delayed"

fun getFileDescriptor :: "'dev observable \<Rightarrow> int" where
  "getFileDescriptor (Folder m) = descriptor m"
| "getFileDescriptor (Usb fd delayed) = fd"

definition SystemObservable_match :: "int \<Rightarrow> 'dev observable \<Rightarrow> bool" where
  "SystemObservable_match fileDescriptor obs \<longleftrightarrow> fileDescriptor = getFileDescriptor obs"

fun observable_handle ::
  "(int, 'z) os_scheme \<Rightarrow> 'dev udev_env \<Rightarrow> (int trace \<Rightarrow> nat \<Rightarrow> int) \<Rightarrow> 'dev observable \<Rightarrow> 'dev refs \<Rightarrow> int trace \<Rightarrow>
     ('dev observable \<times> 'dev refs \<times> int trace) option" where
  "observable_handle os env clock (Folder m) refs tr =
     map_option (\<lambda>(m, tr). (Folder m, refs, tr)) (handleIncommingEvents os (clock tr) m tr)"
| "observable_handle os env clock (Usb fd delayed) refs tr =
     map_option (\<lambda>(delayed, refs). (Usb fd delayed, refs, tr)) (handle_usb_events env delayed refs)"

fun observable_process ::
  "'dev udev_env \<Rightarrow> (nat \<Rightarrow> int) \<Rightarrow> 'dev observable \<Rightarrow> 'dev refs \<Rightarrow> (report list \<times> 'dev observable \<times> 'dev refs) option" where
  "observable_process env clock (Folder m) refs =
     (case FolderMonitor_process clock m of (paths, m) \<Rightarrow> Some (map File_ready paths, Folder m, refs))"
| "observable_process env clock (Usb fd delayed) refs =
     map_option (\<lambda>(storages, delayed, refs). (map Usb_mounted storages, Usb fd delayed, refs)) (process_usb env delayed refs)"

text \<open>One event, given to every observer whose descriptor it names.\<close>

fun handle_event ::
  "(int, 'z) os_scheme \<Rightarrow> 'dev udev_env \<Rightarrow> (int trace \<Rightarrow> nat \<Rightarrow> int) \<Rightarrow> int \<Rightarrow> 'dev observable list \<Rightarrow> 'dev refs \<Rightarrow> int trace \<Rightarrow>
     ('dev observable list \<times> 'dev refs \<times> int trace) option" where
  "handle_event os env clock fd [] refs tr = Some ([], refs, tr)"
| "handle_event os env clock fd (obs # observers) refs tr = do {
     (obs, refs, tr) \<leftarrow> (if fd = getFileDescriptor obs then observable_handle os env clock obs refs tr else Some (obs, refs, tr));
     (observers, refs, tr) \<leftarrow> handle_event os env clock fd observers refs tr;
     Some (obs # observers, refs, tr)
   }"

fun handle_events ::
  "(int, 'z) os_scheme \<Rightarrow> 'dev udev_env \<Rightarrow> (int trace \<Rightarrow> nat \<Rightarrow> int) \<Rightarrow> (u32 \<times> int) list \<Rightarrow> 'dev observable list \<Rightarrow> 'dev refs \<Rightarrow>
     int trace \<Rightarrow> ('dev observable list \<times> 'dev refs \<times> int trace) option" where
  "handle_events os env clock [] observers refs tr = Some (observers, refs, tr)"
| "handle_events os env clock (e # es) observers refs tr = do {
     (observers, refs, tr) \<leftarrow> handle_event os env clock (snd e) observers refs tr;
     handle_events os env clock es observers refs tr
   }"

fun process_all ::
  "'dev udev_env \<Rightarrow> (nat \<Rightarrow> int) \<Rightarrow> 'dev observable list \<Rightarrow> 'dev refs \<Rightarrow>
     (report list \<times> 'dev observable list \<times> 'dev refs) option" where
  "process_all env clock [] refs = Some ([], [], refs)"
| "process_all env clock (obs # observers) refs = do {
     (reports, obs, refs) \<leftarrow> observable_process env clock obs refs;
     (reports', observers, refs) \<leftarrow> process_all env clock observers refs;
     Some (reports @ reports', obs # observers, refs)
   }"

definition SYSTEM_OBSERVER_EPOOL_EVENTS :: nat where "SYSTEM_OBSERVER_EPOOL_EVENTS = 4"
definition SYSTEM_OBSERVER_EPOOL_WAIT :: int where "SYSTEM_OBSERVER_EPOOL_WAIT = 1 * 1000"

text \<open>The events \<open>epoll_wait\<close> delivers, none when it fails or when there is no epoll descriptor.\<close>

definition waitEPoll_events :: "(int, 'z) os_scheme \<Rightarrow> int \<Rightarrow> int trace \<Rightarrow> (u32 \<times> int) list \<times> int trace" where
  "waitEPoll_events os pollingfd tr =
     waitEPoll os SYSTEM_OBSERVER_EPOOL_EVENTS SYSTEM_OBSERVER_EPOOL_WAIT (\<lambda>e (es, tr). (es @ [e], tr)) pollingfd ([], tr)"

text \<open>\<open>n\<close> turns of the loop.\<close>

fun monitor_loop ::
  "(int, 'z) os_scheme \<Rightarrow> 'dev udev_env \<Rightarrow> (int trace \<Rightarrow> nat \<Rightarrow> int) \<Rightarrow> int \<Rightarrow> nat \<Rightarrow> 'dev observable list \<Rightarrow> 'dev refs \<Rightarrow> int trace \<Rightarrow>
     (report list \<times> 'dev observable list \<times> 'dev refs \<times> int trace) option" where
  "monitor_loop os env clock pollingfd 0 observers refs tr = Some ([], observers, refs, tr)"
| "monitor_loop os env clock pollingfd (Suc n) observers refs tr = do {
     let (es, tr) = waitEPoll_events os pollingfd tr;
     (observers, refs, tr) \<leftarrow> handle_events os env clock es observers refs tr;
     (reports, observers, refs) \<leftarrow> process_all env (clock tr) observers refs;
     (reports', observers, refs, tr) \<leftarrow> monitor_loop os env clock pollingfd n observers refs tr;
     Some (reports @ reports', observers, refs, tr)
   }"

definition SystemObserver_monitor ::
  "(int, 'z) os_scheme \<Rightarrow> 'dev udev_env \<Rightarrow> (int trace \<Rightarrow> nat \<Rightarrow> int) \<Rightarrow> nat \<Rightarrow> int \<Rightarrow> 'dev observable list \<Rightarrow> 'dev refs \<Rightarrow> int trace \<Rightarrow>
     (report list \<times> 'dev observable list \<times> 'dev refs \<times> int trace) option" where
  "SystemObserver_monitor os env clock n pollingfd observers refs tr =
     (let (pollingfd, tr) = cleanupEPoll os pollingfd tr;
          (_, pollingfd, tr) = prepareEPoll os pollingfd tr;
          tr = fold (\<lambda>obs tr. snd (addToEPoll os (getFileDescriptor obs) (getFileDescriptor obs) (EPOLLIN OR EPOLLET) pollingfd tr)) observers tr
      in monitor_loop os env clock pollingfd n observers refs tr)"

lemma monitor_enters_loop:
  "\<exists>pollingfd tr'. SystemObserver_monitor os env clock n fd observers refs tr = monitor_loop os env clock pollingfd n observers refs tr'"
  unfolding SystemObserver_monitor_def Let_def split_beta by blast

section \<open>The folder that is never read\<close>

text \<open>A folder monitor in a holder: without a buffer, and without files as long as nothing was parsed.\<close>

fun deaf :: "'dev observable \<Rightarrow> bool" where
  "deaf (Folder m) \<longleftrightarrow> eventBuffer m = [] \<and> watchedFiles m = []"
| "deaf (Usb fd delayed) \<longleftrightarrow> False"

lemma deaf_handle:
  "bounded_reads os \<Longrightarrow> deaf obs \<Longrightarrow> \<exists>tr'. observable_handle os env clock obs refs tr = Some (obs, refs, tr')"
  by (cases obs) (auto simp: handle_without_buffer)

lemma deaf_handle_event:
  "bounded_reads os \<Longrightarrow> \<forall>obs \<in> set observers. deaf obs \<Longrightarrow>
   \<exists>tr'. handle_event os env clock fd observers refs tr = Some (observers, refs, tr')"
proof (induction observers arbitrary: tr)
  case (Cons obs observers)
  obtain tr1 where 1: "observable_handle os env clock obs refs tr = Some (obs, refs, tr1)"
    using deaf_handle [OF Cons.prems(1)] Cons.prems(2) by fastforce
  show ?case using Cons.IH [of tr] Cons.IH [of tr1] Cons.prems 1 by (auto split: bind_splits)
qed simp

lemma deaf_handle_events:
  "bounded_reads os \<Longrightarrow> \<forall>obs \<in> set observers. deaf obs \<Longrightarrow>
   \<exists>tr'. handle_events os env clock es observers refs tr = Some (observers, refs, tr')"
proof (induction es arbitrary: tr)
  case (Cons e es)
  obtain tr1 where "handle_event os env clock (snd e) observers refs tr = Some (observers, refs, tr1)"
    using deaf_handle_event [OF Cons.prems] by blast
  then show ?case using Cons.IH [OF Cons.prems, of tr1] by simp
qed simp

lemma deaf_process: "\<forall>obs \<in> set observers. deaf obs \<Longrightarrow> process_all env clk observers refs = Some ([], observers, refs)"
proof (induction observers)
  case (Cons obs observers)
  then show ?case by (cases obs) (auto simp: FolderMonitor_process_def)
qed simp

lemma deaf_loop:
  "bounded_reads os \<Longrightarrow> \<forall>obs \<in> set observers. deaf obs \<Longrightarrow>
   \<exists>tr'. monitor_loop os env clock pollingfd n observers refs tr = Some ([], observers, refs, tr')"
proof (induction n arbitrary: tr)
  case (Suc n)
  obtain es tr1 where 1: "waitEPoll_events os pollingfd tr = (es, tr1)" by fastforce
  obtain tr2 where 2: "handle_events os env clock es observers refs tr1 = Some (observers, refs, tr2)"
    using deaf_handle_events [OF Suc.prems] by blast
  show ?case using Suc.IH [OF Suc.prems, of tr2] Suc.prems(2) by (auto simp: 1 2 deaf_process)
qed simp

text \<open>
  The example that watches a folder never reports a file: the holder moves the monitor, the move
  leaves the read buffer behind, and every later read asks for no bytes. Whatever happens in the folder
  and however long the loop runs, the monitor stays as it was made.
\<close>

theorem observed_folder_is_deaf:
  assumes "bounded_reads os" "FolderMonitor_new os path tr = (Inr m, tr1)"
  shows "\<exists>tr'. SystemObserver_monitor os env clock n EPollWorker_new [SystemObservable_folder m] refs tr1 =
    Some ([], [SystemObservable_folder m], refs, tr')"
proof -
  have "\<forall>obs \<in> set [SystemObservable_folder m]. deaf obs"
    using assms(2) by (auto simp: SystemObservable_folder_def FolderMonitor_move_def FolderMonitor_new_def Let_def
        split: prod.splits if_splits)
  from deaf_loop [OF assms(1) this] show ?thesis using monitor_enters_loop by metis
qed

definition busy_folder :: "int os" where
  "busy_folder = \<lparr>ret = (\<lambda>tr c. case c of Inotify_init _ \<Rightarrow> 3 | Epoll_create _ \<Rightarrow> 4 | Epoll_wait _ _ _ \<Rightarrow> 1 | Read_call _ k \<Rightarrow> int k | _ \<Rightarrow> 1),
     bytes_in = (\<lambda>tr c. encode_event one_file @ encode_event one_file), events_in = (\<lambda>tr c. [(EPOLLIN, 3)]), ready_in = (\<lambda>tr c. {})\<rparr>"

theorem observed_folder_is_deaf_witness:
  "\<exists>m tr1 tr'. FolderMonitor_new busy_folder ''/tmp/ml-deploy'' [] = (Inr m, tr1) \<and>
     SystemObserver_monitor busy_folder (\<lambda>_. plugged) (\<lambda>_ _. 7) 20 EPollWorker_new [SystemObservable_folder m] [] tr1 =
       Some ([], [SystemObservable_folder m], [], tr')"
proof -
  have b: "bounded_reads busy_folder" by (simp add: bounded_reads_def busy_folder_def)
  have "\<exists>m tr1. FolderMonitor_new busy_folder ''/tmp/ml-deploy'' [] = (Inr m, tr1)"
    by (simp add: FolderMonitor_new_def sys_def busy_folder_def)
  then obtain m tr1 where m: "FolderMonitor_new busy_folder ''/tmp/ml-deploy'' [] = (Inr m, tr1)" by blast
  from observed_folder_is_deaf [OF b m, of "\<lambda>_. plugged" "\<lambda>_ _. 7" 20 "[]"] m show ?thesis by blast
qed

section \<open>Invariants of the loop\<close>

lemma monitor_loop_SucE:
  assumes "monitor_loop os env clock pollingfd (Suc n) observers refs tr = Some (reports, observers', refs', tr')"
  obtains es tr1 obs2 refs2 tr2 reps obs3 refs3 reps' where
    "handle_events os env clock es observers refs tr1 = Some (obs2, refs2, tr2)"
    "process_all env (clock tr2) obs2 refs2 = Some (reps, obs3, refs3)"
    "monitor_loop os env clock pollingfd n obs3 refs3 tr2 = Some (reps', observers', refs', tr')"
  using assms by (cases "waitEPoll_events os pollingfd tr") (auto simp: bind_eq_Some_conv)

text \<open>What one event and one round of processing keep is kept by the loop, however long it runs.\<close>

locale observer_invariant =
  fixes os :: "(int, 'z) os_scheme" and env :: "'dev udev_env" and clock :: "int trace \<Rightarrow> nat \<Rightarrow> int"
    and Keep :: "'dev observable list \<Rightarrow> 'dev refs \<Rightarrow> bool"
  assumes event: "Keep obs refs \<Longrightarrow> handle_event os env clock fd obs refs tr = Some (obs', refs', tr') \<Longrightarrow> Keep obs' refs'"
    and processing: "Keep obs refs \<Longrightarrow> process_all env clk obs refs = Some (reports, obs', refs') \<Longrightarrow> Keep obs' refs'"
begin

lemma events: "Keep obs refs \<Longrightarrow> handle_events os env clock es obs refs tr = Some (obs', refs', tr') \<Longrightarrow> Keep obs' refs'"
proof (induction es arbitrary: obs refs tr)
  case (Cons e es)
  then obtain obs1 refs1 tr1 where 1: "handle_event os env clock (snd e) obs refs tr = Some (obs1, refs1, tr1)"
    and 2: "handle_events os env clock es obs1 refs1 tr1 = Some (obs', refs', tr')" by (auto simp: bind_eq_Some_conv)
  from Cons.IH [OF event [OF Cons.prems(1) 1] 2] show ?case .
qed simp

lemma loop:
  "Keep obs refs \<Longrightarrow> monitor_loop os env clock pollingfd n obs refs tr = Some (reports, obs', refs', tr') \<Longrightarrow> Keep obs' refs'"
proof (induction n arbitrary: obs refs tr reports)
  case (Suc n)
  from Suc.prems(2) obtain es tr1 obs2 refs2 tr2 reps obs3 refs3 reps' where
    2: "handle_events os env clock es obs refs tr1 = Some (obs2, refs2, tr2)" and
    3: "process_all env (clock tr2) obs2 refs2 = Some (reps, obs3, refs3)" and
    4: "monitor_loop os env clock pollingfd n obs3 refs3 tr2 = Some (reps', obs', refs', tr')"
    by (rule monitor_loop_SucE)
  from Suc.IH [OF processing [OF events [OF Suc.prems(1) 2] 3] 4] show ?case .
qed simp

lemma monitor:
  "Keep obs refs \<Longrightarrow> SystemObserver_monitor os env clock n fd obs refs tr = Some (reports, obs', refs', tr') \<Longrightarrow> Keep obs' refs'"
  using monitor_enters_loop [of os env clock n fd obs refs tr] loop by metis

end

section \<open>The agent\<close>

text \<open>The agent's observers keep their order and kinds, and its USB monitor only makes its own steps.\<close>

definition agent_state :: "'dev udev_env \<Rightarrow> int \<Rightarrow> 'dev observable list \<Rightarrow> 'dev refs \<Rightarrow> bool" where
  "agent_state env fd observers refs \<longleftrightarrow> (\<exists>d m. observers = [Usb fd d, Folder m] \<and> usb_reach env d refs)"

lemma agent_event:
  assumes "agent_state env fd observers refs" "handle_event os env clock f observers refs tr = Some (observers', refs', tr')"
  shows "agent_state env fd observers' refs'"
proof -
  obtain d m where o: "observers = [Usb fd d, Folder m]" and d: "usb_reach env d refs" using assms(1) by (auto simp: agent_state_def)
  show ?thesis using assms(2) d unfolding o
    by (auto simp: agent_state_def bind_eq_Some_conv split: if_splits intro: usb_reach.handle [OF d])
qed

lemma agent_process:
  assumes "agent_state env fd observers refs" "process_all env clk observers refs = Some (reports, observers', refs')"
  shows "agent_state env fd observers' refs'"
proof -
  obtain d m where o: "observers = [Usb fd d, Folder m]" and d: "usb_reach env d refs" using assms(1) by (auto simp: agent_state_def)
  obtain paths m1 where "FolderMonitor_process clk m = (paths, m1)" by fastforce
  with assms(2) show ?thesis unfolding o by (auto simp: agent_state_def bind_eq_Some_conv intro: usb_reach.process [OF d])
qed

interpretation agent: observer_invariant os env clock "agent_state env fd" for os env clock fd
  by unfold_locales (erule (1) agent_event, erule (1) agent_process)

text \<open>
  However long the agent's loop runs, it keeps its two observers in place, and it owns one
  reference for every USB device that is still waiting to be mounted and no other.
\<close>

theorem agent_owns_waiting_devices:
  assumes "SystemObserver_monitor os env clock n EPollWorker_new [SystemObservable_usb fd [], SystemObservable_folder m] [] tr =
    Some (reports, observers, refs, tr')"
  shows "\<exists>delayed m'. observers = [Usb fd delayed, Folder m'] \<and> (\<forall>d. held refs d = int (count_list delayed d))"
proof -
  have "agent_state env fd [SystemObservable_usb fd [], SystemObservable_folder m] []"
    by (auto simp: agent_state_def SystemObservable_usb_def SystemObservable_folder_def intro: usb_reach.new)
  from agent.monitor [OF this assms] show ?thesis using usb_reach_held by (fastforce simp: agent_state_def)
qed

theorem agent_owns_waiting_devices_witness:
  "\<exists>reports delayed m refs tr'. SystemObserver_monitor busy_folder (\<lambda>_. plugged) (\<lambda>_ _. 7) 1 EPollWorker_new
     [SystemObservable_usb 3 [], SystemObservable_folder fresh_monitor] [] [] = Some (reports, [Usb 3 delayed, Folder m], refs, tr') \<and>
     (\<forall>d. held refs d = int (count_list delayed d))"
proof -
  have "SystemObserver_monitor busy_folder (\<lambda>_. plugged) (\<lambda>_ _. 7) 1 EPollWorker_new
     [SystemObservable_usb 3 [], SystemObservable_folder fresh_monitor] [] [] \<noteq> None"
    by code_simp
  then obtain reports observers refs tr' where r: "SystemObserver_monitor busy_folder (\<lambda>_. plugged) (\<lambda>_ _. 7) 1 EPollWorker_new
     [SystemObservable_usb 3 [], SystemObservable_folder fresh_monitor] [] [] = Some (reports, observers, refs, tr')" by fastforce
  from agent_owns_waiting_devices [OF r] r show ?thesis by auto
qed

end
