(* ===== verification/Deploy_Pipeline.thy ===== *)
theory Deploy_Pipeline
  imports Archive_Detector
begin

text \<open>
  Installing a package (DeploymentAgent/src): \<open>Unpacker\<close>, \<open>FileMover\<close>, \<open>FileRemover\<close>, \<open>TemporaryFolder\<close>,
  \<open>DeployPipeline\<close> and \<open>UsbProcessingPipeline\<close>. The system is a function from the calls made so far and
  the next call to its result, with a second function for whether a failed \<open>rename\<close> reported \<open>EXDEV\<close>;
  the routines return the calls they made. Configuration values are a function from keys to strings,
  empty when the key is missing.
\<close>

datatype file_call =
    System string
  | Rename string string
  | Remove string
  | Mkdir string
  | Probe string
  | Remove_tree string

record file_os =
  f_ret :: "file_call list \<Rightarrow> file_call \<Rightarrow> int"
  f_exdev :: "file_call list \<Rightarrow> file_call \<Rightarrow> bool"

definition SystemCmdExecutor :: "file_os \<Rightarrow> string \<Rightarrow> file_call list \<Rightarrow> bool \<times> file_call list" where
  "SystemCmdExecutor os cmd tr = (f_ret os tr (System cmd) = 0, tr @ [System cmd])"

section \<open>Unpacking\<close>

definition characterExist :: "string \<Rightarrow> char \<Rightarrow> bool" where
  "characterExist str c \<longleftrightarrow> str_find str [c] \<noteq> None"

definition lastNameComponent :: "string \<Rightarrow> string" where
  "lastNameComponent path =
     (let result = (if last path = CHR ''/'' then butlast path else path)
      in case str_find_last result CHR ''/'' of
           None \<Rightarrow> result
         | Some index \<Rightarrow>
             (let result = substr_from result (index + 1)
              in case str_find_last result CHR ''.'' of
                   None \<Rightarrow> result
                 | Some index \<Rightarrow> substr result 0 index))"

abbreviation quote :: string where
  "quote \<equiv> [CHR 0x27]"

definition zipBuilder :: "string \<Rightarrow> string \<Rightarrow> string" where
  "zipBuilder archivePath destPath = ''unzip -qo '' @ quote @ archivePath @ quote @ '' -d '' @ quote @ destPath @ quote"

definition tarBuilder :: "string \<Rightarrow> string \<Rightarrow> string" where
  "tarBuilder archivePath destPath =
     ''mkdir -p '' @ quote @ destPath @ quote @ '' && tar -C '' @ quote @ destPath @ quote @ '' -xf '' @ quote @ archivePath @ quote"

definition folderBuilder :: "string \<Rightarrow> string \<Rightarrow> string" where
  "folderBuilder archivePath destPath = ''cp -fr '' @ quote @ archivePath @ quote @ '' '' @ quote @ destPath @ quote"

definition builders :: "(ArchiveType \<times> (string \<Rightarrow> string \<Rightarrow> string)) list" where
  "builders = [(ZIP, zipBuilder), (TAR, tarBuilder), (FOLDER, folderBuilder)]"

text \<open>\<open>None\<close> is undefined behaviour of a matcher.\<close>

definition unpack :: "dirs \<Rightarrow> file_os \<Rightarrow> string \<Rightarrow> string \<Rightarrow> file_call list \<Rightarrow> (bool \<times> file_call list) option" where
  "unpack dirs os archivePath destPath tr = do {
     archType \<leftarrow> ArchiveDetector_identify dirs archivePath;
     if archType = UNKNOWN then Some (False, tr)
     else if characterExist archivePath CHR 0x27 \<or> characterExist destPath CHR 0x27 then Some (False, tr)
     else do {
       (_, build) \<leftarrow> find (\<lambda>b. fst b = archType) builders;
       let finalDestPath = destPath @ (if last destPath = CHR ''/'' then [] else ''/'') @ lastNameComponent archivePath;
       Some (SystemCmdExecutor os (build archivePath finalDestPath) tr)
     }
   }"

section \<open>Moving and removing\<close>

definition joinComponents :: "string \<Rightarrow> string \<Rightarrow> string" where
  "joinComponents prefixPath filename =
     (if last prefixPath = CHR ''/'' then prefixPath @ filename else prefixPath @ ''/'' @ filename)"

definition combine :: "string \<Rightarrow> string \<Rightarrow> string" where
  "combine src destPath =
     (case str_find_last src CHR ''/'' of
        None \<Rightarrow> joinComponents destPath src
      | Some index \<Rightarrow> if index < length src - 1 then joinComponents destPath (substr_from src (index + 1)) else [])"

definition copyFile :: "file_os \<Rightarrow> string \<Rightarrow> string \<Rightarrow> file_call list \<Rightarrow> bool \<times> file_call list" where
  "copyFile os srcPath destPath tr =
     (case SystemCmdExecutor os (''cp -rf '' @ quote @ srcPath @ quote @ '' '' @ quote @ destPath @ quote) tr of
        (copied, tr) \<Rightarrow> (copied, if copied then tr @ [Remove srcPath] else tr))"

definition moveFile :: "file_os \<Rightarrow> string \<Rightarrow> string \<Rightarrow> file_call list \<Rightarrow> bool \<times> file_call list" where
  "moveFile os srcPath destPath tr =
     (let c = Rename srcPath destPath; status = f_ret os tr c
      in if status = - 1 \<and> f_exdev os tr c then copyFile os srcPath destPath (tr @ [c])
         else (status = 0, tr @ [c]))"

definition moveFile_overwrite :: "file_os \<Rightarrow> string \<Rightarrow> string \<Rightarrow> bool \<Rightarrow> file_call list \<Rightarrow> bool \<times> file_call list" where
  "moveFile_overwrite os srcPath destPath overwriteDest tr =
     moveFile os srcPath destPath (if overwriteDest then tr @ [Remove destPath] else tr)"

fun moveFiles_loop :: "file_os \<Rightarrow> string list \<Rightarrow> string \<Rightarrow> file_call list \<Rightarrow> bool \<times> file_call list" where
  "moveFiles_loop os [] destPath tr = (True, tr)"
| "moveFiles_loop os (src # files) destPath tr =
     (let finalDestPath = combine src destPath
      in if finalDestPath = [] then (False, tr)
         else case moveFile os src finalDestPath tr of
           (True, tr) \<Rightarrow> moveFiles_loop os files destPath tr
         | (False, tr) \<Rightarrow> (False, tr))"

definition moveFiles :: "file_os \<Rightarrow> string list \<Rightarrow> string \<Rightarrow> file_call list \<Rightarrow> bool \<times> file_call list" where
  "moveFiles os files destPath tr =
     (if destPath = [] \<or> files = [] then (False, tr) else moveFiles_loop os files destPath tr)"

fun removeFiles :: "file_os \<Rightarrow> string list \<Rightarrow> file_call list \<Rightarrow> bool \<times> file_call list" where
  "removeFiles os [] tr = (True, tr)"
| "removeFiles os (src # files) tr =
     (if f_ret os tr (Remove src) \<noteq> 0 then (False, tr @ [Remove src]) else removeFiles os files (tr @ [Remove src]))"

section \<open>Temporary folders\<close>

text \<open>The folder's path, empty when it could not be made; \<open>Inl\<close> is the exception. The name is random.\<close>

definition generateFolder :: "file_os \<Rightarrow> string \<Rightarrow> string \<Rightarrow> file_call list \<Rightarrow> string \<times> file_call list" where
  "generateFolder os randomName parent tr =
     (let fullPath = parent @ (if last parent = CHR ''/'' then [] else ''/'') @ randomName
      in (if f_ret os tr (Mkdir fullPath) < 0 then [] else fullPath, tr @ [Mkdir fullPath]))"

definition TemporaryFolder_new :: "file_os \<Rightarrow> string \<Rightarrow> string \<Rightarrow> file_call list \<Rightarrow> (string + string) \<times> file_call list" where
  "TemporaryFolder_new os randomName parent tr =
     (if parent = [] then case generateFolder os randomName ''/tmp'' tr of (p, tr) \<Rightarrow> (Inr p, tr)
      else if f_ret os tr (Probe parent) \<noteq> 0
        then (Inl (''Can'' @ quote @ ''t locate '' @ quote @ parent @ quote), tr @ [Probe parent])
        else case generateFolder os randomName parent (tr @ [Probe parent]) of (p, tr) \<Rightarrow> (Inr p, tr))"

definition TemporaryFolder_destroy :: "string \<Rightarrow> file_call list \<Rightarrow> file_call list" where
  "TemporaryFolder_destroy fullPath tr = (if fullPath \<noteq> [] then tr @ [Remove_tree fullPath] else tr)"

text \<open>The random name: the generator's numbers from \<open>A\<close> to \<open>Z\<close>.\<close>

definition NAME_LEN :: nat where "NAME_LEN = 10"

definition random_name :: "nat list \<Rightarrow> string" where
  "random_name draws = map char_of (take NAME_LEN draws)"

text \<open>
  Behind \<open>Remove_tree\<close> stands a walk over the folder that visits a directory after its entries and
  ends at the first callback that does not return zero.
\<close>

datatype file_tree = File_entry string | Folder_entry string "file_tree list"

fun removeSingleFile :: "file_os \<Rightarrow> string \<Rightarrow> file_call list \<Rightarrow> int \<times> file_call list" where
  "removeSingleFile os pathname tr = (f_ret os tr (Remove pathname), tr @ [Remove pathname])"

fun travelsalRemove :: "file_os \<Rightarrow> string \<Rightarrow> file_tree \<Rightarrow> file_call list \<Rightarrow> int \<times> file_call list"
and travelsalRemove_entries :: "file_os \<Rightarrow> string \<Rightarrow> file_tree list \<Rightarrow> file_call list \<Rightarrow> int \<times> file_call list" where
  "travelsalRemove os dir (File_entry name) tr = removeSingleFile os (dir @ name) tr"
| "travelsalRemove os dir (Folder_entry name inside) tr =
     (case travelsalRemove_entries os (dir @ name @ ''/'') inside tr of
        (status, tr) \<Rightarrow> if status \<noteq> 0 then (status, tr) else removeSingleFile os (dir @ name) tr)"
| "travelsalRemove_entries os dir [] tr = (0, tr)"
| "travelsalRemove_entries os dir (entry # inside) tr =
     (case travelsalRemove os dir entry tr of
        (status, tr) \<Rightarrow> if status \<noteq> 0 then (status, tr) else travelsalRemove_entries os dir inside tr)"

section \<open>Configuration\<close>

text \<open>
  A JSON value as far as the class looks at it. The code's \<open>operator[]\<close> on the object adds a missing
  key with a null value, which no later call can tell from its absence.
\<close>

datatype json = Json_object "string \<rightharpoonup> json" | Json_string string | Json_number int | Json_other

text \<open>
  The constructor. What the JSON library leaves in the value after parsing a text is an argument; the
  value is null before, and whether the parser met an error is not looked at. A file that cannot be
  read is an exception. The second \<open>open\<close> of the stream fails because it is open already, which the
  parser, reading from the stream's buffer, does not notice.
\<close>

definition Configuration_new :: "(string \<Rightarrow> string option) \<Rightarrow> (string \<Rightarrow> json) \<Rightarrow> string \<Rightarrow> string + json" where
  "Configuration_new contents parse configFile =
     (case contents configFile of
        None \<Rightarrow> Inl (''Can'' @ quote @ ''t locate '' @ quote @ configFile @ quote)
      | Some text \<Rightarrow> Inr (parse text))"

definition value_string :: "json \<Rightarrow> string \<Rightarrow> string" where
  "value_string configJson key =
     (case configJson of
        Json_object obj \<Rightarrow> (case obj key of Some (Json_string s) \<Rightarrow> s | _ \<Rightarrow> [])
      | _ \<Rightarrow> [])"

text \<open>Numbers are doubles in the JSON library; their integral part is what the cast keeps.\<close>

definition value_int :: "json \<Rightarrow> string \<Rightarrow> int" where
  "value_int configJson key =
     (case configJson of
        Json_object obj \<Rightarrow> (case obj key of Some (Json_number n) \<Rightarrow> n | _ \<Rightarrow> 0)
      | _ \<Rightarrow> 0)"

section \<open>The pipelines\<close>

type_synonym conf = "string \<Rightarrow> string"

definition CONF_POLICY_PATH :: string where "CONF_POLICY_PATH = ''policyPath''"
definition CONF_MODULE_DEPLOY_PATH :: string where "CONF_MODULE_DEPLOY_PATH = ''modulesDeployPath''"
definition CONF_START_MLPLATFORM_CMD :: string where "CONF_START_MLPLATFORM_CMD = ''startMLAppCmd''"
definition CONF_STOP_MLPLATFORM_CMD :: string where "CONF_STOP_MLPLATFORM_CMD = ''stopMLAppCmd''"
definition CONF_CONFIGURE_MLPLATFORM_CMD :: string where "CONF_CONFIGURE_MLPLATFORM_CMD = ''configureMLAppCmd''"

definition checkForRequiredConfKey :: "conf \<Rightarrow> string \<Rightarrow> string option" where
  "checkForRequiredConfKey conf key = (if conf key = [] then Some (''Lack of required configuration key:'' @ key) else None)"

text \<open>The constructor's exception, if it throws one.\<close>

definition DeployPipeline_new :: "conf \<Rightarrow> string option" where
  "DeployPipeline_new conf =
     fold (\<lambda>key e. case e of Some m \<Rightarrow> Some m | None \<Rightarrow> checkForRequiredConfKey conf key)
       [CONF_POLICY_PATH, CONF_MODULE_DEPLOY_PATH, CONF_START_MLPLATFORM_CMD, CONF_STOP_MLPLATFORM_CMD,
        CONF_CONFIGURE_MLPLATFORM_CMD] None"

definition fallback :: "conf \<Rightarrow> file_os \<Rightarrow> file_call list \<Rightarrow> file_call list" where
  "fallback conf os tr = snd (SystemCmdExecutor os (conf CONF_START_MLPLATFORM_CMD) tr)"

definition deployArchive :: "dirs \<Rightarrow> conf \<Rightarrow> file_os \<Rightarrow> string \<Rightarrow> file_call list \<Rightarrow> (bool \<times> file_call list) option" where
  "deployArchive dirs conf os path tr = unpack dirs os path (conf CONF_MODULE_DEPLOY_PATH) tr"

definition backupPolicy :: "conf \<Rightarrow> file_os \<Rightarrow> file_call list \<Rightarrow> bool \<times> file_call list" where
  "backupPolicy conf os tr =
     (let policyPath = conf CONF_POLICY_PATH
      in if f_ret os tr (Probe policyPath) \<noteq> 0 then (True, tr @ [Probe policyPath])
         else moveFile_overwrite os policyPath (policyPath @ ''.old'') True (tr @ [Probe policyPath]))"

definition restorePolicy :: "conf \<Rightarrow> file_os \<Rightarrow> file_call list \<Rightarrow> file_call list" where
  "restorePolicy conf os tr =
     (let policyPath = conf CONF_POLICY_PATH in snd (moveFile_overwrite os (policyPath @ ''.old'') policyPath True tr))"

definition deployPolicyFile :: "conf \<Rightarrow> file_os \<Rightarrow> string \<Rightarrow> file_call list \<Rightarrow> bool \<times> file_call list" where
  "deployPolicyFile conf os path tr =
     (case backupPolicy conf os tr of
        (False, tr) \<Rightarrow> (False, tr)
      | (True, tr) \<Rightarrow>
          (case moveFile_overwrite os path (conf CONF_POLICY_PATH) True tr of
             (False, tr) \<Rightarrow> (False, restorePolicy conf os tr)
           | (True, tr) \<Rightarrow> (True, tr)))"

fun deploy_archives :: "dirs \<Rightarrow> conf \<Rightarrow> file_os \<Rightarrow> string list \<Rightarrow> file_call list \<Rightarrow> (bool \<times> file_call list) option" where
  "deploy_archives dirs conf os [] tr = Some (True, tr)"
| "deploy_archives dirs conf os (p # ps) tr = do {
     (ok, tr) \<leftarrow> deployArchive dirs conf os p tr;
     if ok then deploy_archives dirs conf os ps tr else Some (False, tr)
   }"

definition DeployPipeline_call :: "dirs \<Rightarrow> conf \<Rightarrow> file_os \<Rightarrow> InstallPkg \<Rightarrow> file_call list \<Rightarrow> (bool \<times> file_call list) option" where
  "DeployPipeline_call dirs conf os pkg tr =
     (case SystemCmdExecutor os (conf CONF_STOP_MLPLATFORM_CMD) tr of
        (False, tr) \<Rightarrow> Some (False, tr)
      | (True, tr) \<Rightarrow> do {
          (ok, tr) \<leftarrow> deploy_archives dirs conf os (getArchivesPath True pkg) tr;
          if \<not> ok then Some (False, fallback conf os tr)
          else case deployPolicyFile conf os (getPolicyPath True pkg) tr of
            (False, tr) \<Rightarrow> Some (False, fallback conf os tr)
          | (True, tr) \<Rightarrow>
              (case SystemCmdExecutor os (conf CONF_CONFIGURE_MLPLATFORM_CMD) tr of
                 (_, tr) \<Rightarrow> Some (SystemCmdExecutor os (conf CONF_START_MLPLATFORM_CMD) tr))
        })"

definition movePackage :: "file_os \<Rightarrow> InstallPkg \<Rightarrow> string \<Rightarrow> file_call list \<Rightarrow> bool \<times> InstallPkg \<times> file_call list" where
  "movePackage os pkg path tr =
     (case moveFiles os (allFiles True pkg) path tr of
        (result, tr) \<Rightarrow> (result, if result then setRootPath path pkg else pkg, tr))"

text \<open>
  \<open>Inl\<close> is an exception. The temporary folder is destroyed when the call leaves its scope; the result
  records whether the package was processed.
\<close>

definition UsbProcessingPipeline_call ::
  "dirs \<Rightarrow> conf \<Rightarrow> file_os \<Rightarrow> string \<Rightarrow> string \<Rightarrow> file_call list \<Rightarrow> ((string + bool) \<times> file_call list) option" where
  "UsbProcessingPipeline_call dirs conf os randomName mountPath tr = do {
     found \<leftarrow> InstallPackageDetector_process dirs mountPath;
     case found of
       None \<Rightarrow> Some (Inr False, tr)
     | Some pkg \<Rightarrow>
         (case TemporaryFolder_new os randomName (conf ''usbTempPath'') tr of
            (Inl e, tr) \<Rightarrow> Some (Inl e, tr)
          | (Inr fullPath, tr) \<Rightarrow>
              if fullPath = [] then Some (Inr False, TemporaryFolder_destroy fullPath tr)
              else (case movePackage os pkg fullPath tr of
                  (False, pkg, tr) \<Rightarrow> Some (Inr False, TemporaryFolder_destroy fullPath tr)
                | (True, pkg, tr) \<Rightarrow> do {
                    (ok, tr) \<leftarrow> DeployPipeline_call dirs conf os pkg tr;
                    Some (Inr ok, TemporaryFolder_destroy fullPath tr)
                  }))
   }"

end
