(* ===== verification/Deploy_Correct.thy ===== *)
theory Deploy_Correct
  imports Deploy_Pipeline
begin

text \<open>
  What the installation routines guarantee: which characters of a command the shell interprets, that
  the platform is started again after every attempt, that the package is looked up where it was moved,
  and that the temporary folder goes away.
\<close>

section \<open>Commands\<close>

text \<open>The characters of a command that the shell sees outside single quotes.\<close>

fun unquoted :: "bool \<Rightarrow> string \<Rightarrow> string" where
  "unquoted inside [] = []"
| "unquoted inside (c # cs) =
     (if c = CHR 0x27 then unquoted (\<not> inside) cs
      else if inside then unquoted inside cs else c # unquoted inside cs)"

lemma unquoted_inside: "CHR 0x27 \<notin> set s \<Longrightarrow> unquoted True (s @ t) = unquoted True t"
  by (induction s) auto

lemma unquoted_outside: "CHR 0x27 \<notin> set s \<Longrightarrow> unquoted False (s @ t) = s @ unquoted False t"
  by (induction s) auto

lemma characterExist_iff [simp]: "characterExist s c \<longleftrightarrow> c \<in> set s"
  by (simp add: characterExist_def del: not_None_eq)

lemma set_lastNameComponent: "set (lastNameComponent path) \<subseteq> set path"
proof -
  have "set (if last path = CHR ''/'' then butlast path else path) \<subseteq> set path" by (auto dest: in_set_butlastD)
  then show ?thesis
    by (auto simp: lastNameComponent_def Let_def substr_def substr_from_def split: option.splits
        dest!: in_set_takeD in_set_dropD)
qed

lemma builders_unquoted:
  assumes "CHR 0x27 \<notin> set a" "CHR 0x27 \<notin> set d"
  shows "unquoted False (zipBuilder a d) = ''unzip -qo  -d ''"
    "unquoted False (tarBuilder a d) = ''mkdir -p  && tar -C  -xf ''"
    "unquoted False (folderBuilder a d) = ''cp -fr  ''"
  using unquoted_inside [OF assms(1), of "quote @ rest" for rest] unquoted_inside [OF assms(2), of "quote @ rest" for rest]
  by (simp_all add: zipBuilder_def tarBuilder_def folderBuilder_def)

text \<open>
  C30. No name can smuggle a command into the unpacker: for every path with a separator, \<open>unpack\<close> makes
  at most one call, and what the shell interprets of its command is one of three constants, whatever
  the paths are.
\<close>

theorem unpack_commands_inert:
  "\<exists>ok cs. unpack dirs os (dir @ ''/'' @ name) destPath tr = Some (ok, tr @ cs) \<and>
     (cs = [] \<and> \<not> ok \<or>
      (\<exists>cmd. cs = [System cmd] \<and>
         unquoted False cmd \<in> {''unzip -qo  -d '', ''mkdir -p  && tar -C  -xf '', ''cp -fr  ''}))"
proof -
  let ?a = "dir @ CHR ''/'' # name"
  let ?d = "destPath @ (if last destPath = CHR ''/'' then [] else ''/'') @ lastNameComponent ?a"
  show ?thesis
  proof (cases "CHR 0x27 \<in> set ?a \<or> CHR 0x27 \<in> set destPath")
    case True
    then show ?thesis by (auto simp: unpack_def identify_kind)
  next
    case False
    then have q: "CHR 0x27 \<notin> set ?a" "CHR 0x27 \<notin> set ?d" using set_lastNameComponent [of ?a] by auto
    show ?thesis using builders_unquoted [OF q] False
      by (cases "archive_kind dirs dir name")
         (auto simp: unpack_def identify_kind builders_def SystemCmdExecutor_def Let_def)
  qed
qed

text \<open>
  The copy that replaces a move between file systems has no such guard: what stands between two
  quotes in a file's name is run by the shell.
\<close>

theorem copyFile_runs_names:
  assumes "CHR 0x27 \<notin> set a" "CHR 0x27 \<notin> set x" "CHR 0x27 \<notin> set b" "CHR 0x27 \<notin> set destPath"
    and "f_ret os tr (Rename (a @ quote @ x @ quote @ b) destPath) = - 1"
    and "f_exdev os tr (Rename (a @ quote @ x @ quote @ b) destPath)"
  shows "\<exists>cmd cs. snd (moveFile os (a @ quote @ x @ quote @ b) destPath tr) =
      tr @ [Rename (a @ quote @ x @ quote @ b) destPath, System cmd] @ cs \<and>
    unquoted False cmd = ''cp -rf '' @ x @ '' ''"
proof -
  have "unquoted False (''cp -rf '' @ quote @ (a @ quote @ x @ quote @ b) @ quote @ '' '' @ quote @ destPath @ quote) = ''cp -rf '' @ x @ '' ''"
    using unquoted_inside [OF assms(1), of "quote @ rest" for rest] unquoted_outside [OF assms(2)]
      unquoted_inside [OF assms(3), of "quote @ rest" for rest] unquoted_inside [OF assms(4), of quote]
    by simp
  then show ?thesis using assms(5,6)
    by (intro exI [of _ "''cp -rf '' @ quote @ (a @ quote @ x @ quote @ b) @ quote @ '' '' @ quote @ destPath @ quote"])
       (simp add: moveFile_def copyFile_def SystemCmdExecutor_def Let_def)
qed

definition other_device :: file_os where
  "other_device = \<lparr>f_ret = (\<lambda>tr c. case c of Rename a b \<Rightarrow> - 1 | _ \<Rightarrow> 0), f_exdev = (\<lambda>tr c. True)\<rparr>"

theorem copyFile_runs_names_witness:
  "\<exists>cmd cs. snd (moveFile other_device (''/mnt/a'' @ quote @ ''; reboot; '' @ quote @ ''.zip'') ''/tmp/x'' []) =
      [Rename (''/mnt/a'' @ quote @ ''; reboot; '' @ quote @ ''.zip'') ''/tmp/x'', System cmd] @ cs \<and>
    unquoted False cmd = ''cp -rf ; reboot;  ''"
  using copyFile_runs_names [of "''/mnt/a''" "''; reboot; ''" "''.zip''" "''/tmp/x''" other_device "[]"]
  by (simp add: other_device_def)

section \<open>Deploying\<close>

lemma moveFile_extends: "\<exists>cs. snd (moveFile os s d tr) = tr @ cs"
  by (auto simp: moveFile_def copyFile_def SystemCmdExecutor_def Let_def)

lemma moveFile_overwrite_extends: "\<exists>cs. snd (moveFile_overwrite os s d b tr) = tr @ cs"
proof -
  obtain cs where "snd (moveFile os s d (tr @ [Remove d])) = (tr @ [Remove d]) @ cs" using moveFile_extends by blast
  with moveFile_extends [of os s d tr] show ?thesis by (simp add: moveFile_overwrite_def)
qed

lemma backupPolicy_extends: "\<exists>cs. snd (backupPolicy conf os tr) = tr @ cs"
  using moveFile_overwrite_extends [of os "conf CONF_POLICY_PATH" "conf CONF_POLICY_PATH @ ''.old''" True
      "tr @ [Probe (conf CONF_POLICY_PATH)]"]
  by (auto simp: backupPolicy_def Let_def)

lemma deployPolicyFile_extends: "\<exists>cs. snd (deployPolicyFile conf os path tr) = tr @ cs"
proof -
  obtain ok1 tr1 where b: "backupPolicy conf os tr = (ok1, tr1)" by fastforce
  obtain ok2 tr2 where m: "moveFile_overwrite os path (conf CONF_POLICY_PATH) True tr1 = (ok2, tr2)" by fastforce
  obtain cs1 where 1: "tr1 = tr @ cs1" using backupPolicy_extends [of conf os tr] b by auto
  obtain cs2 where 2: "tr2 = tr1 @ cs2" using moveFile_overwrite_extends [of os path "conf CONF_POLICY_PATH" True tr1] m by auto
  obtain cs3 where 3: "restorePolicy conf os tr2 = tr2 @ cs3"
    using moveFile_overwrite_extends [of os "conf CONF_POLICY_PATH @ ''.old''" "conf CONF_POLICY_PATH" True tr2]
    by (auto simp: restorePolicy_def Let_def)
  show ?thesis
  proof (cases ok1)
    case True
    then have "deployPolicyFile conf os path tr = (if ok2 then (True, tr2) else (False, restorePolicy conf os tr2))"
      by (simp add: deployPolicyFile_def b m split: bool.split)
    then show ?thesis using 1 2 3 by simp
  qed (simp add: deployPolicyFile_def b 1)
qed

lemma unpack_extends: "\<exists>ok cs. unpack dirs os (dir @ ''/'' @ name) destPath tr = Some (ok, tr @ cs)"
  by (cases "archive_kind dirs dir name")
     (auto simp: unpack_def identify_kind builders_def SystemCmdExecutor_def Let_def)

lemma deploy_archives_extends:
  assumes "\<forall>p \<in> set ps. \<exists>dir name. p = dir @ ''/'' @ name"
  shows "\<exists>ok cs. deploy_archives dirs conf os ps tr = Some (ok, tr @ cs)"
  using assms
proof (induction ps arbitrary: tr)
  case (Cons p ps)
  then obtain dir name where "p = dir @ ''/'' @ name" by auto
  with unpack_extends [of dirs os dir name "conf CONF_MODULE_DEPLOY_PATH" tr] obtain ok cs where
    u: "deployArchive dirs conf os p tr = Some (ok, tr @ cs)" by (auto simp: deployArchive_def)
  show ?case
  proof (cases ok)
    case True
    with u Cons.IH [of "tr @ cs"] Cons.prems show ?thesis by auto
  next
    case False
    with u show ?thesis by (intro exI [of _ False] exI [of _ cs]) simp
  qed
qed (auto intro: exI [of _ True])

lemma DeployPipeline_call_shape:
  assumes "rootPath pkg = root @ ''/''"
  shows "\<exists>ok cs. DeployPipeline_call dirs conf os pkg tr = Some (ok, tr @ System (conf CONF_STOP_MLPLATFORM_CMD) # cs) \<and>
    (if f_ret os tr (System (conf CONF_STOP_MLPLATFORM_CMD)) \<noteq> 0 then cs = [] \<and> \<not> ok
     else \<exists>ds. cs = ds @ [System (conf CONF_START_MLPLATFORM_CMD)] \<and>
       (ok \<longrightarrow> f_ret os (tr @ System (conf CONF_STOP_MLPLATFORM_CMD) # ds) (System (conf CONF_START_MLPLATFORM_CMD)) = 0))"
proof -
  let ?stop = "System (conf CONF_STOP_MLPLATFORM_CMD)"
  have "\<forall>p \<in> set (getArchivesPath True pkg). \<exists>dir name. p = dir @ ''/'' @ name"
    by (auto simp: getArchivesPath_def assms)
  from deploy_archives_extends [OF this, of dirs conf os "tr @ [?stop]"] obtain ok1 cs1 where
    a: "deploy_archives dirs conf os (getArchivesPath True pkg) (tr @ [?stop]) = Some (ok1, tr @ ?stop # cs1)" by auto
  obtain ok2 tr2 where p: "deployPolicyFile conf os (getPolicyPath True pkg) (tr @ ?stop # cs1) = (ok2, tr2)" by fastforce
  then obtain cs2 where "tr2 = tr @ ?stop # cs1 @ cs2"
    using deployPolicyFile_extends [of conf os "getPolicyPath True pkg" "tr @ ?stop # cs1"] by auto
  with a p show ?thesis
    by (cases "f_ret os tr ?stop = 0"; cases ok1; cases ok2)
       (auto simp: DeployPipeline_call_def SystemCmdExecutor_def fallback_def)
qed

text \<open>
  C9. Once the platform has been stopped it is started again as the last thing a deployment does,
  whatever fails in between; when it cannot be stopped nothing else is done; and success is reported
  only if the platform's start succeeded.
\<close>

theorem deploy_always_restarts:
  assumes "rootPath pkg = root @ ''/''"
  shows "\<exists>ok cs. DeployPipeline_call dirs conf os pkg tr = Some (ok, tr @ System (conf CONF_STOP_MLPLATFORM_CMD) # cs) \<and>
    (if f_ret os tr (System (conf CONF_STOP_MLPLATFORM_CMD)) \<noteq> 0 then cs = [] \<and> \<not> ok
     else \<exists>ds. cs = ds @ [System (conf CONF_START_MLPLATFORM_CMD)] \<and>
       (ok \<longrightarrow> f_ret os (tr @ System (conf CONF_STOP_MLPLATFORM_CMD) # ds) (System (conf CONF_START_MLPLATFORM_CMD)) = 0))"
  using assms by (rule DeployPipeline_call_shape)

definition all_fine :: file_os where
  "all_fine = \<lparr>f_ret = (\<lambda>tr c. 0), f_exdev = (\<lambda>tr c. False)\<rparr>"

theorem deploy_always_restarts_witness:
  "\<exists>ok ds. DeployPipeline_call (\<lambda>_. None) (\<lambda>key. key) all_fine
      \<lparr>rootPath = ''/tmp/x/'', policyFile = ''Policy.json'', archives = [''m.zip'']\<rparr> [] =
        Some (ok, System ''stopMLAppCmd'' # ds @ [System ''startMLAppCmd''])"
  using deploy_always_restarts [of "\<lparr>rootPath = ''/tmp/x/'', policyFile = ''Policy.json'', archives = [''m.zip'']\<rparr>"
      "''/tmp/x''" "\<lambda>_. None" "\<lambda>key. key" all_fine "[]"]
  by (auto simp: all_fine_def CONF_STOP_MLPLATFORM_CMD_def CONF_START_MLPLATFORM_CMD_def)

section \<open>Moving a package\<close>

lemma last_addLastDelimiter: "addLastDelimiter path @ name = joinComponents path name"
  by (simp add: addLastDelimiter_def joinComponents_def)

lemma combine_file:
  assumes "CHR ''/'' \<notin> set name" "name \<noteq> []"
  shows "combine (root @ CHR ''/'' # name) path = addLastDelimiter path @ name"
  using str_find_last_append [OF assms(1), of root] assms(2)
  by (simp add: combine_def substr_from_def last_addLastDelimiter)

lemma moveFiles_loop_extends: "\<exists>cs. snd (moveFiles_loop os files path tr) = tr @ cs"
proof (induction files arbitrary: tr)
  case (Cons g fs)
  obtain ok t1 where "moveFile os g (combine g path) tr = (ok, t1)" by fastforce
  moreover from this obtain cs where "t1 = tr @ cs" using moveFile_extends [of os g "combine g path" tr] by auto
  ultimately show ?case using Cons.IH [of t1] by (cases ok) (auto simp: Let_def)
qed simp

lemma moveFiles_loop_targets:
  "moveFiles_loop os files path tr = (True, tr') \<Longrightarrow>
   \<forall>f \<in> set files. Rename f (combine f path) \<in> set tr'"
proof (induction files arbitrary: tr)
  case (Cons f files)
  obtain ok tr1 where m: "moveFile os f (combine f path) tr = (ok, tr1)" by fastforce
  have "ok" using Cons.prems m by (auto simp: Let_def split: if_splits bool.splits)
  with Cons.prems m have r: "moveFiles_loop os files path tr1 = (True, tr')" by (auto simp: Let_def split: if_splits)
  have "Rename f (combine f path) \<in> set tr1"
    using m by (auto simp: moveFile_def copyFile_def SystemCmdExecutor_def Let_def split: if_splits)
  with r Cons.IH [OF r] moveFiles_loop_extends [of os files path tr1] show ?case by auto
qed simp

text \<open>
  After a package has been moved it is looked up where its files went: every file of the new
  package is the target of the move of the file of the old one, and every one of these moves was made.
\<close>

theorem package_follows_its_files:
  assumes "movePackage os pkg path tr = (True, pkg', tr')" "rootPath pkg = root @ ''/''"
    and "\<forall>n \<in> insert (policyFile pkg) (set (archives pkg)). CHR ''/'' \<notin> set n \<and> n \<noteq> []"
  shows "allFiles True pkg' = map (\<lambda>f. combine f path) (allFiles True pkg) \<and>
    (\<forall>f \<in> set (allFiles True pkg). Rename f (combine f path) \<in> set tr')"
proof -
  have m: "moveFiles os (allFiles True pkg) path tr = (True, tr')" and pkg': "pkg' = setRootPath path pkg"
    using assms(1) by (auto simp: movePackage_def split: prod.splits if_splits)
  have "moveFiles_loop os (allFiles True pkg) path tr = (True, tr')"
    using m by (auto simp: moveFiles_def split: if_splits)
  note moves = moveFiles_loop_targets [OF this]
  have "allFiles True pkg' = map (\<lambda>f. combine f path) (allFiles True pkg)"
    using assms(3)
    by (simp add: pkg' allFiles_def getArchivesPath_def getPolicyPath_def setRootPath_def assms(2) combine_file)
  with moves show ?thesis by blast
qed

theorem package_follows_its_files_witness:
  "allFiles True (fst (snd (movePackage all_fine \<lparr>rootPath = ''/mnt/'', policyFile = ''Policy.json'', archives = [''m.zip'']\<rparr> ''/tmp/x'' [])))
     = [combine ''/mnt/m.zip'' ''/tmp/x'', combine ''/mnt/Policy.json'' ''/tmp/x'']"
proof -
  let ?pkg = "\<lparr>rootPath = ''/mnt/'', policyFile = ''Policy.json'', archives = [''m.zip'']\<rparr>"
  obtain ok pkg' tr' where m: "movePackage all_fine ?pkg ''/tmp/x'' [] = (ok, pkg', tr')" by (metis prod_cases3)
  have ne: "combine ''/mnt/m.zip'' ''/tmp/x'' \<noteq> []" "combine ''/mnt/Policy.json'' ''/tmp/x'' \<noteq> []"
    using combine_file [of "''m.zip''" "''/mnt''" "''/tmp/x''"] combine_file [of "''Policy.json''" "''/mnt''" "''/tmp/x''"] by simp_all
  have ok: ok using m ne
    by (auto simp: movePackage_def moveFiles_def allFiles_def getArchivesPath_def getPolicyPath_def moveFile_def all_fine_def)
  have "movePackage all_fine ?pkg ''/tmp/x'' [] = (True, pkg', tr')" using m ok by simp
  from package_follows_its_files [OF this, of "''/mnt''"] show ?thesis
    by (simp add: m allFiles_def getArchivesPath_def getPolicyPath_def)
qed

section \<open>The temporary folder\<close>

lemma moveFiles_extends: "\<exists>cs. snd (moveFiles os files path tr) = tr @ cs"
  using moveFiles_loop_extends [of os files path tr] by (simp add: moveFiles_def)

lemma setRootPath_slash: "path \<noteq> [] \<Longrightarrow> \<exists>root. rootPath (setRootPath path pkg) = root @ ''/''"
  by (cases path rule: rev_cases) (auto simp: setRootPath_def addLastDelimiter_def)

text \<open>
  C31. When a package was found on a medium and a temporary folder could be made for it, the folder is
  removed as the last call, whether moving or deploying succeeded or not.
\<close>

theorem temporary_folder_removed:
  assumes "InstallPackageDetector_process dirs mountPath = Some (Some pkg)"
    and "TemporaryFolder_new os randomName (conf ''usbTempPath'') tr = (Inr fullPath, tr1)" "fullPath \<noteq> []"
  shows "\<exists>ok cs. UsbProcessingPipeline_call dirs conf os randomName mountPath tr =
    Some (Inr ok, tr1 @ cs @ [Remove_tree fullPath])"
proof -
  obtain ok1 pkg1 tr2 where m: "movePackage os pkg fullPath tr1 = (ok1, pkg1, tr2)" by (metis prod_cases3)
  then have tr2: "tr2 = snd (moveFiles os (allFiles True pkg) fullPath tr1)" and
    pkg1: "ok1 \<longrightarrow> pkg1 = setRootPath fullPath pkg" by (auto simp: movePackage_def split: prod.splits)
  obtain cs where cs: "tr2 = tr1 @ cs" using moveFiles_extends tr2 by metis
  show ?thesis
  proof (cases ok1)
    case False
    with assms m cs show ?thesis by (auto simp: UsbProcessingPipeline_call_def TemporaryFolder_destroy_def)
  next
    case True
    have "\<exists>root. rootPath pkg1 = root @ ''/''"
      using pkg1 True setRootPath_slash [OF assms(3)] by simp
    then obtain root where "rootPath pkg1 = root @ ''/''" by blast
    from DeployPipeline_call_shape [OF this, of dirs conf os tr2]
    obtain ok ds where "DeployPipeline_call dirs conf os pkg1 tr2 = Some (ok, tr2 @ ds)" by blast
    with assms m cs True show ?thesis by (auto simp: UsbProcessingPipeline_call_def TemporaryFolder_destroy_def)
  qed
qed

definition usb_stick :: dirs where
  "usb_stick p = (if p = ''/mnt'' then Some [''Policy.json'', ''m.zip''] else None)"

theorem temporary_folder_removed_witness:
  "\<exists>ok cs. UsbProcessingPipeline_call usb_stick (\<lambda>key. key) all_fine ''r'' ''/mnt'' [] =
    Some (Inr ok, [Probe ''usbTempPath'', Mkdir ''usbTempPath/r''] @ cs @ [Remove_tree ''usbTempPath/r''])"
proof -
  have "InstallPackageDetector_process usb_stick ''/mnt'' =
      Some (Some \<lparr>rootPath = ''/mnt/'', policyFile = ''Policy.json'', archives = [''m.zip'']\<rparr>)"
    by code_simp
  moreover have "TemporaryFolder_new all_fine ''r'' ''usbTempPath'' [] =
      (Inr ''usbTempPath/r'', [Probe ''usbTempPath'', Mkdir ''usbTempPath/r''])"
    by code_simp
  ultimately show ?thesis
    using temporary_folder_removed [of usb_stick "''/mnt''" _ all_fine "''r''" "\<lambda>key. key" "[]"] by blast
qed

section \<open>The walk that removes a folder\<close>

text \<open>The paths below a folder, a directory behind what it holds.\<close>

fun paths_below :: "string \<Rightarrow> file_tree \<Rightarrow> string list" where
  "paths_below dir (File_entry name) = [dir @ name]"
| "paths_below dir (Folder_entry name inside) =
     concat (map (paths_below (dir @ name @ ''/'')) inside) @ [dir @ name]"

text \<open>
  The walk removes a prefix of these paths in their order, the whole of them exactly if no removal
  before the last failed.
\<close>

lemma travelsalRemove_order:
  "\<exists>k. snd (travelsalRemove os dir t tr) = tr @ map Remove (take k (paths_below dir t)) \<and>
     (fst (travelsalRemove os dir t tr) = 0 \<longrightarrow> k = length (paths_below dir t))"
  "\<exists>k. snd (travelsalRemove_entries os dir ts tr) = tr @ map Remove (take k (concat (map (paths_below dir) ts))) \<and>
     (fst (travelsalRemove_entries os dir ts tr) = 0 \<longrightarrow> k = length (concat (map (paths_below dir) ts)))"
proof (induction os dir t tr and os dir ts tr rule: travelsalRemove_travelsalRemove_entries.induct)
  case (2 os dir name inside tr)
  obtain status tr1 where e: "travelsalRemove_entries os (dir @ name @ ''/'') inside tr = (status, tr1)" by fastforce
  let ?ps = "concat (map (paths_below (dir @ name @ ''/'')) inside)"
  from 2 e obtain k where k: "tr1 = tr @ map Remove (take k ?ps)" "status = 0 \<longrightarrow> k = length ?ps" by auto
  show ?case
  proof (cases "status = 0")
    case True
    with e k show ?thesis by (intro exI [of _ "length ?ps + 1"]) auto
  next
    case False
    with e k show ?thesis by (intro exI [of _ "min k (length ?ps)"]) (auto simp: min_def)
  qed
next
  case (4 os dir entry inside tr)
  obtain status tr1 where e: "travelsalRemove os dir entry tr = (status, tr1)" by fastforce
  let ?ps = "paths_below dir entry"
  from "4.IH"(1) e obtain k where k: "tr1 = tr @ map Remove (take k ?ps)" "status = 0 \<longrightarrow> k = length ?ps" by auto
  show ?case
  proof (cases "status = 0")
    case True
    from "4.IH"(2) [OF e [symmetric]] True obtain j where
      "snd (travelsalRemove_entries os dir inside tr1) = tr1 @ map Remove (take j (concat (map (paths_below dir) inside)))"
      "fst (travelsalRemove_entries os dir inside tr1) = 0 \<longrightarrow> j = length (concat (map (paths_below dir) inside))" by auto
    with True e k show ?thesis by (intro exI [of _ "length ?ps + j"]) auto
  next
    case False
    with e k show ?thesis by (intro exI [of _ "min k (length ?ps)"]) (auto simp: min_def)
  qed
qed (auto intro: exI [of _ 1])

text \<open>The random name holds capital letters only, so it cannot leave its parent or a quoted argument.\<close>

lemma random_name_letters:
  assumes "\<forall>d \<in> set draws. 65 \<le> d \<and> d \<le> 90" "c \<in> set (random_name draws)"
  shows "65 \<le> (of_char c :: nat) \<and> (of_char c :: nat) \<le> 90"
proof -
  from assms obtain d where d: "d \<in> set draws" "c = char_of d" by (auto simp: random_name_def dest: in_set_takeD)
  with assms(1) have "65 \<le> d" "d \<le> 90" by auto
  then show ?thesis by (simp add: d(2) of_char_of)
qed

end
