(* ===== verification/Deployment_Agent.thy ===== *)
theory Deployment_Agent
  imports System_Observer Deploy_Correct
begin

text \<open>
  The deployment agent as a whole (DeploymentAgent/src/main.cpp): the configuration is checked, the
  observer's loop runs, and every USB medium it reports goes through the processing pipeline. An
  exception ends the agent. The agent's loop has no end; a run of it is cut off after a number of
  turns, and the calls on files are recorded apart from those of the observer.
\<close>

text \<open>The consumers: the folder's only writes a log line, the bus's is the pipeline.\<close>

fun consume_reports ::
  "dirs \<Rightarrow> conf \<Rightarrow> file_os \<Rightarrow> (file_call list \<Rightarrow> string) \<Rightarrow> report list \<Rightarrow> file_call list \<Rightarrow> (string option \<times> file_call list) option" where
  "consume_reports dirs conf fos randomName [] ftr = Some (None, ftr)"
| "consume_reports dirs conf fos randomName (File_ready path # reports) ftr =
     consume_reports dirs conf fos randomName reports ftr"
| "consume_reports dirs conf fos randomName (Usb_mounted msd # reports) ftr = do {
     (result, ftr) \<leftarrow> UsbProcessingPipeline_call dirs conf fos (randomName ftr) (mountPath msd) ftr;
     case result of
       Inl e \<Rightarrow> Some (Some e, ftr)
     | Inr _ \<Rightarrow> consume_reports dirs conf fos randomName reports ftr
   }"

text \<open>
  \<open>main\<close>. The bus is what the constructor of its monitor gets from libudev and the descriptor of its
  netlink socket; \<open>parse\<close> is what the JSON library makes of the configuration's text.
\<close>

record udev_bus =
  bus_udev :: bool
  bus_mon :: bool
  bus_filter :: int
  bus_enable :: int
  bus_fd :: int

definition agent_main ::
  "(int, 'z) os_scheme \<Rightarrow> 'dev udev_env \<Rightarrow> (int trace \<Rightarrow> nat \<Rightarrow> int) \<Rightarrow> nat \<Rightarrow> udev_bus \<Rightarrow> dirs \<Rightarrow> (string \<Rightarrow> string option) \<Rightarrow>
     (string \<Rightarrow> json) \<Rightarrow> file_os \<Rightarrow> (file_call list \<Rightarrow> string) \<Rightarrow> (string option \<times> file_call list) option" where
  "agent_main os env clock n bus dirs contents parse fos randomName =
     (case Configuration_new contents parse ''deployment_config.json'' of
        Inl e \<Rightarrow> Some (Some e, [])
      | Inr config \<Rightarrow>
          (case DeployPipeline_new (value_string config) of
             Some e \<Rightarrow> Some (Some e, [])
           | None \<Rightarrow>
               (case UsbMassStorageMonitor_new (bus_udev bus) (bus_mon bus) (bus_filter bus) (bus_enable bus) of
                  Some (e, _) \<Rightarrow> Some (Some e, [])
                | None \<Rightarrow>
                    let ftr = [Mkdir ''/tmp/ml-deploy'']
                    in case FolderMonitor_new os ''/tmp/ml-deploy'' [] of
                         (Inl e, tr) \<Rightarrow> Some (Some e, ftr)
                       | (Inr m, tr) \<Rightarrow> do {
                           (reports, _) \<leftarrow> SystemObserver_monitor os env clock n EPollWorker_new
                             [SystemObservable_usb (bus_fd bus) [], SystemObservable_folder m] [] tr;
                           consume_reports dirs (value_string config) fos randomName reports ftr
                         })))"

section \<open>The platform is not left stopped\<close>

text \<open>Of the calls \<open>cs\<close> after \<open>tr\<close>, every stop that succeeded has a start behind it.\<close>

definition restarted :: "conf \<Rightarrow> file_os \<Rightarrow> file_call list \<Rightarrow> file_call list \<Rightarrow> bool" where
  "restarted conf os tr cs \<longleftrightarrow>
     (\<forall>as bs. cs = as @ System (conf CONF_STOP_MLPLATFORM_CMD) # bs \<longrightarrow>
        f_ret os (tr @ as) (System (conf CONF_STOP_MLPLATFORM_CMD)) = 0 \<longrightarrow>
        System (conf CONF_START_MLPLATFORM_CMD) \<in> set bs)"

lemma restarted_Nil [simp]: "restarted conf os tr []"
  by (simp add: restarted_def)

lemma restarted_append:
  assumes "restarted conf os tr cs" "restarted conf os (tr @ cs) ds"
  shows "restarted conf os tr (cs @ ds)"
  unfolding restarted_def
proof (intro allI impI)
  let ?stop = "System (conf CONF_STOP_MLPLATFORM_CMD)"
  fix as bs
  assume e: "cs @ ds = as @ ?stop # bs" and r: "f_ret os (tr @ as) ?stop = 0"
  from e consider us where "cs = as @ ?stop # us" "bs = us @ ds" | us where "as = cs @ us" "ds = us @ ?stop # bs"
    unfolding append_eq_append_conv2 by (auto simp: append_eq_Cons_conv)
  then show "System (conf CONF_START_MLPLATFORM_CMD) \<in> set bs"
  proof cases
    case 1
    with assms(1) r show ?thesis by (fastforce simp: restarted_def)
  next
    case 2
    with assms(2) r show ?thesis by (fastforce simp: restarted_def)
  qed
qed

lemma restarted_other: "System (conf CONF_STOP_MLPLATFORM_CMD) \<notin> set cs \<Longrightarrow> restarted conf os tr cs"
  by (auto simp: restarted_def)

text \<open>Whatever happens before it, a start at the end answers for all stops.\<close>

lemma restarted_start:
  assumes "conf CONF_START_MLPLATFORM_CMD \<noteq> conf CONF_STOP_MLPLATFORM_CMD"
  shows "restarted conf os tr (cs @ [System (conf CONF_START_MLPLATFORM_CMD)])"
  unfolding restarted_def
proof (intro allI impI)
  fix as bs
  assume "cs @ [System (conf CONF_START_MLPLATFORM_CMD)] = as @ System (conf CONF_STOP_MLPLATFORM_CMD) # bs"
  then show "System (conf CONF_START_MLPLATFORM_CMD) \<in> set bs"
    using assms by (cases bs rule: rev_cases) auto
qed

text \<open>No call of a move is a stop, if the stop command is not a copy command.\<close>

definition not_copy :: "string \<Rightarrow> bool" where
  "not_copy cmd \<longleftrightarrow> \<not> is_prefix ''cp -rf '' cmd"

lemma moveFile_calls:
  "not_copy cmd \<Longrightarrow> \<exists>cs. snd (moveFile os s d tr) = tr @ cs \<and> System cmd \<notin> set cs"
  by (auto simp: moveFile_def copyFile_def SystemCmdExecutor_def Let_def not_copy_def)

lemma moveFiles_loop_calls:
  "not_copy cmd \<Longrightarrow> \<exists>cs. snd (moveFiles_loop os fs path tr) = tr @ cs \<and> System cmd \<notin> set cs"
proof (induction fs arbitrary: tr)
  case (Cons g fs)
  obtain ok tr1 where m: "moveFile os g (combine g path) tr = (ok, tr1)" by fastforce
  then obtain cs where cs: "tr1 = tr @ cs" "System cmd \<notin> set cs"
    using moveFile_calls [OF Cons.prems, of os g "combine g path" tr] by auto
  from Cons.IH [OF Cons.prems, of tr1] obtain ds where "snd (moveFiles_loop os fs path tr1) = tr1 @ ds" "System cmd \<notin> set ds" by blast
  with m cs show ?case by (cases ok) (auto simp: Let_def)
qed simp

lemma movePackage_calls:
  assumes "not_copy cmd"
  shows "\<exists>cs. snd (snd (movePackage os pkg path tr)) = tr @ cs \<and> System cmd \<notin> set cs"
proof -
  obtain ok tr1 where "moveFiles os (allFiles True pkg) path tr = (ok, tr1)" by fastforce
  moreover from moveFiles_loop_calls [OF assms, of os "allFiles True pkg" path tr]
  have "\<exists>cs. snd (moveFiles os (allFiles True pkg) path tr) = tr @ cs \<and> System cmd \<notin> set cs" by (simp add: moveFiles_def)
  ultimately show ?thesis by (simp add: movePackage_def)
qed

lemma TemporaryFolder_calls: "TemporaryFolder_new os nm parent tr = (r, tr') \<Longrightarrow> \<exists>cs. tr' = tr @ cs \<and> System cmd \<notin> set cs"
  by (auto simp: TemporaryFolder_new_def generateFolder_def Let_def split: if_splits)

lemma DeployPipeline_call_restarts:
  assumes "rootPath pkg = root @ ''/''" "conf CONF_START_MLPLATFORM_CMD \<noteq> conf CONF_STOP_MLPLATFORM_CMD"
  shows "\<exists>ok cs. DeployPipeline_call dirs conf os pkg tr = Some (ok, tr @ cs) \<and> restarted conf os tr cs"
proof -
  let ?stop = "System (conf CONF_STOP_MLPLATFORM_CMD)"
  from DeployPipeline_call_shape [OF assms(1), of dirs conf os tr] obtain ok cs where
    d: "DeployPipeline_call dirs conf os pkg tr = Some (ok, tr @ ?stop # cs)" and
    c: "if f_ret os tr ?stop \<noteq> 0 then cs = [] \<and> \<not> ok
        else \<exists>ds. cs = ds @ [System (conf CONF_START_MLPLATFORM_CMD)] \<and>
          (ok \<longrightarrow> f_ret os (tr @ ?stop # ds) (System (conf CONF_START_MLPLATFORM_CMD)) = 0)" by blast
  have "restarted conf os tr (?stop # cs)"
  proof (cases "f_ret os tr ?stop = 0")
    case True
    with c obtain ds where "cs = ds @ [System (conf CONF_START_MLPLATFORM_CMD)]" by auto
    then show ?thesis using restarted_start [OF assms(2), of os tr "?stop # ds"] by simp
  next
    case False
    with c show ?thesis by (auto simp: restarted_def Cons_eq_append_conv)
  qed
  with d show ?thesis by blast
qed

lemma destroy_restarts:
  "restarted conf os tr cs \<Longrightarrow> \<exists>ds. TemporaryFolder_destroy path (tr @ cs) = tr @ ds \<and> restarted conf os tr ds"
  using restarted_append [of conf os tr cs "[Remove_tree path]"] restarted_other [of conf "[Remove_tree path]"]
  by (auto simp: TemporaryFolder_destroy_def)

lemma UsbProcessingPipeline_call_restarts:
  assumes stop: "not_copy (conf CONF_STOP_MLPLATFORM_CMD)"
    and start: "conf CONF_START_MLPLATFORM_CMD \<noteq> conf CONF_STOP_MLPLATFORM_CMD"
  shows "\<exists>r cs. UsbProcessingPipeline_call dirs conf os nm path tr = Some (r, tr @ cs) \<and> restarted conf os tr cs"
proof -
  obtain found where f: "InstallPackageDetector_process dirs path = Some found"
    using InstallPackageDetector_process_shape by blast
  obtain r1 tr1 where t: "TemporaryFolder_new os nm (conf ''usbTempPath'') tr = (r1, tr1)" by fastforce
  from TemporaryFolder_calls [OF t, of "conf CONF_STOP_MLPLATFORM_CMD"] obtain cs where
    tr1: "tr1 = tr @ cs" and cs: "restarted conf os tr cs" by (auto intro: restarted_other)
  show ?thesis
  proof (cases "\<exists>pkg full. found = Some pkg \<and> r1 = Inr full \<and> full \<noteq> []")
    case False
    with f t tr1 cs show ?thesis
      by (cases found; cases r1) (auto simp: UsbProcessingPipeline_call_def TemporaryFolder_destroy_def)
  next
    case True
    then obtain pkg full where p: "found = Some pkg" "r1 = Inr full" "full \<noteq> []" by blast
    obtain ok pkg2 tr2 where m: "movePackage os pkg full tr1 = (ok, pkg2, tr2)" by (metis prod_cases3)
    from movePackage_calls [OF stop, of os pkg full tr1] obtain ds where
      tr2: "tr2 = tr @ cs @ ds" and ds: "restarted conf os tr (cs @ ds)"
      using m tr1 restarted_append [OF cs restarted_other] by auto
    show ?thesis
    proof (cases ok)
      case False
      with f t p m destroy_restarts [OF ds, of full] show ?thesis
        by (auto simp: UsbProcessingPipeline_call_def tr2)
    next
      case True
      with m have "pkg2 = setRootPath full pkg" by (auto simp: movePackage_def split: prod.splits)
      with setRootPath_slash [OF p(3)] obtain root where "rootPath pkg2 = root @ ''/''" by metis
      from DeployPipeline_call_restarts [OF this start, of dirs os tr2] obtain ok2 es where
        d: "DeployPipeline_call dirs conf os pkg2 tr2 = Some (ok2, tr @ (cs @ ds) @ es)" and "restarted conf os tr2 es"
        unfolding tr2 by auto
      then have "restarted conf os tr ((cs @ ds) @ es)" using restarted_append [OF ds, of es] tr2 by simp
      from destroy_restarts [OF this, of full] f t p m True d show ?thesis
        by (auto simp: UsbProcessingPipeline_call_def)
    qed
  qed
qed

lemma consume_reports_restarts:
  assumes "not_copy (conf CONF_STOP_MLPLATFORM_CMD)" "conf CONF_START_MLPLATFORM_CMD \<noteq> conf CONF_STOP_MLPLATFORM_CMD"
  shows "\<exists>e cs. consume_reports dirs conf fos randomName reports ftr = Some (e, ftr @ cs) \<and> restarted conf fos ftr cs"
proof (induction reports arbitrary: ftr)
  case (Cons report reports)
  show ?case
  proof (cases report)
    case (Usb_mounted msd)
    from UsbProcessingPipeline_call_restarts [where conf = conf, OF assms, of dirs fos "randomName ftr" "mountPath msd" ftr]
    obtain r cs where
      u: "UsbProcessingPipeline_call dirs conf fos (randomName ftr) (mountPath msd) ftr = Some (r, ftr @ cs)"
      "restarted conf fos ftr cs" by blast
    from Cons.IH [of "ftr @ cs"] obtain e ds where
      "consume_reports dirs conf fos randomName reports (ftr @ cs) = Some (e, ftr @ cs @ ds)" "restarted conf fos ftr (cs @ ds)"
      using u(2) restarted_append by fastforce
    with u show ?thesis by (cases r) (auto simp: Usb_mounted)
  qed (use Cons.IH in simp)
qed simp

text \<open>
  C19. The agent consumes every list of reports in finitely many calls, and at the end of them, as at the
  end of every run of the agent, the platform has been started again after each time it was stopped,
  provided that the stop command is neither the start command nor a copy.
\<close>

theorem agent_leaves_platform_running:
  assumes "Configuration_new contents parse ''deployment_config.json'' = Inr config" "conf = value_string config"
    and "not_copy (conf CONF_STOP_MLPLATFORM_CMD)" "conf CONF_START_MLPLATFORM_CMD \<noteq> conf CONF_STOP_MLPLATFORM_CMD"
  shows "(\<exists>e cs. consume_reports dirs conf fos randomName reports ftr = Some (e, ftr @ cs) \<and> restarted conf fos ftr cs) \<and>
    (agent_main os env clock n bus dirs contents parse fos randomName = Some (exc, done_calls) \<longrightarrow> restarted conf fos [] done_calls)"
proof
  show "\<exists>e cs. consume_reports dirs conf fos randomName reports ftr = Some (e, ftr @ cs) \<and> restarted conf fos ftr cs"
    using assms(3, 4) by (rule consume_reports_restarts)
  have folder: "restarted conf fos [] [Mkdir ''/tmp/ml-deploy'']" by (simp add: restarted_other)
  show "agent_main os env clock n bus dirs contents parse fos randomName = Some (exc, done_calls) \<longrightarrow> restarted conf fos [] done_calls"
  proof
    assume "agent_main os env clock n bus dirs contents parse fos randomName = Some (exc, done_calls)"
    then consider "done_calls = []" | "done_calls = [Mkdir ''/tmp/ml-deploy'']" |
      reports where "consume_reports dirs conf fos randomName reports [Mkdir ''/tmp/ml-deploy''] = Some (exc, done_calls)"
      by (auto simp: agent_main_def assms(1, 2) Let_def bind_eq_Some_conv split: option.splits prod.splits sum.splits)
    then show "restarted conf fos [] done_calls"
    proof cases
      case 3
      with consume_reports_restarts [where conf = conf, OF assms(3, 4), of dirs fos randomName reports "[Mkdir ''/tmp/ml-deploy'']"]
        restarted_append [OF folder] show ?thesis by auto
    qed (auto simp: folder)
  qed
qed

text \<open>A stick with a package is plugged in: the agent's first turn finds, deploys and forgets it.\<close>

definition stick_at_mount :: dirs where
  "stick_at_mount p = (if p = ''/media/stick'' then Some [''Policy.json'', ''m.zip''] else None)"

definition settings :: json where
  "settings = Json_object (\<lambda>key. Some (Json_string key))"

definition run_on_stick :: "(string option \<times> file_call list) option" where
  "run_on_stick = agent_main busy_folder (\<lambda>_. plugged) (\<lambda>_ _. 7) 1
     \<lparr>bus_udev = True, bus_mon = True, bus_filter = 0, bus_enable = 0, bus_fd = 3\<rparr> stick_at_mount (\<lambda>_. Some []) (\<lambda>_. settings) all_fine (\<lambda>_. ''r'')"

theorem agent_leaves_platform_running_witness:
  "\<exists>cs ds. run_on_stick = Some (None, cs @ System ''stopMLAppCmd'' # ds) \<and> System ''startMLAppCmd'' \<in> set ds"
proof -
  have "case run_on_stick of None \<Rightarrow> False | Some (exc, tr) \<Rightarrow> exc = None \<and> System ''stopMLAppCmd'' \<in> set tr"
    by code_simp
  then obtain tr where r: "run_on_stick = Some (None, tr)" and "System ''stopMLAppCmd'' \<in> set tr"
    by (auto split: option.splits)
  then obtain cs ds where tr: "tr = cs @ System ''stopMLAppCmd'' # ds" by (meson split_list)
  have c: "value_string settings key = key" for key by (simp add: value_string_def settings_def)
  have "restarted (value_string settings) all_fine [] tr"
    using agent_leaves_platform_running [of "\<lambda>_. Some []" "\<lambda>_. settings" settings "value_string settings",
        THEN conjunct2, THEN mp, OF _ _ _ _ r [unfolded run_on_stick_def]]
    by (simp add: Configuration_new_def c not_copy_def CONF_STOP_MLPLATFORM_CMD_def CONF_START_MLPLATFORM_CMD_def)
  then have "System ''startMLAppCmd'' \<in> set ds"
    by (auto simp: restarted_def tr c all_fine_def CONF_STOP_MLPLATFORM_CMD_def CONF_START_MLPLATFORM_CMD_def)
  with r tr show ?thesis by blast
qed

end
