(* ===== verification/Object_Lifetimes.thy ===== *)
theory Object_Lifetimes
  imports Folder_Monitor Usb_Correct
begin

text \<open>
  Classes that own a handle and can be moved but not copied: \<open>FolderMonitor\<close>, \<open>UsbMassStorageMonitor\<close>
  and its \<open>RawDevice\<close> (DeploymentAgent/src). The claim is the same for all of them, that no program of
  moves, assignments and destructions releases a handle twice or loses one, so it is stated and proved
  once, for any class whose three operations keep their part of the bargain.
\<close>

section \<open>Programs of moves\<close>

text \<open>
  Objects are numbered in the order of their construction; one that is destroyed leaves a gap. To use an
  object outside its lifetime, or to assign it to itself, has no defined result.
\<close>

datatype lifetime_op = Move nat | Assign nat nat | Destroy nat

fun lifetime_step ::
  "('o \<Rightarrow> 'o \<times> 'o) \<Rightarrow> ('o \<Rightarrow> 'o \<Rightarrow> 'o \<times> 'o) \<Rightarrow> ('o \<Rightarrow> 'c list \<Rightarrow> 'c list) \<Rightarrow> lifetime_op \<Rightarrow>
     'o option list \<times> 'c list \<Rightarrow> ('o option list \<times> 'c list) option" where
  "lifetime_step move assign destroy (Move i) (objs, tr) = do {
     obj \<leftarrow> alive i objs;
     let (new, rest) = move obj;
     Some (objs[i := Some rest] @ [Some new], tr)
   }"
| "lifetime_step move assign destroy (Assign i j) (objs, tr) =
     (if i = j then None
      else do {
        this \<leftarrow> alive i objs;
        other \<leftarrow> alive j objs;
        let (this, other) = assign this other;
        Some (objs[i := Some this, j := Some other], tr)
      })"
| "lifetime_step move assign destroy (Destroy i) (objs, tr) = do {
     obj \<leftarrow> alive i objs;
     Some (objs[i := None], destroy obj tr)
   }"

fun lifetime_run ::
  "('o \<Rightarrow> 'o \<times> 'o) \<Rightarrow> ('o \<Rightarrow> 'o \<Rightarrow> 'o \<times> 'o) \<Rightarrow> ('o \<Rightarrow> 'c list \<Rightarrow> 'c list) \<Rightarrow> lifetime_op list \<Rightarrow>
     'o option list \<times> 'c list \<Rightarrow> ('o option list \<times> 'c list) option" where
  "lifetime_run move assign destroy [] st = Some st"
| "lifetime_run move assign destroy (p # ps) st = do {
     st \<leftarrow> lifetime_step move assign destroy p st;
     lifetime_run move assign destroy ps st
   }"

definition holdings :: "('o \<Rightarrow> 'h multiset) \<Rightarrow> 'o option list \<Rightarrow> 'h multiset" where
  "holdings owned objs = (\<Sum>obj \<leftarrow> objs. case obj of None \<Rightarrow> {#} | Some obj \<Rightarrow> owned obj)"

lemma holdings_simps [simp]:
  "holdings owned [] = {#}" "holdings owned (Some obj # objs) = owned obj + holdings owned objs"
  "holdings owned (None # objs) = holdings owned objs" "holdings owned (xs @ ys) = holdings owned xs + holdings owned ys"
  by (simp_all add: holdings_def)

lemma holdings_update:
  assumes "alive i objs = Some obj"
  shows "holdings owned (objs[i := new]) + owned obj =
     holdings owned objs + (case new of None \<Rightarrow> {#} | Some obj \<Rightarrow> owned obj)"
  using assms
proof (induction objs arbitrary: i)
  case (Cons x objs)
  show ?case
  proof (cases i)
    case 0
    with Cons.prems show ?thesis by (simp add: alive_def split: option.splits)
  next
    case (Suc k)
    with Cons.prems have "alive k objs = Some obj" by (simp add: alive_def split: if_splits)
    from Cons.IH [OF this] Suc show ?thesis by (cases x) (simp_all add: ac_simps)
  qed
qed (simp add: alive_def)

lemma holdings_dead: "\<forall>obj \<in> set objs. obj = None \<Longrightarrow> holdings owned objs = {#}"
  by (induction objs) auto

section \<open>The bargain\<close>

locale movable =
  fixes owned :: "'o \<Rightarrow> 'h multiset"
    and move :: "'o \<Rightarrow> 'o \<times> 'o"
    and assign :: "'o \<Rightarrow> 'o \<Rightarrow> 'o \<times> 'o"
    and destroy :: "'o \<Rightarrow> 'c list \<Rightarrow> 'c list"
    and freed :: "'c list \<Rightarrow> 'h multiset"
  assumes move_keeps: "move obj = (new, rest) \<Longrightarrow> owned new + owned rest = owned obj"
    and assign_keeps: "assign this other = (this', other') \<Longrightarrow> owned this' + owned other' = owned this + owned other"
    and destroy_frees: "freed (destroy obj tr) = freed tr + owned obj"
begin

lemma step_keeps:
  assumes "lifetime_step move assign destroy p (objs, tr) = Some (objs', tr')"
  shows "freed tr' + holdings owned objs' = freed tr + holdings owned objs"
proof (cases p)
  case (Move i)
  with assms obtain obj new rest where obj: "alive i objs = Some obj" "move obj = (new, rest)"
    and st: "objs' = objs[i := Some rest] @ [Some new]" "tr' = tr"
    by (auto simp: Let_def split: bind_splits prod.splits)
  have "holdings owned objs' + owned obj = holdings owned objs + owned rest + owned new"
    using holdings_update [OF obj(1), of owned "Some rest"] by (simp add: st ac_simps)
  with move_keeps [OF obj(2)] st show ?thesis by (metis add.commute add.left_commute add_left_cancel)
next
  case (Assign i j)
  with assms obtain this other this' other' where neq: "i \<noteq> j" and target: "alive i objs = Some this"
    and other: "alive j objs = Some other" and asg: "assign this other = (this', other')"
    and st: "objs' = objs[i := Some this', j := Some other']" "tr' = tr"
    by (auto simp: Let_def split: bind_splits prod.splits if_splits)
  have "alive j (objs[i := Some this']) = Some other" using neq other target by (simp add: alive_update)
  from holdings_update [OF this, of owned "Some other'"] holdings_update [OF target, of owned "Some this'"]
  have "holdings owned objs' + (owned this + owned other) = holdings owned objs + (owned this' + owned other')"
    by (simp add: st) (metis add.assoc add.commute)
  with assign_keeps [OF asg] st show ?thesis by simp
next
  case (Destroy i)
  with assms obtain obj where obj: "alive i objs = Some obj" and st: "objs' = objs[i := None]" "tr' = destroy obj tr"
    by (auto split: bind_splits)
  from holdings_update [OF obj, of owned None] show ?thesis by (simp add: st destroy_frees ac_simps)
qed

lemma run_keeps:
  "lifetime_run move assign destroy ps (objs, tr) = Some (objs', tr') \<Longrightarrow>
   freed tr' + holdings owned objs' = freed tr + holdings owned objs"
proof (induction ps arbitrary: objs tr)
  case (Cons p ps)
  then obtain objs1 tr1 where "lifetime_step move assign destroy p (objs, tr) = Some (objs1, tr1)"
    and "lifetime_run move assign destroy ps (objs1, tr1) = Some (objs', tr')"
    by (auto split: bind_splits)
  from Cons.IH [OF this(2)] step_keeps [OF this(1)] show ?case by simp
qed simp

end

section \<open>Folder monitors\<close>

definition watch_handle :: "FolderMonitor \<Rightarrow> int multiset" where
  "watch_handle m = (if 0 \<le> descriptor m then {#descriptor m#} else {#})"

definition closed :: "int trace \<Rightarrow> int multiset" where
  "closed tr = mset (concat (map (\<lambda>c. case c of Close d \<Rightarrow> [d] | _ \<Rightarrow> []) tr))"

interpretation folder_monitor: movable watch_handle FolderMonitor_move FolderMonitor_move_assign "FolderMonitor_destroy os" closed
  for os :: "(int, 'z) os_scheme"
  by unfold_locales
     (auto simp: watch_handle_def FolderMonitor_move_def FolderMonitor_move_assign_def FolderMonitor_destroy_def closed_def)

text \<open>
  A folder monitor that was constructed is moved and assigned in any order, the objects that come into
  being on the way are destroyed: the inotify descriptor is closed when all of them are gone, and not
  before; no descriptor is closed twice.
\<close>

theorem inotify_descriptor_closed_once:
  assumes "FolderMonitor_new os path [] = (Inr m, tr)"
    and "lifetime_run FolderMonitor_move FolderMonitor_move_assign (FolderMonitor_destroy os) ps ([Some m], tr) = Some (objs, tr')"
  shows "closed tr' + holdings watch_handle objs = {#descriptor m#} \<and>
     ((\<forall>obj \<in> set objs. obj = None) \<longrightarrow> closed tr' = {#descriptor m#})"
proof -
  have "0 \<le> descriptor m" "closed tr = {#}" using assms(1)
    by (auto simp: FolderMonitor_new_def sys_def closed_def Let_def split: if_splits)
  then have "closed tr' + holdings watch_handle objs = {#descriptor m#}"
    using folder_monitor.run_keeps [OF assms(2)] by (simp add: watch_handle_def)
  then show ?thesis by (auto simp: holdings_dead)
qed

definition watching_os :: "int os" where
  "watching_os = \<lparr>ret = (\<lambda>tr c. 4), bytes_in = (\<lambda>tr c. []), events_in = (\<lambda>tr c. []), ready_in = (\<lambda>tr c. {})\<rparr>"

theorem inotify_descriptor_closed_once_witness:
  "\<exists>m tr tr'. FolderMonitor_new watching_os ''/tmp'' [] = (Inr m, tr) \<and>
     lifetime_run FolderMonitor_move FolderMonitor_move_assign (FolderMonitor_destroy watching_os)
       [Move 0, Destroy 0, Move 1, Assign 1 2, Destroy 2, Destroy 1] ([Some m], tr) = Some ([None, None, None], tr') \<and>
     closed tr' = {#4#}"
proof -
  obtain m tr where m: "FolderMonitor_new watching_os ''/tmp'' [] = (Inr m, tr)" and d: "descriptor m = 4"
    by (auto simp: FolderMonitor_new_def watching_os_def sys_def)
  obtain tr' where "lifetime_run FolderMonitor_move FolderMonitor_move_assign (FolderMonitor_destroy watching_os)
       [Move 0, Destroy 0, Move 1, Assign 1 2, Destroy 2, Destroy 1] ([Some m], tr) = Some ([None, None, None], tr')"
    by (simp add: alive_def FolderMonitor_move_def FolderMonitor_move_assign_def Let_def)
  from m this inotify_descriptor_closed_once [OF m this] d show ?thesis by auto
qed

section \<open>References to devices\<close>

text \<open>\<open>RawDevice\<close> is a pointer that may be null; \<open>udev_device_unref\<close> accepts a null pointer.\<close>

type_synonym 'dev RawDevice = "'dev option"

definition RawDevice_new :: "'dev \<Rightarrow> 'dev refs \<Rightarrow> 'dev RawDevice \<times> 'dev refs" where
  "RawDevice_new d tr = (Some d, tr @ [Ref d])"

definition RawDevice_move :: "'dev RawDevice \<Rightarrow> 'dev RawDevice \<times> 'dev RawDevice" where
  "RawDevice_move other = (other, None)"

definition RawDevice_move_assign :: "'dev RawDevice \<Rightarrow> 'dev RawDevice \<Rightarrow> 'dev RawDevice \<times> 'dev RawDevice" where
  "RawDevice_move_assign this other = (other, this)"

definition RawDevice_destroy :: "'dev RawDevice \<Rightarrow> 'dev refs \<Rightarrow> 'dev refs" where
  "RawDevice_destroy this tr = unref this tr"

definition RawDevice_eq :: "'dev udev_lib \<Rightarrow> 'dev \<Rightarrow> 'dev \<Rightarrow> bool" where
  "RawDevice_eq lib this other =
     (case (devpath lib this, devpath lib other) of
        (Some thisId, Some otherId) \<Rightarrow> strncmp_eq thisId otherId 255
      | _ \<Rightarrow> False)"

definition unrefs :: "'dev refs \<Rightarrow> 'dev multiset" where
  "unrefs tr = mset (concat (map (\<lambda>c. case c of Unref d \<Rightarrow> [d] | _ \<Rightarrow> []) tr))"

interpretation raw_device: movable "mset_set \<circ> set_option" RawDevice_move RawDevice_move_assign RawDevice_destroy unrefs
  by unfold_locales
     (auto simp: RawDevice_move_def RawDevice_move_assign_def RawDevice_destroy_def unref_def unrefs_def split: option.splits)

text \<open>
  A vector whose element at a position is erased moves every later element one down by assignment and
  destroys the last one.
\<close>

fun shift_down :: "('o \<Rightarrow> 'o \<Rightarrow> 'o \<times> 'o) \<Rightarrow> 'o list \<Rightarrow> 'o list" where
  "shift_down assign (x # y # ys) = (let (x, y) = assign x y in x # shift_down assign (y # ys))"
| "shift_down assign xs = xs"

definition vector_erase ::
  "('o \<Rightarrow> 'o \<Rightarrow> 'o \<times> 'o) \<Rightarrow> ('o \<Rightarrow> 'c list \<Rightarrow> 'c list) \<Rightarrow> nat \<Rightarrow> 'o list \<Rightarrow> 'c list \<Rightarrow> 'o list \<times> 'c list" where
  "vector_erase assign destroy i xs tr =
     (let zs = take i xs @ shift_down assign (drop i xs) in (butlast zs, destroy (last zs) tr))"

definition raw_checkIfSameDevice :: "'dev udev_lib \<Rightarrow> 'dev RawDevice \<Rightarrow> 'dev \<Rightarrow> bool" where
  "raw_checkIfSameDevice lib this otherDev =
     (case this of None \<Rightarrow> False | Some dev \<Rightarrow> checkIfSameDevice lib dev otherDev)"

text \<open>The handler of the monitor, with the temporary, the moves and the assignments written out.\<close>

definition raw_handle_events :: "'dev udev_env \<Rightarrow> 'dev RawDevice list \<Rightarrow> 'dev refs \<Rightarrow> ('dev RawDevice list \<times> 'dev refs) option" where
  "raw_handle_events env delayed tr =
     (case received (env tr) of
        None \<Rightarrow> Some (delayed, tr)
      | Some dev \<Rightarrow> do {
          let tr = tr @ [Acquire dev];
          act \<leftarrow> action (env tr) dev;
          let (delayed, tr) =
            (if strncmp_eq ''add'' act 3 then
               let (temporary, tr) = RawDevice_new dev tr; (element, temporary) = RawDevice_move temporary
               in (delayed @ [element], RawDevice_destroy temporary tr)
             else if strncmp_eq ''remove'' act 6 then
               (case find_idx (\<lambda>item. raw_checkIfSameDevice (env tr) item dev) delayed of
                  None \<Rightarrow> (delayed, tr)
                | Some i \<Rightarrow> vector_erase RawDevice_move_assign RawDevice_destroy i delayed tr)
             else (delayed, tr));
          Some (delayed, tr @ [Unref dev])
        })"

lemma shift_down_raw: "shift_down RawDevice_move_assign (x # xs) = xs @ [x]"
  by (induction xs arbitrary: x) (auto simp: RawDevice_move_assign_def)

lemma vector_erase_raw:
  assumes "i < length ds"
  shows "vector_erase RawDevice_move_assign RawDevice_destroy i (map Some ds) tr =
    (map Some (erase_at i ds), tr @ [Unref (ds ! i)])"
proof -
  have "drop i ds = ds ! i # drop (Suc i) ds" using assms by (simp add: Cons_nth_drop_Suc)
  then have "drop i (map Some ds) = Some (ds ! i) # map Some (drop (Suc i) ds)" by (simp add: drop_map)
  then show ?thesis
    by (simp add: vector_erase_def shift_down_raw erase_at_def RawDevice_destroy_def unref_def take_map butlast_append)
qed

lemma find_idx_map: "find_idx P (map f xs) = find_idx (P \<circ> f) xs"
  by (induction xs) auto

text \<open>Exchanging two elements, as \<open>std::partition\<close> does, exchanges the devices and nothing else.\<close>

lemma RawDevice_swap: "std_swap RawDevice_move RawDevice_move_assign a b = (b, a)"
  by (simp add: std_swap_def RawDevice_move_def RawDevice_move_assign_def)

text \<open>
  The monitor may be read with plain devices in place of \<open>RawDevice\<close> objects: the temporary, the moves
  and the assignments of the vector take and release exactly the references that the handler of
  \<open>Usb_Monitor\<close> takes and releases, and leave no null pointer behind.
\<close>

theorem raw_devices_are_devices:
  "raw_handle_events env (map Some delayed) tr = map_option (apfst (map Some)) (handle_usb_events env delayed tr)"
proof (cases "received (env tr)")
  case (Some dev)
  have same: "(\<lambda>item. raw_checkIfSameDevice (env tr') item dev) \<circ> Some = (\<lambda>item. checkIfSameDevice (env tr') item dev)" for tr'
    by (auto simp: raw_checkIfSameDevice_def)
  have new: "(case RawDevice_new dev t of (temporary, t) \<Rightarrow> case RawDevice_move temporary of (element, temporary) \<Rightarrow>
      (ds @ [element], RawDevice_destroy temporary t)) = (ds @ [Some dev], t @ [Ref dev])" for ds t
    by (simp add: RawDevice_new_def RawDevice_move_def RawDevice_destroy_def unref_def)
  have erased: "(case find_idx (\<lambda>item. raw_checkIfSameDevice (env t) item dev) (map Some delayed) of
        None \<Rightarrow> (map Some delayed, t) | Some i \<Rightarrow> vector_erase RawDevice_move_assign RawDevice_destroy i (map Some delayed) t) =
     apfst (map Some) (case find_idx (\<lambda>item. checkIfSameDevice (env t) item dev) delayed of
        None \<Rightarrow> (delayed, t) | Some i \<Rightarrow> (erase_at i delayed, t @ [Unref (delayed ! i)]))" for t
    using find_idx_Some [of "\<lambda>item. checkIfSameDevice (env t) item dev" delayed]
    by (cases "find_idx (\<lambda>item. checkIfSameDevice (env t) item dev) delayed")
       (simp_all only: find_idx_map same option.case apfst_conv vector_erase_raw)
  show ?thesis
    by (cases "action (env (tr @ [Acquire dev])) dev")
       (simp_all only: raw_handle_events_def handle_usb_events_def Some option.case Let_def bind.simps option.map
          new erased, auto split: prod.splits)
qed (simp add: raw_handle_events_def handle_usb_events_def)

section \<open>The USB monitor\<close>

text \<open>
  The object: delayed devices, the context of libudev and the monitor's handle. \<open>cleanup\<close> releases the
  two handles, the destructor of the members the devices; all these calls accept null pointers. The
  trace is the list of what was released.
\<close>

datatype ('dev, 'h) usb_handle = Udev 'h | Monitor 'h | Device 'dev

record ('dev, 'h) UsbMassStorageMonitor =
  usb_delayedDevices :: "'dev RawDevice list"
  usb_udev :: "'h option"
  usb_mon :: "'h option"

definition usb_cleanup ::
  "('dev, 'h) UsbMassStorageMonitor \<Rightarrow> ('dev, 'h) usb_handle list \<Rightarrow> ('dev, 'h) usb_handle list" where
  "usb_cleanup m tr =
     tr @ (case usb_mon m of None \<Rightarrow> [] | Some h \<Rightarrow> [Monitor h]) @ (case usb_udev m of None \<Rightarrow> [] | Some h \<Rightarrow> [Udev h])"

definition usb_destructor ::
  "('dev, 'h) UsbMassStorageMonitor \<Rightarrow> ('dev, 'h) usb_handle list \<Rightarrow> ('dev, 'h) usb_handle list" where
  "usb_destructor m tr =
     usb_cleanup m tr @ concat (map (\<lambda>d. case d of None \<Rightarrow> [] | Some dev \<Rightarrow> [Device dev]) (usb_delayedDevices m))"

text \<open>The constructor: what libudev returned, and a message with what was released, or the object.\<close>

definition usb_constructor ::
  "'h option \<Rightarrow> 'h option \<Rightarrow> int \<Rightarrow> int \<Rightarrow>
     (string + ('dev, 'h) UsbMassStorageMonitor) \<times> ('dev, 'h) usb_handle list" where
  "usb_constructor udev mon filterResult enableResult =
     (let this = \<lparr>usb_delayedDevices = [], usb_udev = udev, usb_mon = mon\<rparr>
      in if udev = None then (Inl ''udev_new() failed'', [])
         else if mon = None then (Inl ''udev_monitor_new_from_netlink() failed'', usb_cleanup this [])
         else if filterResult < 0
           then (Inl ''udev_monitor_filter_add_match_subsystem_devtype() failed'', usb_cleanup this [])
         else if enableResult < 0 then (Inl ''udev_monitor_enable_receiving() failed'', usb_cleanup this [])
         else (Inr this, []))"

definition usb_move ::
  "('dev, 'h) UsbMassStorageMonitor \<Rightarrow> ('dev, 'h) UsbMassStorageMonitor \<times> ('dev, 'h) UsbMassStorageMonitor" where
  "usb_move other =
     (\<lparr>usb_delayedDevices = usb_delayedDevices other, usb_udev = usb_udev other, usb_mon = usb_mon other\<rparr>,
      \<lparr>usb_delayedDevices = [], usb_udev = None, usb_mon = None\<rparr>)"

definition usb_move_assign ::
  "('dev, 'h) UsbMassStorageMonitor \<Rightarrow> ('dev, 'h) UsbMassStorageMonitor \<Rightarrow>
     ('dev, 'h) UsbMassStorageMonitor \<times> ('dev, 'h) UsbMassStorageMonitor" where
  "usb_move_assign this other =
     (\<lparr>usb_delayedDevices = usb_delayedDevices other, usb_udev = usb_udev other, usb_mon = usb_mon other\<rparr>,
      \<lparr>usb_delayedDevices = usb_delayedDevices this, usb_udev = usb_udev this, usb_mon = usb_mon this\<rparr>)"

definition usb_handles :: "('dev, 'h) UsbMassStorageMonitor \<Rightarrow> ('dev, 'h) usb_handle multiset" where
  "usb_handles m =
     mset (map Monitor (case usb_mon m of None \<Rightarrow> [] | Some h \<Rightarrow> [h])) +
     mset (map Udev (case usb_udev m of None \<Rightarrow> [] | Some h \<Rightarrow> [h])) +
     mset (map Device (List.map_filter id (usb_delayedDevices m)))"

lemma mset_devices:
  "mset (concat (map (\<lambda>d. case d of None \<Rightarrow> [] | Some dev \<Rightarrow> [Device dev]) ds)) = mset (map Device (List.map_filter id ds))"
  by (induction ds) (auto simp: map_filter_simps split: option.splits)

interpretation usb_monitor: movable usb_handles usb_move usb_move_assign usb_destructor mset
proof unfold_locales
  fix obj :: "('a, 'b) UsbMassStorageMonitor" and tr
  show "mset (usb_destructor obj tr) = mset tr + usb_handles obj"
    unfolding usb_destructor_def usb_handles_def usb_cleanup_def mset_append mset_devices
    by (auto split: option.splits)
qed (auto simp: usb_move_def usb_move_assign_def usb_handles_def map_filter_simps)

text \<open>The constructor reports what the shorter definition of \<open>Usb_Monitor\<close> reports.\<close>

lemma usb_constructor_outcome:
  "UsbMassStorageMonitor_new (udev \<noteq> None) (mon \<noteq> None) f e =
     (case usb_constructor udev mon f e of (Inl msg, released) \<Rightarrow> Some (msg, released \<noteq> []) | (Inr m, released) \<Rightarrow> None)"
  by (auto simp: UsbMassStorageMonitor_new_def usb_constructor_def usb_cleanup_def Let_def)

text \<open>
  C18. The handles of libudev are neither leaked nor released twice. A constructor that throws has released
  what it got (a null context gives a null monitor); an object that was constructed and given any
  delayed devices is moved, assigned and destroyed in any order, and at every point what was released
  and what the living objects hold is together exactly what was taken.
\<close>

theorem usb_handles_released_once:
  fixes udev mon :: "'h option" and ds :: "'dev RawDevice list"
  assumes "udev = None \<longrightarrow> mon = None"
  shows "case usb_constructor udev mon f e of
      (Inl msg, released) \<Rightarrow> mset released = usb_handles \<lparr>usb_delayedDevices = [], usb_udev = udev, usb_mon = mon\<rparr>
    | (Inr m, released) \<Rightarrow>
        (\<forall>ps objs tr.
           lifetime_run usb_move usb_move_assign usb_destructor ps ([Some (m\<lparr>usb_delayedDevices := ds\<rparr>)], released) = Some (objs, tr) \<longrightarrow>
           mset tr + holdings usb_handles objs = usb_handles \<lparr>usb_delayedDevices = ds, usb_udev = udev, usb_mon = mon\<rparr>)"
proof (cases "usb_constructor udev mon f e :: (string + ('dev, 'h) UsbMassStorageMonitor) \<times> ('dev, 'h) usb_handle list")
  case (Pair res released)
  show ?thesis
  proof (cases res)
    case (Inl msg)
    with Pair assms show ?thesis
      by (cases udev; cases mon) (auto simp: usb_constructor_def usb_cleanup_def usb_handles_def Let_def map_filter_simps split: if_splits)
  next
    case (Inr m)
    with Pair have "m = \<lparr>usb_delayedDevices = [], usb_udev = udev, usb_mon = mon\<rparr>" "released = []"
      by (auto simp: usb_constructor_def Let_def split: if_splits)
    with Pair Inr show ?thesis by (auto dest: usb_monitor.run_keeps)
  qed
qed

theorem usb_handles_released_once_witness:
  "\<exists>objs. lifetime_run usb_move usb_move_assign usb_destructor [Move 0, Destroy 0, Destroy 1]
       ([Some \<lparr>usb_delayedDevices = [Some (7 :: nat)], usb_udev = Some (3 :: nat), usb_mon = Some 2\<rparr>], []) =
       Some (objs, [Monitor 2, Udev 3, Device 7]) \<and>
     mset [Monitor 2, Udev 3, Device 7] + holdings usb_handles objs =
       usb_handles \<lparr>usb_delayedDevices = [Some 7], usb_udev = Some 3, usb_mon = Some 2\<rparr>"
proof -
  have run: "lifetime_run usb_move usb_move_assign usb_destructor [Move 0, Destroy 0, Destroy 1]
       ([Some \<lparr>usb_delayedDevices = [Some (7 :: nat)], usb_udev = Some (3 :: nat), usb_mon = Some 2\<rparr>], []) =
       Some ([None, None], [Monitor 2, Udev 3, Device 7])"
    by (simp add: alive_def usb_move_def usb_destructor_def usb_cleanup_def Let_def)
  have new: "usb_constructor (Some (3 :: nat)) (Some 2) 0 0 =
      (Inr \<lparr>usb_delayedDevices = [], usb_udev = Some 3, usb_mon = Some 2\<rparr>, [] :: (nat, nat) usb_handle list)"
    by (simp add: usb_constructor_def)
  have "\<forall>ps objs tr.
      lifetime_run usb_move usb_move_assign usb_destructor ps
        ([Some \<lparr>usb_delayedDevices = [Some (7 :: nat)], usb_udev = Some (3 :: nat), usb_mon = Some 2\<rparr>], []) = Some (objs, tr) \<longrightarrow>
      mset tr + holdings usb_handles objs = usb_handles \<lparr>usb_delayedDevices = [Some 7], usb_udev = Some 3, usb_mon = Some 2\<rparr>"
    using usb_handles_released_once [where udev = "Some (3 :: nat)" and mon = "Some 2" and f = 0 and e = 0 and ds = "[Some (7 :: nat)]"]
    by (simp add: new del: lifetime_run.simps)
  with run show ?thesis by blast
qed

end
