(* ===== verification/Inotify_Programs.thy ===== *)
theory Inotify_Programs
  imports Inotify_Events
begin

text \<open>
  The C programs of inotify/: \<open>main.c\<close> and its variant \<open>observ.c\<close>, which print what happens in the
  directories they are given until Enter is pressed, and \<open>notify.c\<close>, which prints forever. Output is
  part of the trace of calls. A run has a bound on the turns of its loops; \<open>Running\<close> is a run that the
  bound cut off, \<open>Undefined\<close> one that left its buffer, \<open>Exited\<close> one that ended with an exit status. The
  contents of a buffer on the stack before it is written are a function of the trace.
\<close>

datatype 'a outcome = Running "int trace" | Undefined | Exited int "int trace" | Returned 'a "int trace"

fun then_run :: "'a outcome \<Rightarrow> ('a \<Rightarrow> int trace \<Rightarrow> 'b outcome) \<Rightarrow> 'b outcome" where
  "then_run (Running tr) f = Running tr"
| "then_run Undefined f = Undefined"
| "then_run (Exited code tr) f = Exited code tr"
| "then_run (Returned x tr) f = f x tr"

definition EAGAIN :: int where "EAGAIN = 11"
definition EINTR :: int where "EINTR = 4"

section \<open>Printing events\<close>

type_synonym flag_table = "(u32 \<times> string) list"

definition main_flags :: flag_table where
  "main_flags = [(IN_OPEN, ''IN_OPEN: ''), (IN_CLOSE_NOWRITE, ''IN_CLOSE_NOWRITE: ''), (IN_CLOSE_WRITE, ''IN_CLOSE_WRITE: '')]"

definition observ_flags :: flag_table where
  "observ_flags = [(IN_CLOSE_WRITE, ''IN_CLOSE_WRITE: '')]"

text \<open>What is printed for one event, given the watch descriptors and directories from index 1 on.\<close>

definition event_output :: "flag_table \<Rightarrow> (int \<times> string) list \<Rightarrow> int \<Rightarrow> u32 \<Rightarrow> string list \<Rightarrow> string list" where
  "event_output flags watches wd m name =
     map snd (filter (\<lambda>p. has_flag m (fst p)) flags) @
     (case find (\<lambda>p. fst p = wd) watches of None \<Rightarrow> [] | Some p \<Rightarrow> [snd p @ ''/'']) @
     name @
     [if has_flag m IN_ISDIR then '' [directory]\<newline>'' else '' [file]\<newline>'']"

function print_events :: "flag_table \<Rightarrow> (int \<times> string) list \<Rightarrow> byte list \<Rightarrow> nat \<Rightarrow> nat \<Rightarrow> int trace \<Rightarrow> int trace option" where
  "print_events flags watches buf ptr len tr =
     (if ptr < len then do {
        event \<leftarrow> inotify_header buf ptr;
        name \<leftarrow> (if ev_len event \<noteq> 0 then map_option (\<lambda>s. [s]) (inotify_cname buf ptr) else Some []);
        print_events flags watches buf (ptr + (SIZEOF_INOTIFY_EVENT + ev_len event)) len
          (tr @ map Print (event_output flags watches (ev_wd event) (ev_mask event) name))
      } else Some tr)"
  by pat_completeness auto
termination
  by (relation "measure (\<lambda>(flags, watches, buf, ptr, len, tr). len - ptr)") (auto simp: SIZEOF_INOTIFY_EVENT_def)

declare print_events.simps [simp del]

fun read_events ::
  "posix_os \<Rightarrow> flag_table \<Rightarrow> (int \<times> string) list \<Rightarrow> int \<Rightarrow> nat \<Rightarrow> byte list \<Rightarrow> int trace \<Rightarrow> unit outcome" where
  "read_events os flags watches fd 0 buf tr = Running tr"
| "read_events os flags watches fd (Suc n) buf tr =
     (let c = Read_call fd (length buf); (len, tr') = sys os c tr
      in if len = - 1 \<and> errno_in os tr c \<noteq> EAGAIN then Exited 1 (tr' @ [Perror ''read''])
         else if len \<le> 0 then Returned () tr'
         else let buf = fill_buffer (bytes_in os tr c) buf
              in case print_events flags watches buf 0 (nat len) tr' of
                   None \<Rightarrow> Undefined
                 | Some tr \<Rightarrow> read_events os flags watches fd n buf tr)"

definition EVENT_BUF :: nat where "EVENT_BUF = 4096"

definition handle_events ::
  "posix_os \<Rightarrow> flag_table \<Rightarrow> (int trace \<Rightarrow> byte list) \<Rightarrow> nat \<Rightarrow> int \<Rightarrow> (int \<times> string) list \<Rightarrow> int trace \<Rightarrow> unit outcome" where
  "handle_events os flags stack n fd watches tr = read_events os flags watches fd n (take EVENT_BUF (stack tr)) tr"

text \<open>The handler of \<open>observ.c\<close>, which its \<open>main\<close> does not call, differs in the event types it prints.\<close>

definition observ_handle_events ::
  "posix_os \<Rightarrow> (int trace \<Rightarrow> byte list) \<Rightarrow> nat \<Rightarrow> int \<Rightarrow> (int \<times> string) list \<Rightarrow> int trace \<Rightarrow> unit outcome" where
  "observ_handle_events os stack n fd watches tr =
     read_events os observ_flags watches fd n (take EVENT_BUF (stack tr)) tr"

section \<open>The two main programs\<close>

text \<open>The watch descriptors, or the exit status.\<close>

fun add_watches :: "posix_os \<Rightarrow> int \<Rightarrow> string list \<Rightarrow> int trace \<Rightarrow> (int \<times> string) list outcome" where
  "add_watches os fd [] tr = Returned [] tr"
| "add_watches os fd (path # paths) tr =
     (let (wd, tr) = sys os (Inotify_add fd path (IN_OPEN OR IN_CLOSE)) tr
      in if wd = - 1 then Exited 1 (tr @ [Perror (''Cannot watch '' @ [CHR 0x27] @ path @ [CHR 0x27] @ ''\<newline>''), Perror ''inotify_add_watch''])
         else then_run (add_watches os fd paths tr) (\<lambda>watches tr. Returned ((wd, path) # watches) tr))"

fun empty_stdin :: "posix_os \<Rightarrow> nat \<Rightarrow> int trace \<Rightarrow> unit outcome" where
  "empty_stdin os 0 tr = Running tr"
| "empty_stdin os (Suc n) tr =
     (let c = Read_call 0 1; (r, tr') = sys os c tr
      in if 0 < r \<and> bytes_in os tr c \<noteq> [10] then empty_stdin os n tr' else Returned () tr')"

fun poll_loop :: "posix_os \<Rightarrow> int \<Rightarrow> (nat \<Rightarrow> int trace \<Rightarrow> unit outcome) \<Rightarrow> nat \<Rightarrow> int trace \<Rightarrow> unit outcome" where
  "poll_loop os fd on_events 0 tr = Running tr"
| "poll_loop os fd on_events (Suc n) tr =
     (let c = Poll [0, fd]; (poll_num, tr') = sys os c tr
      in if poll_num = - 1 then
           if errno_in os tr c = EINTR then poll_loop os fd on_events n tr' else Exited 1 (tr' @ [Perror ''poll''])
         else if 0 < poll_num then
           if 0 \<in> ready_in os tr c then empty_stdin os n tr'
           else if fd \<in> ready_in os tr c then then_run (on_events n tr') (\<lambda>_ tr. poll_loop os fd on_events n tr)
           else poll_loop os fd on_events n tr'
         else poll_loop os fd on_events n tr')"

definition watch_main ::
  "posix_os \<Rightarrow> (int \<Rightarrow> (int \<times> string) list \<Rightarrow> nat \<Rightarrow> int trace \<Rightarrow> unit outcome) \<Rightarrow> bool \<Rightarrow> nat \<Rightarrow> string list \<Rightarrow> int trace \<Rightarrow> unit outcome" where
  "watch_main os on_events memory n argv tr =
     (if length argv < 2 then Exited 1 (tr @ [Print (''Usage: '' @ hd argv @ '' PATH [PATH ...]\<newline>'')])
      else let (fd, tr) = sys os (Inotify_init IN_NONBLOCK) (tr @ [Print ''Press ENTER key to terminate.\<newline>''])
           in if fd = - 1 then Exited 1 (tr @ [Perror ''inotify_init1''])
              else if \<not> memory then Exited 1 (tr @ [Perror ''calloc''])
              else then_run (add_watches os fd (tl argv) tr) (\<lambda>watches tr.
                     then_run (poll_loop os fd (on_events fd watches) n (tr @ [Print ''Listening for events.\<newline>''])) (\<lambda>_ tr.
                       Exited 0 (snd (sys os (Close fd) (tr @ [Print ''Listening for events stopped.\<newline>'']))))))"

definition inotify_main :: "posix_os \<Rightarrow> (int trace \<Rightarrow> byte list) \<Rightarrow> bool \<Rightarrow> nat \<Rightarrow> string list \<Rightarrow> int trace \<Rightarrow> unit outcome" where
  "inotify_main os stack = watch_main os (\<lambda>fd watches n. handle_events os main_flags stack n fd watches)"

text \<open>In \<open>observ.c\<close> the call of \<open>handle_events\<close> is commented out.\<close>

definition observ_main :: "posix_os \<Rightarrow> bool \<Rightarrow> nat \<Rightarrow> string list \<Rightarrow> int trace \<Rightarrow> unit outcome" where
  "observ_main os = watch_main os (\<lambda>fd watches n tr. Returned () tr)"

section \<open>notify.c\<close>

definition BUF_LEN :: nat where "BUF_LEN = 1024 * (SIZEOF_INOTIFY_EVENT + 16)"

fun show_nat :: "nat \<Rightarrow> string" where
  "show_nat n = (if n < 10 then [char_of (48 + n)] else show_nat (n div 10) @ [char_of (48 + n mod 10)])"

declare show_nat.simps [simp del]

definition show_int :: "int \<Rightarrow> string" where
  "show_int i = (if i < 0 then ''-'' @ show_nat (nat (- i)) else show_nat (nat i))"

definition notify_line :: "bool \<Rightarrow> string \<Rightarrow> string \<Rightarrow> string \<Rightarrow> int \<Rightarrow> string" where
  "notify_line isdir name dir_verb file_verb wd =
     (if isdir then ''The directory '' @ name @ '' was '' @ dir_verb @ ''.\<newline>''
      else ''The file '' @ name @ '' was '' @ file_verb @ '' with WD '' @ show_int wd @ ''\<newline>'')"

definition notify_output :: "int \<Rightarrow> u32 \<Rightarrow> string \<Rightarrow> string list" where
  "notify_output wd m name =
     (let isdir = has_flag m IN_ISDIR
      in (if has_flag m IN_CREATE then [notify_line isdir name ''Created'' ''Created'' wd] else []) @
         (if has_flag m IN_MODIFY then [notify_line isdir name ''modified'' ''modified'' wd] else []) @
         (if has_flag m IN_DELETE then [notify_line isdir name ''deleted'' ''deleted'' wd] else []))"

text \<open>The index only moves on after an event with a name.\<close>

fun notify_events :: "nat \<Rightarrow> byte list \<Rightarrow> nat \<Rightarrow> int \<Rightarrow> int trace \<Rightarrow> unit outcome" where
  "notify_events 0 buffer i len tr = Running tr"
| "notify_events (Suc n) buffer i len tr =
     (if int i < len then
        (case inotify_header buffer i of
           None \<Rightarrow> Undefined
         | Some event \<Rightarrow>
             if ev_len event \<noteq> 0 then
               (case inotify_cname buffer i of
                  None \<Rightarrow> Undefined
                | Some name \<Rightarrow>
                    notify_events n buffer (i + (SIZEOF_INOTIFY_EVENT + ev_len event)) len
                      (tr @ map Print (notify_output (ev_wd event) (ev_mask event) name)))
             else notify_events n buffer i len tr)
      else Returned () tr)"

text \<open>The outer loop has no end: a run of it is \<open>Running\<close> or \<open>Undefined\<close>.\<close>

fun notify_loop :: "posix_os \<Rightarrow> int \<Rightarrow> nat \<Rightarrow> byte list \<Rightarrow> int trace \<Rightarrow> unit outcome" where
  "notify_loop os fd 0 buffer tr = Running tr"
| "notify_loop os fd (Suc n) buffer tr =
     (let c = Read_call fd (length buffer); (len, tr') = sys os c tr;
          buffer = (if 0 < len then fill_buffer (bytes_in os tr c) buffer else buffer)
      in then_run (notify_events n buffer 0 len (if len < 0 then tr' @ [Perror ''read''] else tr'))
           (\<lambda>_ tr. notify_loop os fd n buffer tr))"

definition notify_main :: "posix_os \<Rightarrow> (int trace \<Rightarrow> byte list) \<Rightarrow> nat \<Rightarrow> string \<Rightarrow> int trace \<Rightarrow> unit outcome" where
  "notify_main os stack n path tr =
     (let buffer = take BUF_LEN (stack tr);
          (fd, tr) = sys os (Inotify_init 0) tr;
          tr = (if fd < 0 then tr @ [Perror (''Couldn'' @ [CHR 0x27] @ ''t initialize inotify'')] else tr);
          (wd, tr) = sys os (Inotify_add fd path (IN_CREATE OR IN_MODIFY OR IN_DELETE)) tr
      in notify_loop os fd n buffer
           (tr @ [Print (if wd = - 1 then ''Couldn'' @ [CHR 0x27] @ ''t add watch to '' @ path @ ''\<newline>'' else ''Watching:: '' @ path @ ''\<newline>'')]))"

section \<open>dnotify.c\<close>

text \<open>
  No result of the preparing calls is looked at. The signal's handler stores a descriptor in a global
  variable, which is zero at first; \<open>pause\<close> returns after the handlers of the signals that arrived, which
  \<open>signals\<close> gives for every point of the trace, and does not return when there are none.
\<close>

definition SIGRTMIN :: int where "SIGRTMIN = 34"
definition F_SETSIG :: int where "F_SETSIG = 10"
definition F_NOTIFY :: int where "F_NOTIFY = 1026"
definition DN_MODIFY :: int where "DN_MODIFY = 2"
definition DN_CREATE :: int where "DN_CREATE = 4"

definition dnotify_handler :: "int \<Rightarrow> int \<Rightarrow> int" where
  "dnotify_handler si_fd dir_fd = si_fd"

definition dnotify_line :: "int \<Rightarrow> int os_call" where
  "dnotify_line dir_fd = Print (''Got some event on fd='' @ show_int dir_fd @ ''\<newline>'')"

fun dnotify_loop :: "(int trace \<Rightarrow> int list) \<Rightarrow> nat \<Rightarrow> int \<Rightarrow> int trace \<Rightarrow> unit outcome" where
  "dnotify_loop signals 0 dir_fd tr = Running tr"
| "dnotify_loop signals (Suc n) dir_fd tr =
     (let tr = tr @ [Pause]
      in if signals tr = [] then Running tr
         else let dir_fd = fold dnotify_handler (signals tr) dir_fd
              in dnotify_loop signals n dir_fd (tr @ [dnotify_line dir_fd]))"

definition dnotify_main :: "posix_os \<Rightarrow> (int trace \<Rightarrow> int list) \<Rightarrow> nat \<Rightarrow> int trace \<Rightarrow> unit outcome" where
  "dnotify_main os signals n tr =
     (let (_, tr) = sys os (Sigaction (SIGRTMIN + 1)) tr;
          (fd, tr) = sys os (Open_dir ''.'') tr;
          (_, tr) = sys os (Fcntl fd F_SETSIG (SIGRTMIN + 1)) tr;
          (_, tr) = sys os (Fcntl fd F_NOTIFY (DN_MODIFY OR DN_CREATE)) tr
      in dnotify_loop signals n 0 tr)"

lemma fold_handler: "fds \<noteq> [] \<Longrightarrow> fold dnotify_handler fds fd = last fds"
  by (induction fds arbitrary: fd) (auto simp: dnotify_handler_def)

text \<open>One line for every wake-up, naming the last of the signals that caused it; the others are lost.\<close>

lemma dnotify_loop_names_last:
  assumes "\<And>tr. signals tr \<noteq> []"
  shows "dnotify_loop signals n fd tr =
    Running (((\<lambda>tr. tr @ [Pause, dnotify_line (last (signals (tr @ [Pause])))]) ^^ n) tr)"
proof (induction n arbitrary: fd tr)
  case (Suc n)
  show ?case using assms [of "tr @ [Pause]"] Suc.IH by (simp add: fold_handler funpow_Suc_right del: funpow.simps(2))
qed simp

end
