(* ===== verification/Notify_File.thy ===== *)
theory Notify_File
  imports Inotify_Programs System_Observer
begin

text \<open>
  The program notify_file: copies of the agent's observer and folder monitor that print what they do,
  and a \<open>main\<close> that observes one path. Its output is its whole purpose, so the printed lines are part
  of the trace here. What the copies share with the agent's classes (watched files, moves, the epoll
  operations) is used from there; what prints is written out, and shown to be the agent's with the
  output erased.
\<close>

section \<open>The monitor\<close>

definition text_of :: "byte list \<Rightarrow> string" where
  "text_of bs = map (\<lambda>b. char_of (unat b)) bs"

definition nf_FolderMonitor_new ::
  "(int, 'z) os_scheme \<Rightarrow> string \<Rightarrow> int trace \<Rightarrow> (string + FolderMonitor) \<times> int trace" where
  "nf_FolderMonitor_new os path tr =
     (let (fd, tr) = sys os (Inotify_init IN_NONBLOCK) tr
      in if fd < 0 then (Inl ''inotify_init1() failed'', tr)
         else let (wd, tr) = sys os (Inotify_add fd path (IN_CREATE OR IN_CLOSE OR IN_OPEN OR IN_DELETE)) tr
              in if wd < 0 then (Inl ''inotify_add_watch() failed'', snd (sys os (Close fd) tr))
                 else (Inr \<lparr>descriptor = fd, fileReadyTimeout = FILE_READY_TIMEOUT,
                        eventBuffer = replicate EVENT_BUFF_SIZE 0, watchedFiles = []\<rparr>,
                      tr @ [Print (''Started observation of folder: '' @ path @ '', handle:'' @ show_int fd @ ''\<newline>'')]))"

definition nf_FolderMonitor_destroy :: "(int, 'z) os_scheme \<Rightarrow> FolderMonitor \<Rightarrow> int trace \<Rightarrow> int trace" where
  "nf_FolderMonitor_destroy os m tr =
     (if 0 \<le> descriptor m
      then snd (sys os (Close (descriptor m)) tr) @
             [Print (''Finished observation of folder with handle: '' @ show_int (descriptor m) @ ''\<newline>'')]
      else tr)"

text \<open>The files after an event, and what is printed; a deleted file's line does not name it.\<close>

definition nf_apply_event :: "int \<Rightarrow> u32 \<Rightarrow> byte list \<Rightarrow> WatchedFile list \<Rightarrow> WatchedFile list \<times> string list" where
  "nf_apply_event now m path files =
     (if has_flag m IN_CREATE
      then (files @ [WatchedFile_new now path], [''New file to observe at:'' @ text_of path @ ''\<newline>''])
      else let known = find_idx (\<lambda>f. wf_path f = path) files
           in if has_flag m IN_DELETE
              then (case known of
                      None \<Rightarrow> (files, [])
                    | Some it \<Rightarrow> (erase_at it files, [''Finished observation of file:\<newline>'']))
              else (case known of
                      None \<Rightarrow> (files, [])
                    | Some it \<Rightarrow> (files[it := handleStateChange now m (files ! it)],
                                  [''Change to observated file:'' @ text_of path @ ''\<newline>''])))"

function nf_parseEvents ::
  "(nat \<Rightarrow> int) \<Rightarrow> byte list \<Rightarrow> nat \<Rightarrow> nat \<Rightarrow> WatchedFile list \<Rightarrow> int trace \<Rightarrow> (WatchedFile list \<times> int trace) option" where
  "nf_parseEvents clock buf index len files tr =
     (if index < len then do {
        event \<leftarrow> inotify_header buf index;
        let index' = index + (SIZEOF_INOTIFY_EVENT + ev_len event);
        if has_flag (ev_mask event) IN_IGNORED then nf_parseEvents clock buf index' len files tr
        else do {
          path \<leftarrow> inotify_name buf index (ev_len event);
          let (files, printed) = nf_apply_event (clock index) (ev_mask event) path files;
          nf_parseEvents clock buf index' len files (tr @ map Print printed)
        }
      } else Some (files, tr))"
  by pat_completeness auto
termination
  by (relation "measure (\<lambda>(clock, buf, index, len, files, tr). len - index)") (auto simp: SIZEOF_INOTIFY_EVENT_def)

declare nf_parseEvents.simps [simp del]

definition nf_handleIncommingEvents ::
  "(int, 'z) os_scheme \<Rightarrow> (nat \<Rightarrow> int) \<Rightarrow> FolderMonitor \<Rightarrow> int trace \<Rightarrow> (FolderMonitor \<times> int trace) option" where
  "nf_handleIncommingEvents os clock m tr =
     (let c = Read_call (descriptor m) (length (eventBuffer m)); (len, tr') = sys os c tr
      in if 0 < len then do {
           let buf = fill_buffer (bytes_in os tr c) (eventBuffer m);
           (files, tr'') \<leftarrow> nf_parseEvents clock buf 0 (nat len) (watchedFiles m) tr';
           Some (m\<lparr>eventBuffer := buf, watchedFiles := files\<rparr>, tr'')
         } else Some (m, tr'))"

text \<open>The consumer that \<open>main\<close> passes prints the path of a file that is ready.\<close>

definition report_line :: "byte list \<Rightarrow> int os_call" where
  "report_line path = Print (''New file at '' @ text_of path @ ''\<newline>'')"

fun nf_process_files :: "(nat \<Rightarrow> int) \<Rightarrow> int \<Rightarrow> nat \<Rightarrow> WatchedFile list \<Rightarrow> int trace \<Rightarrow> WatchedFile list \<times> int trace" where
  "nf_process_files clock timeout k [] tr = ([], tr)"
| "nf_process_files clock timeout k (f # files) tr =
     (if \<not> consumed f \<and> \<not> inUse f \<and> notTouchedIn (clock k) timeout f
      then case nf_process_files clock timeout (Suc k) files (tr @ [report_line (wf_path f)]) of
             (files, tr) \<Rightarrow> (f\<lparr>consumed := True\<rparr> # files, tr)
      else case nf_process_files clock timeout (Suc k) files tr of (files, tr) \<Rightarrow> (f # files, tr))"

definition nf_process :: "(nat \<Rightarrow> int) \<Rightarrow> FolderMonitor \<Rightarrow> int trace \<Rightarrow> FolderMonitor \<times> int trace" where
  "nf_process clock m tr =
     (case nf_process_files clock (fileReadyTimeout m) 0 (watchedFiles m) tr of
        (files, tr) \<Rightarrow> (m\<lparr>watchedFiles := files\<rparr>, tr))"

section \<open>The observer\<close>

text \<open>One wait: the events, or none and the line the error handler prints.\<close>

definition nf_waitEPoll :: "(int, 'z) os_scheme \<Rightarrow> int \<Rightarrow> int trace \<Rightarrow> (u32 \<times> int) list \<times> int trace" where
  "nf_waitEPoll os pollingfd tr =
     (if 0 \<le> pollingfd then
        let c = Epoll_wait pollingfd SYSTEM_OBSERVER_EPOOL_EVENTS SYSTEM_OBSERVER_EPOOL_WAIT; (ready, tr') = sys os c tr
        in if ready < 0 then ([], tr' @ [Print (''Error on epoll, error code:'' @ show_int ready @ ''\<newline>'')])
           else (take (nat ready) (events_in os tr c), tr')
      else ([], tr))"

fun nf_handle_event ::
  "(int, 'z) os_scheme \<Rightarrow> (int trace \<Rightarrow> nat \<Rightarrow> int) \<Rightarrow> int \<Rightarrow> FolderMonitor list \<Rightarrow> int trace \<Rightarrow> (FolderMonitor list \<times> int trace) option" where
  "nf_handle_event os clock fd [] tr = Some ([], tr)"
| "nf_handle_event os clock fd (m # observers) tr = do {
     (m, tr) \<leftarrow> (if fd = descriptor m then nf_handleIncommingEvents os (clock tr) m tr else Some (m, tr));
     (observers, tr) \<leftarrow> nf_handle_event os clock fd observers tr;
     Some (m # observers, tr)
   }"

fun nf_handle_events ::
  "(int, 'z) os_scheme \<Rightarrow> (int trace \<Rightarrow> nat \<Rightarrow> int) \<Rightarrow> (u32 \<times> int) list \<Rightarrow> FolderMonitor list \<Rightarrow> int trace \<Rightarrow>
     (FolderMonitor list \<times> int trace) option" where
  "nf_handle_events os clock [] observers tr = Some (observers, tr)"
| "nf_handle_events os clock (e # es) observers tr = do {
     (observers, tr) \<leftarrow> nf_handle_event os clock (snd e) observers tr;
     nf_handle_events os clock es observers tr
   }"

fun nf_process_all :: "(nat \<Rightarrow> int) \<Rightarrow> FolderMonitor list \<Rightarrow> int trace \<Rightarrow> FolderMonitor list \<times> int trace" where
  "nf_process_all clock [] tr = ([], tr)"
| "nf_process_all clock (m # observers) tr =
     (case nf_process clock m tr of (m, tr) \<Rightarrow>
        case nf_process_all clock observers tr of (observers, tr) \<Rightarrow> (m # observers, tr))"

text \<open>The condition of \<open>main\<close>'s loop prints a line and is always true; a run has \<open>n\<close> turns.\<close>

definition turn_line :: "int os_call" where "turn_line = Print ''New file at: \<newline>''"

fun nf_loop ::
  "(int, 'z) os_scheme \<Rightarrow> (int trace \<Rightarrow> nat \<Rightarrow> int) \<Rightarrow> int \<Rightarrow> nat \<Rightarrow> FolderMonitor list \<Rightarrow> int trace \<Rightarrow>
     (FolderMonitor list \<times> int trace) option" where
  "nf_loop os clock pollingfd 0 observers tr = Some (observers, tr)"
| "nf_loop os clock pollingfd (Suc n) observers tr = do {
     let (es, tr) = nf_waitEPoll os pollingfd (tr @ [turn_line]);
     (observers, tr) \<leftarrow> nf_handle_events os clock es observers tr;
     let (observers, tr) = nf_process_all (clock tr) observers tr;
     nf_loop os clock pollingfd n observers tr
   }"

definition nf_monitor ::
  "(int, 'z) os_scheme \<Rightarrow> (int trace \<Rightarrow> nat \<Rightarrow> int) \<Rightarrow> nat \<Rightarrow> int \<Rightarrow> FolderMonitor list \<Rightarrow> int trace \<Rightarrow>
     (FolderMonitor list \<times> int trace) option" where
  "nf_monitor os clock n pollingfd observers tr =
     (let (pollingfd, tr) = cleanupEPoll os pollingfd tr;
          (_, pollingfd, tr) = prepareEPoll os pollingfd tr;
          tr = fold (\<lambda>m tr. snd (addToEPoll os (descriptor m) (descriptor m) (EPOLLIN OR EPOLLET) pollingfd tr)) observers tr
      in nf_loop os clock pollingfd n observers tr)"

text \<open>
  \<open>main\<close>: the monitor is a temporary that is moved into its holder and destroyed. An exception of its
  constructor ends the program.
\<close>

definition observed_path :: string where
  "observed_path = ''/home/michalmendrek/log/notify_file/tmp/file.log''"

definition nf_main ::
  "(int, 'z) os_scheme \<Rightarrow> (int trace \<Rightarrow> nat \<Rightarrow> int) \<Rightarrow> nat \<Rightarrow> int trace \<Rightarrow> ((string + FolderMonitor list) \<times> int trace) option" where
  "nf_main os clock n tr =
     (case nf_FolderMonitor_new os observed_path tr of
        (Inl e, tr) \<Rightarrow> Some (Inl e, tr)
      | (Inr m, tr) \<Rightarrow>
          (case FolderMonitor_move m of
             (moved, rest) \<Rightarrow> do {
               (observers, tr) \<leftarrow> nf_monitor os clock n EPollWorker_new [moved] (nf_FolderMonitor_destroy os rest tr);
               Some (Inr observers, tr)
             }))"

section \<open>The agent's monitor with output\<close>

text \<open>A kernel whose answers do not depend on what was printed.\<close>

fun is_print :: "'d os_call \<Rightarrow> bool" where
  "is_print (Print s) = True"
| "is_print c = False"

definition erase_output :: "'d trace \<Rightarrow> 'd trace" where
  "erase_output tr = filter (\<lambda>c. \<not> is_print c) tr"

definition blind :: "('d, 'z) os_scheme \<Rightarrow> ('d, 'z) os_scheme" where
  "blind os = os\<lparr>ret := \<lambda>tr. ret os (erase_output tr), bytes_in := \<lambda>tr. bytes_in os (erase_output tr),
     events_in := \<lambda>tr. events_in os (erase_output tr), ready_in := \<lambda>tr. ready_in os (erase_output tr)\<rparr>"

text \<open>The lines that report a file, among all lines.\<close>

fun is_report :: "'d os_call \<Rightarrow> bool" where
  "is_report (Print s) \<longleftrightarrow> take 12 s = ''New file at ''"
| "is_report c \<longleftrightarrow> False"

definition reported :: "'d trace \<Rightarrow> 'd trace" where
  "reported tr = filter is_report tr"

lemma erase_simps [simp]:
  "erase_output [] = []" "erase_output (tr @ tr') = erase_output tr @ erase_output tr'"
  "erase_output (c # tr) = (if is_print c then erase_output tr else c # erase_output tr)"
  "reported [] = []" "reported (tr @ tr') = reported tr @ reported tr'"
  "reported (c # tr) = (if is_report c then c # reported tr else reported tr)"
  by (simp_all add: erase_output_def reported_def)

lemma blind_simps [simp]:
  "ret (blind os) tr c = ret os (erase_output tr) c" "bytes_in (blind os) tr c = bytes_in os (erase_output tr) c"
  "events_in (blind os) tr c = events_in os (erase_output tr) c"
  by (simp_all add: blind_def)

lemma line_simps [simp]:
  "is_print (report_line path)" "is_report (report_line path)" "is_print turn_line" "\<not> is_report turn_line"
  by (simp_all add: report_line_def turn_line_def)

lemma erase_map_Print [simp]: "erase_output (map Print ss) = []"
  by (induction ss) simp_all

lemma update_first_find_idx:
  "update_first P f xs = (case find_idx P xs of None \<Rightarrow> xs | Some i \<Rightarrow> xs[i := f (xs ! i)])"
  by (induction xs) (auto simp del: find_idx_None split: option.splits)

lemma nf_apply_event_files: "fst (nf_apply_event now m path files) = apply_event now m path files"
  unfolding nf_apply_event_def apply_event_def update_first_find_idx erase_at_find_idx [symmetric]
  by (cases "find_idx (\<lambda>f. wf_path f = path) files") (simp_all add: Let_def del: find_idx_None)

lemma nf_apply_event_lines: "reported (map Print (snd (nf_apply_event now m path files))) = []"
  by (simp add: nf_apply_event_def Let_def split: option.split)

lemma nf_parseEvents_files: "map_option fst (nf_parseEvents clock buf index len files tr) = parseEvents clock buf index len files"
proof (induction clock buf index len files tr rule: nf_parseEvents.induct)
  case (1 clock buf index len files tr)
  show ?case
    by (subst nf_parseEvents.simps, subst parseEvents.simps)
       (simp add: 1 nf_apply_event_files [symmetric] map_option_bind split_beta Let_def o_def split: bind_splits)
qed

lemma nf_parseEvents_lines:
  "nf_parseEvents clock buf index len files tr = Some (files', tr') \<Longrightarrow>
   erase_output tr' = erase_output tr \<and> reported tr' = reported tr"
proof (induction clock buf index len files tr rule: nf_parseEvents.induct)
  case (1 clock buf index len files tr)
  show ?case
  proof (cases "index < len")
    case False
    with "1.prems" show ?thesis by (simp add: nf_parseEvents.simps)
  next
    case True
    with "1.prems" obtain event where e: "inotify_header buf index = Some event"
      by (subst (asm) nf_parseEvents.simps) (auto simp: bind_eq_Some_conv)
    show ?thesis
    proof (cases "has_flag (ev_mask event) IN_IGNORED")
      case ign: True
      from "1.prems" True e ign show ?thesis
        by (intro "1.IH"(1) [OF True e refl ign]) (subst (asm) nf_parseEvents.simps, simp)
    next
      case False
      with "1.prems" True e obtain path where n: "inotify_name buf index (ev_len event) = Some path"
        by (subst (asm) nf_parseEvents.simps) (auto simp: bind_eq_Some_conv Let_def)
      obtain files1 printed where p: "nf_apply_event (clock index) (ev_mask event) path files = (files1, printed)" by fastforce
      have "erase_output tr' = erase_output (tr @ map Print printed) \<and> reported tr' = reported (tr @ map Print printed)"
        using "1.prems" True e False n p
        by (intro "1.IH"(2) [OF True e refl False n p [symmetric] refl]) (subst (asm) nf_parseEvents.simps, simp)
      with nf_apply_event_lines [of "clock index" "ev_mask event" path files] p show ?thesis by simp
    qed
  qed
qed

text \<open>
  A run with output against one without: the same result, up to \<open>conv\<close>, at the trace without the
  lines, and no file reported.
\<close>

definition erases :: "('x \<Rightarrow> int trace \<Rightarrow> 'y) \<Rightarrow> int trace \<Rightarrow> ('x \<times> int trace) option \<Rightarrow> 'y option \<Rightarrow> bool" where
  "erases conv tr nf ag \<longleftrightarrow>
     ag = map_option (\<lambda>(x, tr'). conv x (erase_output tr')) nf \<and> (\<forall>x tr'. nf = Some (x, tr') \<longrightarrow> reported tr' = reported tr)"

lemma erases_Some: "reported tr' = reported tr \<Longrightarrow> y = conv x (erase_output tr') \<Longrightarrow> erases conv tr (Some (x, tr')) (Some y)"
  by (simp add: erases_def)

lemma erases_bind:
  assumes "erases conv tr nf ag"
    and "\<And>x tr'. nf = Some (x, tr') \<Longrightarrow> erases conv' tr' (f (x, tr')) (g (conv x (erase_output tr')))"
  shows "erases conv' tr (nf \<bind> f) (ag \<bind> g)"
proof (cases nf)
  case None
  with assms(1) show ?thesis by (simp add: erases_def)
next
  case (Some p)
  with assms(1) assms(2) [of "fst p" "snd p"] show ?thesis by (cases p) (auto simp: erases_def)
qed

lemma handleIncommingEvents_erases:
  "erases Pair tr (nf_handleIncommingEvents (blind os) clock m tr) (handleIncommingEvents os clock m (erase_output tr))"
proof -
  let ?c = "Read_call (descriptor m) (length (eventBuffer m))" and ?tr = "erase_output tr"
  let ?buf = "fill_buffer (bytes_in os ?tr ?c) (eventBuffer m)" and ?n = "nat (ret os ?tr ?c)"
  let ?nf = "nf_parseEvents clock ?buf 0 ?n (watchedFiles m) (tr @ [?c])"
  have pe: "parseEvents clock ?buf 0 ?n (watchedFiles m) = map_option fst ?nf"
    by (rule nf_parseEvents_files [symmetric])
  show ?thesis
  proof (cases "0 < ret os ?tr ?c")
    case False
    then show ?thesis by (simp add: nf_handleIncommingEvents_def handleIncommingEvents_def sys_def erases_def)
  next
    case True
    show ?thesis
    proof (cases ?nf)
      case None
      with True pe show ?thesis by (simp add: nf_handleIncommingEvents_def handleIncommingEvents_def sys_def erases_def)
    next
      case (Some p)
      obtain files tr' where p: "p = (files, tr')" by (cases p)
      from nf_parseEvents_lines [OF Some [unfolded p]] have "erase_output tr' = ?tr @ [?c]" "reported tr' = reported tr" by simp_all
      with True pe Some p show ?thesis
        by (simp add: nf_handleIncommingEvents_def handleIncommingEvents_def sys_def erases_def Let_def)
    qed
  qed
qed

lemma handle_event_erases:
  "erases (\<lambda>ms tr. (map Folder ms, refs, tr)) tr
     (nf_handle_event (blind os) (\<lambda>tr. clock (erase_output tr)) fd ms tr)
     (handle_event os env clock fd (map Folder ms) refs (erase_output tr))"
proof (induction ms arbitrary: tr)
  case Nil
  show ?case by (simp add: erases_def)
next
  case (Cons m ms)
  have "erases (\<lambda>m tr. (Folder m, refs, tr)) tr
      (if fd = descriptor m then nf_handleIncommingEvents (blind os) (clock (erase_output tr)) m tr else Some (m, tr))
      (if fd = descriptor m then observable_handle os env clock (Folder m) refs (erase_output tr) else Some (Folder m, refs, erase_output tr))"
    using handleIncommingEvents_erases [of tr os "clock (erase_output tr)" m]
    by (cases "nf_handleIncommingEvents (blind os) (clock (erase_output tr)) m tr") (auto simp: erases_def)
  then show ?case unfolding nf_handle_event.simps handle_event.simps list.map getFileDescriptor.simps
    by (rule erases_bind) (auto intro!: erases_bind [OF Cons.IH] erases_Some)
qed

lemma handle_events_erases:
  "erases (\<lambda>ms tr. (map Folder ms, refs, tr)) tr
     (nf_handle_events (blind os) (\<lambda>tr. clock (erase_output tr)) es ms tr)
     (System_Observer.handle_events os env clock es (map Folder ms) refs (erase_output tr))"
proof (induction es arbitrary: ms tr)
  case Nil
  show ?case by (simp add: erases_def)
next
  case (Cons e es)
  show ?case unfolding nf_handle_events.simps System_Observer.handle_events.simps
    by (rule erases_bind [OF handle_event_erases]) (simp add: Cons.IH)
qed

lemma process_files_lines:
  "process_files clock timeout k files = (paths, files') \<Longrightarrow>
   nf_process_files clock timeout k files tr = (files', tr @ map report_line paths)"
  by (induction files arbitrary: k paths files' tr) (auto split: prod.splits if_splits)

lemma process_all_lines:
  "\<exists>paths ms'. nf_process_all clk ms tr = (ms', tr @ map report_line paths) \<and>
     process_all env clk (map Folder ms) refs = Some (map File_ready paths, map Folder ms', refs)"
proof (induction ms arbitrary: tr)
  case (Cons m ms)
  obtain ps files where p: "process_files clk (fileReadyTimeout m) 0 (watchedFiles m) = (ps, files)" by fastforce
  from Cons.IH [of "tr @ map report_line ps"] process_files_lines [OF p, of tr] p show ?case
    by (auto simp: nf_process_def FolderMonitor_process_def intro: exI [of _ "ps @ _"])
qed (auto intro: exI [of _ "[]"])

lemma report_lines [simp]: "erase_output (map report_line paths) = []" "reported (map report_line paths) = map report_line paths"
  by (induction paths) simp_all

lemma is_report_error [simp]: "\<not> is_report (Print (''Error on epoll, error code:'' @ s))"
  by simp

lemma wait_erases:
  "nf_waitEPoll (blind os) fd tr = (es, tr') \<Longrightarrow>
   waitEPoll_events os fd (erase_output tr) = (es, erase_output tr') \<and> reported tr' = reported tr"
proof -
  have app: "fold (\<lambda>e (es, tr). (es @ [e], tr)) evs (acc, t) = (acc @ evs, t)" for evs acc and t :: "int trace"
    by (induction evs arbitrary: acc) simp_all
  show "nf_waitEPoll (blind os) fd tr = (es, tr') \<Longrightarrow> ?thesis"
    by (auto simp: nf_waitEPoll_def waitEPoll_events_def waitEPoll_def sys_def Let_def app split: if_splits)
qed

text \<open>
  C28. The printing observer is the agent's with its output erased: on a kernel that does not see the output
  it goes through the same states and makes the same system calls, it is undefined exactly when the
  agent's is, and the lines it prints about files that are ready are the agent's reports in their order.
\<close>

theorem notify_file_refines_observer:
  "case nf_loop (blind os) (\<lambda>tr. clock (erase_output tr)) fd n ms tr of
     None \<Rightarrow> monitor_loop os env clock fd n (map Folder ms) refs (erase_output tr) = None
   | Some (ms', tr') \<Rightarrow>
       \<exists>paths. monitor_loop os env clock fd n (map Folder ms) refs (erase_output tr) =
           Some (map File_ready paths, map Folder ms', refs, erase_output tr') \<and>
         reported tr' = reported tr @ map report_line paths"
proof (induction n arbitrary: ms tr)
  case 0
  show ?case by (auto intro: exI [of _ "[]"])
next
  case (Suc n)
  let ?clock = "\<lambda>tr. clock (erase_output tr)"
  obtain es tr1 where w: "nf_waitEPoll (blind os) fd (tr @ [turn_line]) = (es, tr1)" by fastforce
  note w' = wait_erases [OF w, simplified]
  note h = handle_events_erases [of refs tr1 os clock es ms env, unfolded erases_def]
  show ?case
  proof (cases "nf_handle_events (blind os) ?clock es ms tr1")
    case None
    with w w' h show ?thesis by (simp add: Let_def)
  next
    case (Some p)
    obtain ms2 tr2 where p: "p = (ms2, tr2)" by (cases p)
    obtain paths ms3 where pr: "nf_process_all (?clock tr2) ms2 tr2 = (ms3, tr2 @ map report_line paths)"
      "process_all env (?clock tr2) (map Folder ms2) refs = Some (map File_ready paths, map Folder ms3, refs)"
      using process_all_lines by blast
    have h2: "System_Observer.handle_events os env clock es (map Folder ms) refs (erase_output tr1) = Some (map Folder ms2, refs, erase_output tr2)"
      "reported tr2 = reported tr" using h Some p w' by auto
    from Suc.IH [of ms3 "tr2 @ map report_line paths"] show ?thesis
      using w w' Some p pr h2 by (auto simp: Let_def split: option.splits intro: exI [of _ "paths @ _"])
  qed
qed

section \<open>All that the program prints\<close>

text \<open>One turn prints the condition's line, and the error handler's when the wait failed.\<close>

definition turn_output :: "int \<Rightarrow> int os_call list" where
  "turn_output ready =
     turn_line # (if ready < 0 then [Print (''Error on epoll, error code:'' @ show_int ready @ ''\<newline>'')] else [])"

definition lines :: "'d trace \<Rightarrow> 'd trace" where
  "lines tr = filter is_print tr"

lemma lines_simps [simp]:
  "lines [] = []" "lines (tr @ tr') = lines tr @ lines tr'" "lines (c # tr) = (if is_print c then c # lines tr else lines tr)"
  by (simp_all add: lines_def)

definition unreadable :: "FolderMonitor \<Rightarrow> bool" where
  "unreadable m \<longleftrightarrow> eventBuffer m = [] \<and> watchedFiles m = []"

lemma unreadable_handle_event:
  "bounded_reads os \<Longrightarrow> list_all unreadable ms \<Longrightarrow> \<exists>tr'. nf_handle_event os clock fd ms tr = Some (ms, tr') \<and> lines tr' = lines tr"
proof (induction ms arbitrary: tr)
  case (Cons m ms)
  have "ret os tr (Read_call (descriptor m) 0) \<le> int 0"
    using Cons.prems(1) unfolding bounded_reads_def by blast
  then have "nf_handleIncommingEvents os (clock tr) m tr = Some (m, tr @ [Read_call (descriptor m) 0])"
    using Cons.prems(2) by (simp add: nf_handleIncommingEvents_def sys_def unreadable_def Let_def)
  then show ?case
    using Cons.IH [of tr] Cons.IH [of "tr @ [Read_call (descriptor m) 0]"] Cons.prems by auto
qed simp

lemma unreadable_handle_events:
  "bounded_reads os \<Longrightarrow> list_all unreadable ms \<Longrightarrow> \<exists>tr'. nf_handle_events os clock es ms tr = Some (ms, tr') \<and> lines tr' = lines tr"
proof (induction es arbitrary: tr)
  case (Cons e es)
  from unreadable_handle_event [OF Cons.prems] obtain tr1 where
    "nf_handle_event os clock (snd e) ms tr = Some (ms, tr1)" "lines tr1 = lines tr" by blast
  with Cons.IH [OF Cons.prems, of tr1] show ?case by auto
qed simp

lemma unreadable_process: "list_all unreadable ms \<Longrightarrow> nf_process_all clk ms tr = (ms, tr)"
  by (induction ms) (auto simp: nf_process_def unreadable_def)

lemma nf_waitEPoll_output: "\<exists>es tr' ready. nf_waitEPoll os fd (tr @ [turn_line]) = (es, tr') \<and> lines tr' = lines tr @ turn_output ready"
proof (cases "0 \<le> fd")
  case True
  then show ?thesis
    by (intro exI [of _ "fst (nf_waitEPoll os fd (tr @ [turn_line]))"] exI [of _ "snd (nf_waitEPoll os fd (tr @ [turn_line]))"]
          exI [of _ "ret os (tr @ [turn_line]) (Epoll_wait fd SYSTEM_OBSERVER_EPOOL_EVENTS SYSTEM_OBSERVER_EPOOL_WAIT)"])
       (simp add: nf_waitEPoll_def sys_def turn_output_def Let_def)
next
  case False
  then show ?thesis by (intro exI [of _ "[]"] exI [of _ "tr @ [turn_line]"] exI [of _ 0]) (simp add: nf_waitEPoll_def turn_output_def)
qed

lemma unreadable_loop:
  "bounded_reads os \<Longrightarrow> list_all unreadable ms \<Longrightarrow>
   \<exists>tr' rs. nf_loop os clock fd n ms tr = Some (ms, tr') \<and> length rs = n \<and> lines tr' = lines tr @ concat (map turn_output rs)"
proof (induction n arbitrary: tr)
  case (Suc n)
  obtain es tr1 r where 1: "nf_waitEPoll os fd (tr @ [turn_line]) = (es, tr1)" "lines tr1 = lines tr @ turn_output r"
    using nf_waitEPoll_output by blast
  obtain tr2 where 2: "nf_handle_events os clock es ms tr1 = Some (ms, tr2)" "lines tr2 = lines tr1"
    using unreadable_handle_events [OF Suc.prems] by blast
  from Suc.IH [OF Suc.prems, of tr2] obtain tr' rs where
    3: "nf_loop os clock fd n ms tr2 = Some (ms, tr')" "length rs = n" "lines tr' = lines tr2 @ concat (map turn_output rs)" by blast
  with 1 2 show ?case
    by (intro exI [of _ tr'] exI [of _ "r # rs"]) (simp add: unreadable_process [OF Suc.prems(2)])
qed (auto intro: exI [of _ "[]"])

lemma lines_add [simp]: "lines (snd (addToEPoll os fd data evs pollingfd tr)) = lines tr"
  by (simp add: addToEPoll_def sys_def)

lemma lines_prepare [simp]:
  "lines (snd (cleanupEPoll os fd tr)) = lines tr" "lines (snd (snd (prepareEPoll os fd tr))) = lines tr"
  by (simp_all add: cleanupEPoll_def prepareEPoll_def sys_def)

text \<open>
  C27. Whatever happens to the observed path, the program never reports a file: all that it ever prints is
  the line of the constructor and then one line per turn, with an error line where the wait failed. It
  prints nothing when the path cannot be observed.
\<close>

theorem notify_file_prints_no_file:
  assumes "bounded_reads os"
  shows "case nf_main os clock n [] of
      None \<Rightarrow> False
    | Some (Inl e, tr) \<Rightarrow> lines tr = []
    | Some (Inr ms, tr) \<Rightarrow>
        \<exists>fd rs. length rs = n \<and> lines tr =
          Print (''Started observation of folder: '' @ observed_path @ '', handle:'' @ show_int fd @ ''\<newline>'') # concat (map turn_output rs)"
proof (cases "fst (nf_FolderMonitor_new os observed_path [])")
  case (Inl e)
  then show ?thesis by (auto simp: nf_main_def nf_FolderMonitor_new_def sys_def Let_def split: prod.splits if_splits)
next
  case (Inr m)
  then obtain tr where new: "nf_FolderMonitor_new os observed_path [] = (Inr m, tr)" by (cases "nf_FolderMonitor_new os observed_path []") auto
  then have tr: "lines tr = [Print (''Started observation of folder: '' @ observed_path @ '', handle:'' @ show_int (descriptor m) @ ''\<newline>'')]"
    and m: "watchedFiles m = []"
    by (auto simp: nf_FolderMonitor_new_def sys_def Let_def split: if_splits)
  obtain moved rest where mv: "FolderMonitor_move m = (moved, rest)" by fastforce
  then have "unreadable moved" and rest: "descriptor rest = - 1" using m by (auto simp: FolderMonitor_move_def unreadable_def)
  then have ms: "list_all unreadable [moved]" by simp
  have "\<exists>fd tr'. nf_monitor os clock n EPollWorker_new [moved] tr = nf_loop os clock fd n [moved] tr' \<and> lines tr' = lines tr"
    unfolding nf_monitor_def Let_def split_beta by (intro exI conjI, rule refl) simp
  then obtain fd tr' where loop: "nf_monitor os clock n EPollWorker_new [moved] tr = nf_loop os clock fd n [moved] tr'" "lines tr' = lines tr"
    by blast
  from unreadable_loop [OF assms ms, of clock fd n tr'] obtain tr2 rs where
    "nf_loop os clock fd n [moved] tr' = Some ([moved], tr2)" "length rs = n" "lines tr2 = lines tr' @ concat (map turn_output rs)" by blast
  with new mv rest loop tr show ?thesis by (auto simp: nf_main_def nf_FolderMonitor_destroy_def intro!: exI [of _ rs])
qed

theorem notify_file_prints_no_file_witness:
  "\<exists>ms tr fd rs. nf_main busy_folder (\<lambda>_ _. 7) 3 [] = Some (Inr ms, tr) \<and> length rs = 3 \<and>
     lines tr = Print (''Started observation of folder: '' @ observed_path @ '', handle:'' @ show_int fd @ ''\<newline>'') # concat (map turn_output rs)"
proof -
  have b: "bounded_reads busy_folder" by (simp add: bounded_reads_def busy_folder_def)
  have "case nf_main busy_folder (\<lambda>_ _. 7) 3 [] of Some (Inr ms, tr) \<Rightarrow> True | _ \<Rightarrow> False" by code_simp
  then obtain ms tr where "nf_main busy_folder (\<lambda>_ _. 7) 3 [] = Some (Inr ms, tr)" by (auto split: option.splits sum.splits)
  with notify_file_prints_no_file [OF b, where clock = "\<lambda>_ _. 7" and n = 3] show ?thesis by auto
qed

end
