(* ===== verification/Inotify_Correct.thy ===== *)
theory Inotify_Correct
  imports Inotify_Programs
begin

text \<open>
  What the inotify programs print, when they end and when they do not.
\<close>

section \<open>Everything that was delivered is printed\<close>

definition cname_of :: "byte list \<Rightarrow> string" where
  "cname_of name = map (\<lambda>b. char_of (unat b)) (takeWhile (\<lambda>b. b \<noteq> 0) name)"

definition terminated_names :: "kevent list \<Rightarrow> bool" where
  "terminated_names es \<longleftrightarrow> (\<forall>e \<in> set es. kname e = [] \<or> 0 \<in> set (kname e))"

definition events_output :: "flag_table \<Rightarrow> (int \<times> string) list \<Rightarrow> kevent list \<Rightarrow> string list" where
  "events_output flags watches es =
     concat (map (\<lambda>e. event_output flags watches (sint (kwd e)) (kmask e) (if kname e = [] then [] else [cname_of (kname e)])) es)"

lemma print_events_encode:
  "short_names es \<Longrightarrow> terminated_names es \<Longrightarrow>
   print_events flags watches (pre @ encode_events es @ post) (length pre) (length pre + length (encode_events es)) tr =
     Some (tr @ map Print (events_output flags watches es))"
proof (induction es arbitrary: pre tr)
  case Nil
  then show ?case by (simp add: print_events.simps events_output_def)
next
  case (Cons e es)
  let ?buf = "pre @ encode_event e @ encode_events es @ post"
  have h: "inotify_header ?buf (length pre) =
      Some \<lparr>ev_wd = sint (kwd e), ev_mask = kmask e, ev_cookie = kcookie e, ev_len = length (kname e)\<rparr>" using Cons.prems by simp
  have nm: "kname e \<noteq> [] \<Longrightarrow> inotify_cname ?buf (length pre) = Some (cname_of (kname e))"
    using Cons.prems(2) by (simp add: terminated_names_def cname_of_def)
  have IH: "print_events flags watches ?buf (length pre + (16 + length (kname e)))
      (length pre + (16 + length (kname e) + length (encode_events es))) t = Some (t @ map Print (events_output flags watches es))" for t
    using Cons.IH [of "pre @ encode_event e" t] Cons.prems by (simp add: add.assoc terminated_names_def)
  show ?case
    by (cases "kname e = []"; subst print_events.simps)
       (use nm IH in \<open>simp_all add: h SIZEOF_INOTIFY_EVENT_def events_output_def del: length_concat\<close>)
qed

text \<open>
  The kernel delivers these batches of events to successive reads of \<open>room\<close> bytes, and then reports
  that there are no more; \<open>out\<close> is what the program prints in between.
\<close>

fun delivers :: "posix_os \<Rightarrow> int \<Rightarrow> nat \<Rightarrow> (kevent list \<Rightarrow> string list) \<Rightarrow> kevent list list \<Rightarrow> int trace \<Rightarrow> bool" where
  "delivers os fd room out [] tr \<longleftrightarrow> ret os tr (Read_call fd room) = - 1 \<and> errno_in os tr (Read_call fd room) = EAGAIN"
| "delivers os fd room out (es # batches) tr \<longleftrightarrow>
     ret os tr (Read_call fd room) = int (length (encode_events es)) \<and> bytes_in os tr (Read_call fd room) = encode_events es \<and>
     es \<noteq> [] \<and> length (encode_events es) \<le> room \<and> short_names es \<and> terminated_names es \<and>
     delivers os fd room out batches (tr @ Read_call fd room # map Print (out es))"

fun batch_trace :: "int \<Rightarrow> nat \<Rightarrow> (kevent list \<Rightarrow> string list) \<Rightarrow> kevent list list \<Rightarrow> int trace" where
  "batch_trace fd room out [] = [Read_call fd room]"
| "batch_trace fd room out (es # batches) = Read_call fd room # map Print (out es) @ batch_trace fd room out batches"

lemma read_events_delivered:
  "delivers os fd (length buf) (events_output flags watches) batches tr \<Longrightarrow> length batches < n \<Longrightarrow>
   read_events os flags watches fd n buf tr = Returned () (tr @ batch_trace fd (length buf) (events_output flags watches) batches)"
proof (induction batches arbitrary: n buf tr)
  case Nil
  then show ?case by (cases n) (simp_all add: sys_def)
next
  case (Cons es batches)
  then obtain n' where n: "n = Suc n'" by (cases n) auto
  let ?c = "Read_call fd (length buf)"
  have r: "ret os tr ?c = int (length (encode_events es))" "es \<noteq> []"
      "bytes_in os tr ?c = encode_events es" using Cons.prems(1) by simp_all
  have fits: "length (encode_events es) \<le> length buf" using Cons.prems(1) by (simp del: length_concat)
  have p: "print_events flags watches (fill_buffer (encode_events es) buf) 0 (length (encode_events es)) (tr @ [?c]) =
      Some (tr @ ?c # map Print (events_output flags watches es))"
    using print_events_encode [of es flags watches "[]" "drop (length (encode_events es)) buf" "tr @ [?c]"] Cons.prems(1) fits
    by (simp add: fill_buffer_fits del: length_concat)
  have "read_events os flags watches fd n' (fill_buffer (encode_events es) buf) (tr @ ?c # map Print (events_output flags watches es)) =
      Returned () (tr @ ?c # map Print (events_output flags watches es) @ batch_trace fd (length buf) (events_output flags watches) batches)"
    using Cons.IH [of "fill_buffer (encode_events es) buf" "tr @ ?c # map Print (events_output flags watches es)" n'] Cons.prems n by simp
  with p show ?case by (simp add: n sys_def Let_def r del: length_concat)
qed

text \<open>
  One call of \<open>handle_events\<close> prints every event that is waiting: if the kernel delivers any number
  of batches and then has no more, the call ends after one more read than there are batches, and its
  output is the lines of all events in order.
\<close>

theorem handle_events_prints_all:
  assumes "delivers os fd EVENT_BUF (events_output flags watches) batches tr" "EVENT_BUF \<le> length (stack tr)" "length batches < n"
  shows "handle_events os flags stack n fd watches tr =
    Returned () (tr @ batch_trace fd EVENT_BUF (events_output flags watches) batches)"
  using read_events_delivered [of os fd "take EVENT_BUF (stack tr)" flags watches batches tr n] assms
  by (simp add: handle_events_def min_absorb2)

text \<open>So would the handler of \<open>observ.c\<close>; its lines name the type of an event only for \<open>IN_CLOSE_WRITE\<close>.\<close>

lemma observ_would_print_all:
  assumes "delivers os fd EVENT_BUF (events_output observ_flags watches) batches tr" "EVENT_BUF \<le> length (stack tr)" "length batches < n"
  shows "observ_handle_events os stack n fd watches tr =
    Returned () (tr @ batch_trace fd EVENT_BUF (events_output observ_flags watches) batches)"
  using read_events_delivered [of os fd "take EVENT_BUF (stack tr)" observ_flags watches batches tr n] assms
  by (simp add: observ_handle_events_def min_absorb2)

definition closed_file :: kevent where
  "closed_file = \<lparr>kwd = 1, kmask = IN_CLOSE_WRITE, kcookie = 0, kname = [0x61, 0, 0, 0]\<rparr>"

definition one_batch :: posix_os where
  "one_batch = \<lparr>ret = (\<lambda>tr c. if tr = [] then 20 else - 1), bytes_in = (\<lambda>tr c. encode_event closed_file), events_in = (\<lambda>tr c. []),
     ready_in = (\<lambda>tr c. {}), errno_in = (\<lambda>tr c. EAGAIN)\<rparr>"

theorem handle_events_prints_all_witness:
  "handle_events one_batch main_flags (\<lambda>_. replicate EVENT_BUF 0) 2 3 [(1, ''/tmp'')] [] =
    Returned () [Read_call 3 EVENT_BUF, Print ''IN_CLOSE_WRITE: '', Print ''/tmp/'', Print ''a'', Print '' [file]\<newline>'', Read_call 3 EVENT_BUF]"
proof -
  have o: "events_output main_flags [(1, ''/tmp'')] [closed_file] = [''IN_CLOSE_WRITE: '', ''/tmp/'', ''a'', '' [file]\<newline>'']"
    by code_simp
  have "delivers one_batch 3 EVENT_BUF (events_output main_flags [(1, ''/tmp'')]) [[closed_file]] []"
    by (simp add: one_batch_def closed_file_def terminated_names_def EVENT_BUF_def)
  from handle_events_prints_all [OF this, of "\<lambda>_. replicate EVENT_BUF 0" 2] o show ?thesis by simp
qed

section \<open>How the programs end\<close>

text \<open>The calls of a run after \<open>tr\<close> satisfy \<open>P\<close>, and if it exits, then with status 1.\<close>

definition steps :: "(int os_call \<Rightarrow> bool) \<Rightarrow> int trace \<Rightarrow> 'a outcome \<Rightarrow> bool" where
  "steps P tr r =
     (case r of
        Running t \<Rightarrow> (\<exists>cs. t = tr @ cs \<and> list_all P cs)
      | Undefined \<Rightarrow> True
      | Exited code t \<Rightarrow> code = 1 \<and> (\<exists>cs. t = tr @ cs \<and> list_all P cs)
      | Returned x t \<Rightarrow> (\<exists>cs. t = tr @ cs \<and> list_all P cs))"

lemma steps_simps [simp]:
  "steps P tr (Running t) \<longleftrightarrow> (\<exists>cs. t = tr @ cs \<and> list_all P cs)"
  "steps P tr Undefined"
  "steps P tr (Exited code t) \<longleftrightarrow> code = 1 \<and> (\<exists>cs. t = tr @ cs \<and> list_all P cs)"
  "steps P tr (Returned x t) \<longleftrightarrow> (\<exists>cs. t = tr @ cs \<and> list_all P cs)"
  by (simp_all add: steps_def)

lemma steps_after: "list_all P cs \<Longrightarrow> steps P (tr @ cs) r \<Longrightarrow> steps P tr r"
  by (cases r) auto

lemma steps_then:
  "steps P tr r \<Longrightarrow> (\<And>x t. r = Returned x t \<Longrightarrow> steps P t (f x t)) \<Longrightarrow> steps P tr (then_run r f)"
  by (cases r) (auto intro: steps_after)

fun quiet_call :: "int os_call \<Rightarrow> bool" where
  "quiet_call (Print s) = True"
| "quiet_call (Perror s) = True"
| "quiet_call (Poll ds) = True"
| "quiet_call (Inotify_init flags) = True"
| "quiet_call (Inotify_add fd path m) = True"
| "quiet_call (Read_call fd n) = (fd = 0)"
| "quiet_call c = False"

text \<open>As \<open>quiet_call\<close>, but any descriptor may be read.\<close>

fun watch_call :: "int os_call \<Rightarrow> bool" where
  "watch_call (Read_call fd n) = True"
| "watch_call c = quiet_call c"

lemma quiet_watch: "quiet_call c \<Longrightarrow> watch_call c"
  by (cases c) auto

lemma add_watches_steps: "(\<And>c. quiet_call c \<Longrightarrow> P c) \<Longrightarrow> steps P tr (add_watches os fd paths tr)"
proof (induction paths arbitrary: tr)
  case (Cons path paths)
  have "steps P tr (add_watches os fd paths (tr @ [Inotify_add fd path (IN_OPEN OR IN_CLOSE)]))"
    using Cons by (intro steps_after [of P "[Inotify_add fd path (IN_OPEN OR IN_CLOSE)]" tr]) simp_all
  with Cons.prems show ?case by (auto simp: sys_def intro!: steps_then)
qed simp

lemma empty_stdin_steps: "(\<And>c. quiet_call c \<Longrightarrow> P c) \<Longrightarrow> steps P tr (empty_stdin os n tr)"
proof (induction n arbitrary: tr)
  case (Suc n)
  have "steps P tr (empty_stdin os n (tr @ [Read_call 0 1]))"
    using Suc by (intro steps_after [of P "[Read_call 0 1]" tr]) simp_all
  with Suc.prems show ?case by (simp add: sys_def Let_def)
qed simp

lemma poll_loop_steps:
  assumes "\<And>c. quiet_call c \<Longrightarrow> P c" "\<And>n t. steps P t (on_events n t)"
  shows "steps P tr (poll_loop os fd on_events n tr)"
proof (induction n arbitrary: tr)
  case (Suc n)
  let ?tr = "tr @ [Poll [0, fd]]"
  have "steps P ?tr (then_run (on_events n ?tr) (\<lambda>_ tr. poll_loop os fd on_events n tr))"
    using assms(2) Suc by (intro steps_then)
  then have "steps P tr (then_run (on_events n ?tr) (\<lambda>_ tr. poll_loop os fd on_events n tr))"
      "steps P tr (empty_stdin os n ?tr)" "steps P tr (poll_loop os fd on_events n ?tr)"
    using Suc [of ?tr] empty_stdin_steps [of P ?tr os n] assms(1)
    by (auto intro: steps_after [of P "[Poll [0, fd]]" tr])
  with assms(1) show ?case by (simp add: sys_def Let_def)
qed simp

lemma print_events_steps: "print_events flags watches buf ptr len tr = Some tr' \<Longrightarrow> \<exists>ss. tr' = tr @ map Print ss"
proof (induction flags watches buf ptr len tr arbitrary: tr' rule: print_events.induct)
  case (1 flags watches buf ptr len tr)
  show ?case
  proof (cases "ptr < len")
    case True
    with 1(2) obtain e name where h: "inotify_header buf ptr = Some e"
      "(if ev_len e \<noteq> 0 then map_option (\<lambda>s. [s]) (inotify_cname buf ptr) else Some []) = Some name"
      "print_events flags watches buf (ptr + (SIZEOF_INOTIFY_EVENT + ev_len e)) len
          (tr @ map Print (event_output flags watches (ev_wd e) (ev_mask e) name)) = Some tr'"
      by (subst (asm) print_events.simps) (auto simp: bind_eq_Some_conv)
    from 1(1) [OF True h] show ?thesis by (auto simp flip: map_append)
  qed (use 1(2) in \<open>simp add: print_events.simps\<close>)
qed

lemma read_events_steps: "steps watch_call tr (read_events os flags watches fd n buf tr)"
proof (induction n arbitrary: buf tr)
  case (Suc n)
  show ?case
  proof (cases "print_events flags watches (fill_buffer (bytes_in os tr (Read_call fd (length buf))) buf) 0
      (nat (ret os tr (Read_call fd (length buf)))) (tr @ [Read_call fd (length buf)])")
    case (Some tr')
    then obtain ss where "tr' = tr @ Read_call fd (length buf) # map Print ss" using print_events_steps by fastforce
    then show ?thesis using Suc [where tr = tr'] Some
      by (auto simp: sys_def Let_def list_all_iff intro: steps_after [of _ "Read_call fd (length buf) # map Print ss" tr])
  qed (simp add: sys_def Let_def)
qed simp

text \<open>
  C33. The example program ends successfully only after it has closed its inotify descriptor, as the
  last call of all; whatever else ends it gives status 1 and leaves the descriptor open.
\<close>

theorem inotify_main_closes_last:
  assumes "inotify_main os stack memory n argv tr = Exited code tr'"
  shows "code = 0 \<and> (\<exists>cs fd. tr' = tr @ cs @ [Print ''Listening for events stopped.\<newline>'', Close fd] \<and> list_all watch_call cs \<and>
      fd = ret os (tr @ [Print ''Press ENTER key to terminate.\<newline>'']) (Inotify_init IN_NONBLOCK)) \<or>
    code = 1 \<and> (\<exists>cs. tr' = tr @ cs \<and> list_all watch_call cs)"
proof -
  let ?t1 = "tr @ [Print ''Press ENTER key to terminate.\<newline>'', Inotify_init IN_NONBLOCK]"
  let ?fd = "ret os (tr @ [Print ''Press ENTER key to terminate.\<newline>'']) (Inotify_init IN_NONBLOCK)"
  show ?thesis
  proof (cases "length argv < 2 \<or> ?fd = - 1 \<or> \<not> memory")
    case True
    with assms show ?thesis by (auto simp: inotify_main_def watch_main_def sys_def split: if_splits)
  next
    case False
    have a: "steps watch_call ?t1 (add_watches os ?fd (tl argv) ?t1)" by (rule add_watches_steps) (rule quiet_watch)
    have p: "steps watch_call t (poll_loop os ?fd (\<lambda>n. handle_events os main_flags stack n ?fd watches) n t)" for t watches
      by (rule poll_loop_steps) (simp_all add: handle_events_def read_events_steps quiet_watch)
    show ?thesis
    proof (cases "add_watches os ?fd (tl argv) ?t1")
      case (Returned watches t2)
      let ?t3 = "t2 @ [Print ''Listening for events.\<newline>'']"
      show ?thesis using assms a p [of ?t3 watches] False Returned
        by (cases "poll_loop os ?fd (\<lambda>n. handle_events os main_flags stack n ?fd watches) n ?t3")
           (auto simp: inotify_main_def watch_main_def sys_def)
    qed (use assms a False in \<open>auto simp: inotify_main_def watch_main_def sys_def\<close>)
  qed
qed

definition enter_pressed :: posix_os where
  "enter_pressed = \<lparr>ret = (\<lambda>tr c. case c of Inotify_init _ \<Rightarrow> 3 | Read_call _ _ \<Rightarrow> 0 | _ \<Rightarrow> 1), bytes_in = (\<lambda>tr c. []), events_in = (\<lambda>tr c. []),
     ready_in = (\<lambda>tr c. {0}), errno_in = (\<lambda>tr c. 0)\<rparr>"

theorem inotify_main_closes_last_witness:
  "\<exists>tr' cs. inotify_main enter_pressed (\<lambda>_. []) True 3 [''main'', ''/tmp''] [] = Exited 0 tr' \<and>
     tr' = cs @ [Print ''Listening for events stopped.\<newline>'', Close 3]"
proof -
  have "inotify_main enter_pressed (\<lambda>_. []) True 3 [''main'', ''/tmp''] [] = Exited 0
      [Print ''Press ENTER key to terminate.\<newline>'', Inotify_init IN_NONBLOCK, Inotify_add 3 ''/tmp'' (IN_OPEN OR IN_CLOSE),
       Print ''Listening for events.\<newline>'', Poll [0, 3], Read_call 0 1, Print ''Listening for events stopped.\<newline>'', Close 3]"
    by code_simp
  then obtain tr' where r: "inotify_main enter_pressed (\<lambda>_. []) True 3 [''main'', ''/tmp''] [] = Exited 0 tr'" by blast
  from inotify_main_closes_last [OF r] r show ?thesis by (auto simp: enter_pressed_def)
qed

lemma add_watches_defined: "add_watches os fd paths tr \<noteq> Undefined"
proof (induction paths arbitrary: tr)
  case (Cons path paths)
  then show ?case by (cases "add_watches os fd paths (tr @ [Inotify_add fd path (IN_OPEN OR IN_CLOSE)])") (auto simp: sys_def)
qed simp

lemma empty_stdin_defined: "empty_stdin os n tr \<noteq> Undefined"
  by (induction n arbitrary: tr) (auto simp: sys_def Let_def)

lemma poll_loop_defined: "poll_loop os fd (\<lambda>n tr. Returned () tr) n tr \<noteq> Undefined"
  by (induction n arbitrary: tr) (auto simp: sys_def Let_def empty_stdin_defined)

text \<open>
  The variant without the call of its event handler never looks at an event: whatever the system
  does, all it does after its start is to poll and to read the terminal, so the events it waits for
  stay in their queue and every later poll returns at once.
\<close>

theorem observ_leaves_events:
  "\<exists>cs. (observ_main os memory n argv tr = Running (tr @ cs) \<or> observ_main os memory n argv tr = Exited 1 (tr @ cs) \<or>
       (\<exists>fd. observ_main os memory n argv tr = Exited 0 (tr @ cs @ [Close fd]))) \<and>
     list_all quiet_call cs"
proof -
  let ?t1 = "tr @ [Print ''Press ENTER key to terminate.\<newline>'', Inotify_init IN_NONBLOCK]"
  let ?fd = "ret os (tr @ [Print ''Press ENTER key to terminate.\<newline>'']) (Inotify_init IN_NONBLOCK)"
  show ?thesis
  proof (cases "length argv < 2 \<or> ?fd = - 1 \<or> \<not> memory")
    case True
    then show ?thesis by (auto simp: observ_main_def watch_main_def sys_def)
  next
    case False
    have a: "steps quiet_call ?t1 (add_watches os ?fd (tl argv) ?t1)" by (rule add_watches_steps)
    have p: "steps quiet_call t (poll_loop os ?fd (\<lambda>n tr. Returned () tr) n t)" for t
      by (rule poll_loop_steps) simp_all
    show ?thesis
    proof (cases "add_watches os ?fd (tl argv) ?t1")
      case (Returned watches t2)
      let ?t3 = "t2 @ [Print ''Listening for events.\<newline>'']"
      show ?thesis using a p [of ?t3] False Returned poll_loop_defined [of os ?fd n ?t3]
        by (cases "poll_loop os ?fd (\<lambda>n tr. Returned () tr) n ?t3")
           (auto simp: observ_main_def watch_main_def sys_def)
    qed (use a False add_watches_defined [of os ?fd "tl argv" ?t1] in \<open>auto simp: observ_main_def watch_main_def sys_def\<close>)
  qed
qed

section \<open>An event without a name\<close>

lemma notify_events_stuck:
  assumes "int i < len" "inotify_header buffer i = Some e" "ev_len e = 0"
  shows "notify_events n buffer i len tr = Running tr"
  by (induction n) (simp_all add: assms)

lemma notify_events_step:
  assumes "length (kname e) < 2 ^ 32" "kname e \<noteq> []" "0 \<in> set (kname e)" "int (length pre) < len"
  shows "notify_events (Suc n) (pre @ encode_event e @ post) (length pre) len tr =
    notify_events n (pre @ encode_event e @ post) (length pre + (16 + length (kname e))) len
      (tr @ map Print (notify_output (sint (kwd e)) (kmask e) (cname_of (kname e))))"
  using assms by (simp add: SIZEOF_INOTIFY_EVENT_def cname_of_def)

lemma notify_events_end:
  "short_names es \<Longrightarrow> terminated_names es \<Longrightarrow>
   (\<exists>n t. notify_events n (pre @ encode_events es @ post) (length pre) (int (length pre + length (encode_events es))) tr = Returned () t) \<longleftrightarrow>
   (\<forall>e \<in> set es. kname e \<noteq> [])"
proof (induction es arbitrary: pre tr)
  case Nil
  then show ?case by (auto intro!: exI [of _ "Suc 0"])
next
  case (Cons e es)
  let ?buf = "pre @ encode_event e @ encode_events es @ post" and ?len = "int (length pre + length (encode_events (e # es)))"
  have lt: "int (length pre) < ?len" by simp
  show ?case
  proof (cases "kname e = []")
    case True
    then have "inotify_header ?buf (length pre) = Some \<lparr>ev_wd = sint (kwd e), ev_mask = kmask e, ev_cookie = kcookie e, ev_len = 0\<rparr>"
      using inotify_header_encode [of e pre "encode_events es @ post"] Cons.prems by simp
    then have "notify_events n ?buf (length pre) ?len tr = Running tr" for n by (rule notify_events_stuck [OF lt]) simp
    with True show ?thesis by simp
  next
    case False
    then have z: "0 \<in> set (kname e)" using Cons.prems(2) by (simp add: terminated_names_def)
    define out where "out = notify_output (sint (kwd e)) (kmask e) (cname_of (kname e))"
    have out: "notify_events (Suc n) ?buf (length pre) ?len tr =
        notify_events n ?buf (length pre + (16 + length (kname e))) ?len (tr @ map Print out)" for n
      unfolding out_def by (rule notify_events_step [OF _ False z lt]) (use Cons.prems(1) in simp)
    have IH: "(\<exists>n t. notify_events n ?buf (length pre + (16 + length (kname e))) ?len (tr @ map Print out) = Returned () t) \<longleftrightarrow>
        (\<forall>e \<in> set es. kname e \<noteq> [])"
      using Cons.IH [of "pre @ encode_event e" "tr @ map Print out"] Cons.prems by (simp add: terminated_names_def add.assoc)
    have "(\<exists>n t. notify_events n ?buf (length pre) ?len tr = Returned () t) \<longleftrightarrow>
        (\<exists>n t. notify_events n ?buf (length pre + (16 + length (kname e))) ?len (tr @ map Print out) = Returned () t)"
      using out by (metis nat.exhaust notify_events.simps(1) outcome.distinct(5))
    with IH False show ?thesis by simp
  qed
qed

text \<open>
  C32. The inner loop of \<open>notify.c\<close> ends exactly if every event it was given has a name: an event
  without one, like the last event of a directory that is removed, leaves the index where it is and
  the program prints nothing ever after.
\<close>

theorem notify_ends_iff_named:
  assumes "short_names es" "terminated_names es"
  shows "(\<exists>n t. notify_events n (encode_events es @ post) 0 (int (length (encode_events es))) tr = Returned () t) \<longleftrightarrow>
    (\<forall>e \<in> set es. kname e \<noteq> [])"
  using notify_events_end [OF assms, of "[]" post tr] by simp

definition watch_removed :: kevent where
  "watch_removed = \<lparr>kwd = 1, kmask = IN_IGNORED, kcookie = 0, kname = []\<rparr>"

theorem notify_ends_iff_named_witness:
  "(\<exists>n t. notify_events n (encode_event closed_file) 0 20 [] = Returned () t) \<and>
   (\<nexists>n t. notify_events n (encode_event closed_file @ encode_event watch_removed) 0 36 [] = Returned () t)"
  using notify_ends_iff_named [of "[closed_file]" "[]" "[]"] notify_ends_iff_named [of "[closed_file, watch_removed]" "[]" "[]"]
  by (simp add: closed_file_def watch_removed_def terminated_names_def)

end
