(* ===== verification/Epoll_Programs.thy ===== *)
theory Epoll_Programs
  imports Inotify_Programs Epoll_Worker
begin

text \<open>
  The C programs of epoll/: \<open>epoll_example.c\<close> makes and closes an epoll descriptor, \<open>epoll.c\<close> also adds
  the terminal to it, and \<open>main.c\<close> echoes what is typed until a read begins with \<open>stop\<close> and a newline.
  Output and its errors are part of the trace; the exit status is the result of \<open>main\<close>.
\<close>

definition epoll_create_failed :: string where
  "epoll_create_failed = ''Failed to create epoll file descriptor\<newline>''"

definition close_epoll :: "posix_os \<Rightarrow> int \<Rightarrow> int trace \<Rightarrow> unit outcome" where
  "close_epoll os epoll_fd tr =
     (let (r, tr) = sys os (Close epoll_fd) tr
      in if r \<noteq> 0 then Exited 1 (tr @ [Perror ''Failed to close epoll file descriptor\<newline>'']) else Exited 0 tr)"

definition epoll_create_main :: "posix_os \<Rightarrow> int trace \<Rightarrow> unit outcome" where
  "epoll_create_main os tr =
     (let (epoll_fd, tr) = sys os (Epoll_create 0) tr
      in if epoll_fd = - 1 then Exited 1 (tr @ [Perror epoll_create_failed]) else close_epoll os epoll_fd tr)"

definition add_stdin :: "posix_os \<Rightarrow> int \<Rightarrow> int trace \<Rightarrow> unit outcome" where
  "add_stdin os epoll_fd tr =
     (let (r, tr) = sys os (Epoll_add epoll_fd 0 EPOLLIN 0) tr
      in if r \<noteq> 0
         then Exited 1 (snd (sys os (Close epoll_fd) (tr @ [Perror ''Failed to add file descriptor to epoll\<newline>''])))
         else Returned () tr)"

definition epoll_add_main :: "posix_os \<Rightarrow> int trace \<Rightarrow> unit outcome" where
  "epoll_add_main os tr =
     (let (epoll_fd, tr) = sys os (Epoll_create 0) tr
      in if epoll_fd = - 1 then Exited 1 (tr @ [Perror epoll_create_failed])
         else then_run (add_stdin os epoll_fd tr) (\<lambda>_ tr. close_epoll os epoll_fd tr))"

definition MAX_EVENTS :: nat where "MAX_EVENTS = 5"
definition READ_SIZE :: nat where "READ_SIZE = 10"

definition cstring :: "byte list \<Rightarrow> string" where
  "cstring buf = map (\<lambda>b. char_of (unat b)) (takeWhile (\<lambda>b. b \<noteq> 0) buf)"

definition is_stop :: "byte list \<Rightarrow> bool" where
  "is_stop buf \<longleftrightarrow> take 5 (cstring buf) = ''stop\<newline>''"

text \<open>
  The events of one wait. The buffer has one byte more than is read, for the NUL that is stored behind
  what was read; a failed read stores it at the index \<open>-1\<close>, which is \<open>None\<close>.
\<close>

fun echo_events :: "posix_os \<Rightarrow> (u32 \<times> int) list \<Rightarrow> bool \<Rightarrow> byte list \<Rightarrow> int trace \<Rightarrow> (bool \<times> byte list \<times> int trace) option" where
  "echo_events os [] running buf tr = Some (running, buf, tr)"
| "echo_events os (e # es) running buf tr =
     (let tr = tr @ [Print (''Reading file descriptor '' @ [CHR 0x27] @ show_int (snd e) @ [CHR 0x27] @ '' -- '')];
          c = Read_call (snd e) READ_SIZE; (bytes_read, tr') = sys os c tr
      in if bytes_read < 0 \<or> int (length buf) \<le> bytes_read then None
         else let buf = (fill_buffer (take READ_SIZE (bytes_in os tr c)) buf)[nat bytes_read := 0]
              in echo_events os es (running \<and> \<not> is_stop buf) buf
                   (tr' @ [Print (show_int bytes_read @ '' bytes read.\<newline>''),
                           Print (''Read '' @ [CHR 0x27] @ cstring buf @ [CHR 0x27] @ ''\<newline>'')]))"

fun echo_loop :: "posix_os \<Rightarrow> int \<Rightarrow> nat \<Rightarrow> bool \<Rightarrow> byte list \<Rightarrow> int trace \<Rightarrow> unit outcome" where
  "echo_loop os epoll_fd 0 running buf tr = Running tr"
| "echo_loop os epoll_fd (Suc n) running buf tr =
     (if \<not> running then close_epoll os epoll_fd tr
      else let tr = tr @ [Print ''\<newline>Polling for input...\<newline>'']; c = Epoll_wait epoll_fd MAX_EVENTS 30000;
               (event_count, tr') = sys os c tr;
               tr' = tr' @ [Print (show_int event_count @ '' ready events\<newline>'')]
           in case echo_events os (take (nat event_count) (events_in os tr c)) running buf tr' of
                None \<Rightarrow> Undefined
              | Some (running, buf, tr) \<Rightarrow> echo_loop os epoll_fd n running buf tr)"

definition epoll_main :: "posix_os \<Rightarrow> (int trace \<Rightarrow> byte list) \<Rightarrow> nat \<Rightarrow> int trace \<Rightarrow> unit outcome" where
  "epoll_main os stack n tr =
     (let buf = take (READ_SIZE + 1) (stack tr); (epoll_fd, tr) = sys os (Epoll_create 0) tr
      in if epoll_fd = - 1 then Exited 1 (tr @ [Perror epoll_create_failed])
         else then_run (add_stdin os epoll_fd tr) (\<lambda>_ tr. echo_loop os epoll_fd n True buf tr))"

section \<open>Echoing until stop\<close>

abbreviation wait_call :: "int \<Rightarrow> int os_call" where
  "wait_call fd \<equiv> Epoll_wait fd MAX_EVENTS 30000"

text \<open>The calls and lines of one turn in which \<open>chunk\<close> is read from the terminal.\<close>

definition before_wait :: "int os_call list" where
  "before_wait = [Print ''\<newline>Polling for input...\<newline>'']"

definition before_read :: "int \<Rightarrow> int os_call list" where
  "before_read fd = before_wait @ [wait_call fd, Print ''1 ready events\<newline>'',
     Print (''Reading file descriptor '' @ [CHR 0x27] @ ''0'' @ [CHR 0x27] @ '' -- '')]"

definition turn_calls :: "int \<Rightarrow> byte list \<Rightarrow> int os_call list" where
  "turn_calls fd chunk = before_read fd @ [Read_call 0 READ_SIZE, Print (show_int (int (length chunk)) @ '' bytes read.\<newline>''),
     Print (''Read '' @ [CHR 0x27] @ cstring chunk @ [CHR 0x27] @ ''\<newline>'')]"

text \<open>The system delivers these chunks, one event on the terminal for each.\<close>

fun typed :: "posix_os \<Rightarrow> int \<Rightarrow> byte list list \<Rightarrow> int trace \<Rightarrow> bool" where
  "typed os fd [] tr \<longleftrightarrow> True"
| "typed os fd (chunk # chunks) tr \<longleftrightarrow>
     ret os (tr @ before_wait) (wait_call fd) = 1 \<and> events_in os (tr @ before_wait) (wait_call fd) = [(EPOLLIN, 0)] \<and>
     ret os (tr @ before_read fd) (Read_call 0 READ_SIZE) = int (length chunk) \<and>
     bytes_in os (tr @ before_read fd) (Read_call 0 READ_SIZE) = chunk \<and> length chunk \<le> READ_SIZE \<and>
     typed os fd chunks (tr @ turn_calls fd chunk)"

lemma show_int_small [simp]: "show_int 0 = ''0''" "show_int 1 = ''1''"
  by code_simp+

lemma cstring_nul: "cstring (chunk @ 0 # rest) = cstring chunk"
  by (induction chunk) (simp_all add: cstring_def)

lemma stored_nul:
  assumes "length chunk \<le> READ_SIZE" "length buf = READ_SIZE + 1"
  shows "\<exists>rest. (fill_buffer (take READ_SIZE chunk) buf)[length chunk := 0] = chunk @ 0 # rest"
proof -
  have "fill_buffer (take READ_SIZE chunk) buf = chunk @ drop (length chunk) buf"
    using assms by (simp add: fill_buffer_def)
  moreover obtain b rest where "drop (length chunk) buf = b # rest"
    using assms by (cases "drop (length chunk) buf") auto
  ultimately show ?thesis by simp
qed

lemma echo_turn:
  assumes "typed os fd (chunk # chunks) tr" "length buf = READ_SIZE + 1"
  shows "\<exists>buf'. length buf' = READ_SIZE + 1 \<and>
    echo_loop os fd (Suc n) True buf tr = echo_loop os fd n (\<not> is_stop chunk) buf' (tr @ turn_calls fd chunk)"
proof -
  obtain rest where nul: "(fill_buffer (take READ_SIZE chunk) buf)[length chunk := 0] = chunk @ 0 # rest"
    using stored_nul [OF _ assms(2)] assms(1) by auto
  have len: "length (chunk @ 0 # rest) = READ_SIZE + 1"
    using arg_cong [OF nul, of length] assms(2) by simp
  have stop: "is_stop (chunk @ 0 # rest) \<longleftrightarrow> is_stop chunk" by (simp only: is_stop_def cstring_nul)
  have "echo_loop os fd (Suc n) True buf tr = echo_loop os fd n (\<not> is_stop chunk) (chunk @ 0 # rest) (tr @ turn_calls fd chunk)"
    using assms nul stop by (simp add: sys_def Let_def before_wait_def before_read_def turn_calls_def cstring_nul)
  with len show ?thesis by blast
qed

lemma echo_until_stop:
  "typed os fd (chunks @ [stop]) tr \<Longrightarrow> \<forall>c \<in> set chunks. \<not> is_stop c \<Longrightarrow> is_stop stop \<Longrightarrow> length buf = READ_SIZE + 1 \<Longrightarrow>
   length chunks + 1 < n \<Longrightarrow>
   echo_loop os fd n True buf tr = close_epoll os fd (tr @ concat (map (turn_calls fd) (chunks @ [stop])))"
proof (induction chunks arbitrary: n buf tr)
  case Nil
  then obtain n' where n: "n = Suc (Suc n')" by (metis add.commute add_lessD1 gr0_conv_Suc less_imp_Suc_add list.size(3) plus_1_eq_Suc)
  obtain buf' where "echo_loop os fd (Suc (Suc n')) True buf tr = echo_loop os fd (Suc n') (\<not> is_stop stop) buf' (tr @ turn_calls fd stop)"
    using echo_turn [of os fd stop "[]" tr buf "Suc n'"] Nil.prems by auto
  with n Nil.prems(3) show ?case by simp
next
  case (Cons c chunks)
  then obtain n' where n: "n = Suc n'" by (cases n) auto
  obtain buf' where b: "length buf' = READ_SIZE + 1"
    "echo_loop os fd n True buf tr = echo_loop os fd n' (\<not> is_stop c) buf' (tr @ turn_calls fd c)"
    using echo_turn [of os fd c "chunks @ [stop]" tr buf n'] Cons.prems n by auto
  then have "echo_loop os fd n True buf tr = echo_loop os fd n' True buf' (tr @ turn_calls fd c)" using Cons.prems(2) by simp
  also have "\<dots> = close_epoll os fd ((tr @ turn_calls fd c) @ concat (map (turn_calls fd) (chunks @ [stop])))"
    by (rule Cons.IH) (use Cons.prems n b(1) in simp_all)
  finally show ?case by simp
qed

text \<open>
  The echo program reads what is typed in chunks of at most ten bytes, prints each of them, and
  ends with the first chunk that begins with the word stop and a newline; it then closes its epoll
  descriptor, and nothing else ends it.
\<close>

theorem echo_ends_with_stop:
  assumes "typed os fd (chunks @ [stop]) tr" "\<forall>c \<in> set chunks. \<not> is_stop c" "is_stop stop"
    and "length buf = READ_SIZE + 1" "length chunks + 1 < n"
  shows "echo_loop os fd n True buf tr = close_epoll os fd (tr @ concat (map (turn_calls fd) (chunks @ [stop])))"
  using echo_until_stop [OF assms] .

definition types_stop :: posix_os where
  "types_stop = \<lparr>ret = (\<lambda>tr c. case c of Read_call _ _ \<Rightarrow> if length tr < 5 then 2 else 5 | Epoll_wait _ _ _ \<Rightarrow> 1 | _ \<Rightarrow> 0),
     bytes_in = (\<lambda>tr c. if length tr < 5 then [0x61, 10] else [0x73, 0x74, 0x6F, 0x70, 10]),
     events_in = (\<lambda>tr c. [(EPOLLIN, 0)]), ready_in = (\<lambda>tr c. {}), errno_in = (\<lambda>tr c. 0)\<rparr>"

theorem echo_ends_with_stop_witness:
  "\<exists>tr. echo_loop types_stop 4 3 True (replicate 11 0) [] = Exited 0 (tr @ [Close 4])"
proof -
  have "typed types_stop 4 ([[0x61, 10]] @ [[0x73, 0x74, 0x6F, 0x70, 10]]) []"
    by (simp add: types_stop_def before_wait_def before_read_def turn_calls_def READ_SIZE_def)
  moreover have "is_stop [0x73, 0x74, 0x6F, 0x70, 10]" "\<not> is_stop [0x61, 10]" by code_simp+
  ultimately show ?thesis using echo_ends_with_stop [of types_stop 4 "[[0x61, 10]]" "[0x73, 0x74, 0x6F, 0x70, 10]" "[]" "replicate 11 0" 3]
    by (simp add: READ_SIZE_def close_epoll_def sys_def types_stop_def)
qed

end
