(* ===== verification/Log_Reader.thy ===== *)
theory Log_Reader
  imports Prelude
begin

text \<open>
  \<open>log_loger\<close> (src/loger.cpp), which follows a log file, its main program (src/main.cpp), and the
  \<open>crawler\<close> of dir_crawl/, which picks the paths of a glob whose name contains a module's. The file's
  content at the time of a call and the paths of the glob are arguments.
\<close>

record log_loger =
  LogFileName :: string
  LogFilePath :: string
  LogContent :: string
  LogContentOld :: string
  stream_good :: bool

definition log_loger_new :: "string \<Rightarrow> string \<Rightarrow> (string \<Rightarrow> bool) \<Rightarrow> log_loger" where
  "log_loger_new FileName Path exists =
     \<lparr>LogFileName = FileName, LogFilePath = Path, LogContent = [], LogContentOld = [], stream_good = exists (Path @ FileName)\<rparr>"

text \<open>Reading through a stream buffer iterator leaves the stream good.\<close>

definition ReadWholeLog :: "string \<Rightarrow> log_loger \<Rightarrow> log_loger" where
  "ReadWholeLog content l = (if stream_good l then l\<lparr>LogContent := content\<rparr> else l)"

definition EraseOldContent :: "string \<Rightarrow> string \<Rightarrow> string" where
  "EraseOldContent ActualData OldContent =
     (if OldContent = ActualData then '' ''
      else case str_find ActualData OldContent of
             Some position \<Rightarrow> take position ActualData @ drop (position + length OldContent) ActualData
           | None \<Rightarrow> ActualData)"

definition ReadNewData :: "log_loger \<Rightarrow> string" where
  "ReadNewData l = (if length (LogContentOld l) < length (LogContent l) then EraseOldContent (LogContent l) (LogContentOld l) else '' '')"

definition UpdateData :: "string \<Rightarrow> log_loger \<Rightarrow> log_loger" where
  "UpdateData content l = ReadWholeLog content (l\<lparr>LogContentOld := LogContent l\<rparr>)"

definition ReadLog :: "log_loger \<Rightarrow> string" where
  "ReadLog l = LogContent l"

text \<open>
  The turns of the main program's loop: for every character the content the file has when it is typed.
  The result is what is printed between the fixed texts of a turn.
\<close>

fun loger_turns :: "(char \<times> string) list \<Rightarrow> log_loger \<Rightarrow> string list \<times> log_loger" where
  "loger_turns [] l = ([], l)"
| "loger_turns ((key, content) # turns) l =
     (let l = (if key = CHR ''a'' then UpdateData content l else l); (out, l') = loger_turns turns l
      in (ReadNewData l # out, l'))"

definition loger_main :: "string \<Rightarrow> (char \<times> string) list \<Rightarrow> bool \<Rightarrow> string list" where
  "loger_main content turns exists =
     fst (loger_turns turns (ReadWholeLog content (log_loger_new ''modol.err.log'' ''./'' (\<lambda>_. exists))))"

text \<open>The crawler.\<close>

definition crawler_new :: "(string \<Rightarrow> string list) \<Rightarrow> string \<Rightarrow> string \<Rightarrow> string list" where
  "crawler_new glob Name Path = filter (\<lambda>it. str_find it Name \<noteq> None) (glob Path)"

definition CrawlOverDirectory :: "(string \<Rightarrow> string list) \<Rightarrow> string \<Rightarrow> string list" where
  "CrawlOverDirectory glob ModuleName = glob ModuleName"

definition GetLinks :: "string list \<Rightarrow> string list" where
  "GetLinks LinksToLog = LinksToLog"

section \<open>Following a growing log\<close>

lemma EraseOldContent_append: "new \<noteq> [] \<Longrightarrow> EraseOldContent (old @ new) old = new"
  by (simp add: EraseOldContent_def)

lemma ReadNewData_append:
  "LogContent l = LogContentOld l @ new \<Longrightarrow> ReadNewData l = (if new = [] then '' '' else new)"
  by (simp add: ReadNewData_def EraseOldContent_append)

text \<open>The contents of a file to which these parts are appended one after the other.\<close>

fun growing :: "string \<Rightarrow> string list \<Rightarrow> (char \<times> string) list" where
  "growing content [] = []"
| "growing content (part # parts) = (CHR ''a'', content @ part) # growing (content @ part) parts"

lemma loger_turns_growing:
  "stream_good l \<Longrightarrow> LogContent l = content \<Longrightarrow>
   fst (loger_turns (growing content parts) l) = map (\<lambda>part. if part = [] then '' '' else part) parts"
proof (induction parts arbitrary: content l)
  case (Cons part parts)
  let ?l = "UpdateData (content @ part) l"
  have l: "stream_good ?l" "LogContent ?l = content @ part" "LogContentOld ?l = content"
    using Cons.prems by (simp_all add: UpdateData_def ReadWholeLog_def)
  then have "ReadNewData ?l = (if part = [] then '' '' else part)" by (intro ReadNewData_append) simp
  moreover obtain out l' where "loger_turns (growing (content @ part) parts) ?l = (out, l')" by fastforce
  ultimately show ?case using Cons.IH [OF l(1,2)] by simp
qed simp

text \<open>
  While a log only grows and every turn is asked to update, the program prints exactly what was
  appended since the turn before, and a blank when nothing was.
\<close>

theorem log_follows_appends:
  "loger_main content (growing content parts) True = map (\<lambda>part. if part = [] then '' '' else part) parts"
  unfolding loger_main_def by (rule loger_turns_growing) (simp_all add: log_loger_new_def ReadWholeLog_def)

text \<open>
  A key that does not ask for an update prints the last part again, so the newline of every entered
  line repeats it; and a log that was replaced by one that is not longer is not reported at all.
\<close>

theorem log_repeats_and_misses:
  "part \<noteq> [] \<Longrightarrow> length content' \<le> length content \<Longrightarrow>
   loger_main content [(CHR ''a'', content @ part), (CHR ''\<newline>'', content @ part)] True = [part, part] \<and>
   loger_main content [(CHR ''a'', content')] True = ['' '']"
  by (simp add: loger_main_def log_loger_new_def ReadWholeLog_def UpdateData_def ReadNewData_def EraseOldContent_append)

theorem log_repeats_and_misses_witness:
  "loger_main ''ab'' [(CHR ''a'', ''abc''), (CHR ''\<newline>'', ''abc'')] True = [''c'', ''c''] \<and> loger_main ''ab'' [(CHR ''a'', ''xy'')] True = ['' '']"
  using log_repeats_and_misses [of "''c''" "''xy''" "''ab''"] by simp

end
