(* ===== verification/Spec2Isabelle.thy ===== *)
theory Spec2Isabelle
  imports MD5_Correct Sliding_Window Uri_Parser Converter_Utils Ipc_Transmitter Worker_Threads
    Fsm_Handler Ticker_Thread Frame_Progress Data_Container Tools_Utils Dat_Replay Dat_Durability
    Tcp_Frames Ipc_Channel Connector_Session Server_Session Windows_Server Deployment_Agent Object_Lifetimes Notify_File Inotify_Correct Epoll_Programs Log_Reader
begin

text \<open>
  A verification development for the NewCPP repository.

  The program. \<open>MLCommon\<close> is a C++ library: workers and timers, state machines, inter-process
  communication over local or TCP sockets, video frames with their wire format and recordings, and
  tools. \<open>DeploymentAgent\<close> is a daemon built on it: it waits for USB sticks, recognises a package on a
  mounted stick, moves it to a temporary folder and installs it while the platform is stopped. Around
  them stand small programs that watch files: \<open>notify_file\<close> (copies of the agent's classes),
  \<open>inotify\<close> and \<open>epoll\<close> (C programs), the log follower \<open>src/loger.cpp\<close> and \<open>dir_crawl\<close>.

  Conventions. Records carry the data members of a class under their names, functions the names of the
  methods; where the Linux and the Windows sources differ both are modelled, with the suffixes
  \<open>unix\<close> and \<open>windows\<close>. Machine integers are words. A result \<open>None\<close> is undefined behaviour of
  the source (a read outside a buffer, a null pointer used as a string, an erased iterator) or, for a
  \<open>partial_function\<close>, a loop that does not end; each definition says which. Exceptions are \<open>Inl\<close>.
  The kernel is not modelled: it is any function from the calls made so far and the next call to a
  result (\<open>Os_Calls\<close>), and a routine returns the trace of calls it extends, so that order, arguments
  and omissions of calls are part of what is proved, for every behaviour of the system. Threads are
  steps that may interleave in any order, mutexes are part of the state.

  The theories, in the order of their imports:

  \<^item> \<open>Prelude\<close>: the integer types, \<open>std::string\<close> searching and slicing, \<open>std::find_if\<close>, bytes and slices.
  \<^item> \<open>Converter_Utils\<close> (Converter/): big-endian fields and the layout constants; the fields are slices.
  \<^item> \<open>MD5_Hash\<close>, \<open>MD5_Correct\<close> (Tools/MD5.cpp): the class, its 64 steps equal to the table of RFC 1321, the
    digest of any split of a message equal to a reference digest, and the lengths at which it fails.
  \<^item> \<open>Sliding_Window\<close> (Tools/SlidingWindow.h, SlidingWindowMgr.h): the window refines a queue with a
    history, the manager routes to every window.
  \<^item> \<open>Uri_Parser\<close> (NaiveURIParser.h): the shapes it accepts and what it does with a path.
  \<^item> \<open>Os_Calls\<close>, \<open>Epoll_Worker\<close> (EPoolWorker.h): system calls and the epoll wrapper.
  \<^item> \<open>Ipc_Socket\<close>, \<open>Ipc_Transmitter\<close>, \<open>Ipc_Connector\<close>, \<open>Ipc_Receiver\<close> (Network/Ipc, Unix, Windows): the registry of
    clients, the sender's queue and its interleavings, the life cycle of an endpoint, the rounds of
    the receiver. \<open>Ipc_Channel\<close>: a transmitter and a receiver joined by a stream socket, which bytes of the
    queued packets reach the listener. \<open>Connector_Session\<close>, \<open>Windows_Session\<close>: by the end of
    any number of sessions, each from \<open>Start\<close> to \<open>Stop\<close>, every descriptor obtained is closed once; both
    connectors are interpretations of the locale \<open>closing_session\<close>. \<open>Server_Session\<close>, \<open>Windows_Server\<close>: the
    threads of a server as steps that interleave over the same endpoints: on Windows every descriptor is
    held or was closed once, on Linux the clients that hung up or failed a write are forgotten without being closed, and
    there are two races between \<open>Stop\<close> and the sender: on Linux a write to
    a descriptor that is closed already, on Windows a second close. \<open>Tcp_Socket\<close>, \<open>Socket_Lifetimes\<close> (socket.h, tcpclient.cpp): the TCP
    classes, and what copies of a socket share. \<open>Tcp_Frames\<close>: frames sent and read over a connection.
  \<^item> \<open>Timer_Worker\<close> (TimerFramework/): timers, events and the dispatcher, with the invariant of the list of
    timers over all interleavings. \<open>Worker_Threads\<close>: the thread's function and how many threads run it.
    \<open>Ticker_Thread\<close> (Tools/Ticker.h): the detached thread.
  \<^item> \<open>Fsm_Handler\<close> (Stm/FsmHandler.h): the table-driven machine, its termination measure and its traps.
  \<^item> \<open>Data_Container\<close>, \<open>V4L_Frame\<close> (Types/, SensorData/Frame): containers over a heap of arrays; serialising and
    the incremental reader, over any reader that keeps the contract of the locale \<open>byte_stream\<close>. \<open>Frame_Progress\<close>: the order
    of the reader's states, in which it only moves forward.
  \<^item> \<open>Dat_File\<close>, \<open>Dat_Record\<close>, \<open>Dat_Replay\<close> (SensorData/DatFile): file streams, which are an interpretation of
    that contract, the writer with its index and the reader. \<open>Dat_Durability\<close>: what is flushed.
  \<^item> \<open>Tools_Utils\<close> (Tools/, Configuration/, Types/): file names, memory writer, settings, modules, sensor ids.
  \<^item> \<open>Archive_Detector\<close>, \<open>Deploy_Pipeline\<close>, \<open>Deploy_Correct\<close> (DeploymentAgent/src): recognising, unpacking, moving and
    installing a package; which characters the shell sees, the restart of the platform, the cleaning up.
  \<^item> \<open>Inotify_Events\<close>: the kernel's event layout. \<open>Folder_Monitor\<close> (folder_monitor.h): parsing is applying the
    events, no file is reported twice. \<open>Usb_Monitor\<close>, \<open>Usb_Correct\<close> (usb_mass_storage_monitor.h): the reference
    counts balance, and every mounted device is handed over once.
  \<^item> \<open>Object_Lifetimes\<close>: no program of moves, assignments and destructions of the monitors and of the devices
    they hold loses a handle or releases one twice, for any class that keeps the contract of \<open>movable\<close>.
  \<^item> \<open>System_Observer\<close> (system_observer.h, system_observable.h): the loop that joins both monitors over epoll,
    as the agent and the example run it. \<open>Deployment_Agent\<close> (DeploymentAgent/src/main.cpp): the daemon as the
    composition of the observer with the pipeline, which does not leave the platform stopped.
  \<^item> \<open>Notify_File\<close> (notify_file/): the program that prints what the copies of the agent's classes see, which is
    the agent's observer once the output is erased.
  \<^item> \<open>Inotify_Programs\<close>, \<open>Inotify_Correct\<close>, \<open>Epoll_Programs\<close> (inotify/, epoll/): the C programs from argument check to
    exit status, with their output. \<open>Log_Reader\<close> (loger.cpp, dir_crawl/).

  Bounds and fuel. The loops that follow data are structural or have a measure. The C programs and the
  observer have loops without an end: they take a number of turns, results hold for every number, and
  where a theorem says that a loop returns it names a number that suffices (one more than there are
  batches, chunks or events). \<open>RunStateMachine\<close>, \<open>writeData\<close> and the blocking reader are \<open>partial_function\<close>s,
  and their results are stated as \<open>Some\<close>, or as \<open>None\<close> where they do not return.

  Assumptions on what is not under src: a read returns at most what it was asked for
  (\<open>bounded_reads\<close>); what is read from a stream socket is the beginning of what was written to its other
  end, a premise of \<open>Ipc_Channel\<close> and \<open>Tcp_Frames\<close>; \<open>accept\<close> returns a descriptor that is not open and an
  event the data that was registered, premises of the sessions and of the
  servers; a \<open>Start\<close> that throws is not a step of a server, its receiver on Windows, which only reads the registries,
  takes no part, and which packet is sent there is left open; an accepted descriptor enters its registry in
  the step that accepts it; the environment of the USB monitor is any function of the references taken so far
  and, in one theorem, constant; the directory listing, the mount table, the glob's paths, the random
  numbers and the parsed configuration are arguments.

  Not modelled: the parsers of JSON and XML, which are not in the repository, logging, the pure
  interfaces for MQTT and TCP servers, which nothing implements, the empty class of \<open>unix_notify.cpp\<close>,
  the tests, and the memory model of C++ below the level of mutex sections.
\<close>

end
